(* ===== verification/Prelude.thy ===== *)
theory Prelude
  imports Main "HOL-Library.Word"
begin

text \<open>
  Shared vocabulary of the development: the machine integers of the kernel, the outcome of
  a kernel routine (a value, a Rust panic, or a spin lock that is never released), the
  iterator idioms of the Rust standard library that the sources use again and again
  (\<open>position\<close>, \<open>iter_mut().find\<close>, \<open>retain\<close>), bit tests on words, and the interface of a
  bounded keyed store, which several components implement.
\<close>

unbundle bit_operations_syntax

section \<open>Machine integers\<close>

type_synonym u8 = "8 word"
type_synonym u16 = "16 word"
type_synonym u32 = "32 word"
type_synonym u64 = "64 word"

text \<open>
  The kernel is built with both Cargo profiles: \<^verbatim>\<open>build.sh\<close> uses the dev profile, where an
  arithmetic overflow panics, and the release workflow the release profile, where it wraps.
  Routines whose arithmetic can overflow on untrusted input take the profile as an argument.
\<close>

datatype profile = Dev | Release

section \<open>Outcomes\<close>

text \<open>
  \<open>Panic\<close> is a Rust panic (index out of range, overflow in the dev profile, \<open>unwrap\<close> of
  \<open>None\<close>); \<open>Stuck\<close> is a call that spins forever on a \<open>spin::Mutex\<close> its own thread holds.
\<close>

datatype 'a outcome = Done 'a | Panic | Stuck

primrec obind :: "'a outcome \<Rightarrow> ('a \<Rightarrow> 'b outcome) \<Rightarrow> 'b outcome" where
  "obind (Done x) f = f x"
| "obind Panic f = Panic"
| "obind Stuck f = Stuck"

definition is_done :: "'a outcome \<Rightarrow> bool" where
  "is_done r \<longleftrightarrow> (\<exists>x. r = Done x)"

lemma is_done_simps [simp]: "is_done (Done x)" "\<not> is_done Panic" "\<not> is_done Stuck"
  by (simp_all add: is_done_def)

lemma obind_eq_Done_iff: "obind r f = Done y \<longleftrightarrow> (\<exists>x. r = Done x \<and> f x = Done y)"
  by (cases r) simp_all

lemma obind_DoneE:
  assumes "obind r f = Done y"
  obtains x where "r = Done x" and "f x = Done y"
  using assms by (auto simp: obind_eq_Done_iff)

lemma is_done_obind: "is_done r \<Longrightarrow> (\<And>x. r = Done x \<Longrightarrow> is_done (f x)) \<Longrightarrow> is_done (obind r f)"
  by (auto simp: is_done_def)

section \<open>Checked arithmetic\<close>

definition add_checked :: "profile \<Rightarrow> 'n::len word \<Rightarrow> 'n word \<Rightarrow> 'n word outcome" where
  "add_checked pf a b =
     (if pf = Dev \<and> 2 ^ LENGTH('n) \<le> unat a + unat b then Panic else Done (a + b))"

lemma add_checked_small:
  fixes a b :: "'n::len word"
  shows "unat a + unat b < 2 ^ LENGTH('n) \<Longrightarrow> add_checked pf a b = Done (a + b)"
  by (simp add: add_checked_def)

definition saturating_add :: "'n::len word \<Rightarrow> 'n word \<Rightarrow> 'n word" where
  "saturating_add a b = (if unat a + unat b < 2 ^ LENGTH('n) then a + b else - 1)"

lemma unat_max_word: "unat (- 1 :: 'n::len word) = 2 ^ LENGTH('n) - 1"
  by (simp add: unsigned_minus_1_eq_mask mask_eq_exp_minus_1)

lemma unat_saturating_add:
  fixes a b :: "'n::len word"
  shows "unat (saturating_add a b) = min (unat a + unat b) (2 ^ LENGTH('n) - 1)"
  by (auto simp: saturating_add_def unat_word_ariths unat_max_word)

section \<open>Single bits of a word\<close>

definition bit_mask :: "nat \<Rightarrow> 'n::len word" where
  "bit_mask n = push_bit n 1"

lemma bit_bit_mask [simp]:
  "bit (bit_mask n :: 'n::len word) m \<longleftrightarrow> m = n \<and> n < LENGTH('n)"
  by (auto simp: bit_mask_def bit_simps)

text \<open>The three idioms on flag words: test, set and clear one bit.\<close>

lemma and_bit_mask_nonzero:
  fixes w :: "'n::len word"
  shows "w AND bit_mask n \<noteq> 0 \<longleftrightarrow> bit w n"
proof
  assume "w AND bit_mask n \<noteq> 0"
  then obtain m where "bit (w AND bit_mask n) m"
    by (auto simp: bit_eq_iff)
  then show "bit w n" by (auto simp: bit_and_iff)
next
  assume "bit w n"
  then have "bit (w AND bit_mask n) n"
    by (simp add: bit_and_iff bit_imp_le_length)
  then show "w AND bit_mask n \<noteq> 0" by (metis bit_0_eq bot_apply bot_bool_def)
qed

lemma bit_set_mask:
  fixes w :: "'n::len word"
  shows "n < LENGTH('n) \<Longrightarrow> bit (w OR bit_mask n) m \<longleftrightarrow> m = n \<or> bit w m"
  by (auto simp: bit_or_iff)

lemma bit_clear_mask:
  fixes w :: "'n::len word"
  shows "bit (w AND NOT (bit_mask n)) m \<longleftrightarrow> m \<noteq> n \<and> bit w m"
  by (auto simp: bit_and_iff bit_not_iff dest: bit_imp_le_length)

lemmas bit_flag_simps = and_bit_mask_nonzero bit_set_mask bit_clear_mask

section \<open>Strings and bytes\<close>

text \<open>Rust strings are HOL strings, one character for each byte.\<close>

definition as_bytes :: "string \<Rightarrow> u8 list" where
  "as_bytes s = map (\<lambda>c. word_of_nat (of_char c)) s"

definition string_of_bytes :: "u8 list \<Rightarrow> string" where
  "string_of_bytes bs = map (\<lambda>b. char_of (unat b)) bs"

lemma string_of_as_bytes [simp]: "string_of_bytes (as_bytes s) = s"
proof (induction s)
  case (Cons c s)
  have "of_char c < (256 :: nat)" by (simp add: of_char_def split: char.splits)
  then have "unat (word_of_nat (of_char c) :: u8) = of_char c" by (simp add: unat_of_nat)
  with Cons show ?case by (simp add: string_of_bytes_def as_bytes_def)
qed (simp add: string_of_bytes_def as_bytes_def)

lemma as_bytes_inj: "as_bytes s = as_bytes t \<Longrightarrow> s = t"
  by (metis string_of_as_bytes)

section \<open>Iterator idioms\<close>

text \<open>\<open>iter().position(P)\<close>: the index of the first element that satisfies \<open>P\<close>.\<close>

fun position :: "('a \<Rightarrow> bool) \<Rightarrow> 'a list \<Rightarrow> nat option" where
  "position P [] = None"
| "position P (x # xs) = (if P x then Some 0 else map_option Suc (position P xs))"

lemma position_None_iff: "position P xs = None \<longleftrightarrow> (\<forall>x \<in> set xs. \<not> P x)"
  by (induction xs) auto

lemma position_SomeD:
  "position P xs = Some i \<Longrightarrow> i < length xs \<and> P (xs ! i) \<and> (\<forall>j < i. \<not> P (xs ! j))"
proof (induction xs arbitrary: i)
  case Nil
  then show ?case by simp
next
  case (Cons x xs)
  show ?case
  proof (cases "P x")
    case True
    with Cons.prems show ?thesis by simp
  next
    case False
    with Cons.prems obtain j where "position P xs = Some j" "i = Suc j" by auto
    with Cons.IH [of j] False show ?thesis
      by (auto simp: nth_Cons split: nat.splits)
  qed
qed

text \<open>
  \<open>iter_mut().find(P)\<close> followed by an assignment through the reference: the first element
  that satisfies \<open>P\<close> is replaced, the others stay.
\<close>

fun update_first :: "('a \<Rightarrow> bool) \<Rightarrow> ('a \<Rightarrow> 'a) \<Rightarrow> 'a list \<Rightarrow> 'a list" where
  "update_first P f [] = []"
| "update_first P f (x # xs) = (if P x then f x # xs else x # update_first P f xs)"

lemma length_update_first [simp]: "length (update_first P f xs) = length xs"
  by (induction xs) auto

lemma update_first_id: "\<forall>x \<in> set xs. \<not> P x \<Longrightarrow> update_first P f xs = xs"
  by (induction xs) auto

lemma map_update_first:
  "(\<And>x. g (f x) = g x) \<Longrightarrow> map g (update_first P f xs) = map g xs"
  by (induction xs) auto

lemma set_update_first_subset: "set (update_first P f xs) \<subseteq> set xs \<union> f ` {x \<in> set xs. P x}"
  by (induction xs) auto

lemma in_set_update_first:
  "y \<in> set (update_first P f xs) \<Longrightarrow> y \<in> set xs \<or> (\<exists>x \<in> set xs. P x \<and> y = f x)"
  using set_update_first_subset [of P f xs] by auto

lemma find_update_first_same:
  "(\<And>x. P x \<Longrightarrow> P (f x)) \<Longrightarrow> find P (update_first P f xs) = map_option f (find P xs)"
  by (induction xs) auto

lemma find_update_first_other:
  "(\<And>x. P x \<Longrightarrow> Q x \<Longrightarrow> False) \<Longrightarrow> (\<And>x. P x \<Longrightarrow> Q (f x) \<Longrightarrow> False) \<Longrightarrow>
   find Q (update_first P f xs) = find Q xs"
  by (induction xs) auto

lemma find_append: "find P (xs @ ys) = (case find P xs of None \<Rightarrow> find P ys | Some x \<Rightarrow> Some x)"
  by (induction xs) auto

lemma find_filter: "find P (filter Q xs) = find (\<lambda>x. P x \<and> Q x) xs"
  by (induction xs) auto

lemma find_eq_None: "find P xs = None \<longleftrightarrow> (\<forall>x \<in> set xs. \<not> P x)"
  by (auto simp: find_None_iff)

lemma find_SomeD: "find P xs = Some x \<Longrightarrow> x \<in> set xs \<and> P x"
  by (auto simp: find_Some_iff)

section \<open>Bounded keyed stores\<close>

text \<open>
  The contract of a table with at most so many entries, addressed by a key: an insertion may
  be refused (\<open>None\<close>), an accepted one is visible to exactly its own key, and a removal
  hides exactly its own key. The seccomp filter table implements it.
\<close>

locale bounded_store =
  fixes lookup :: "'t \<Rightarrow> 'k \<Rightarrow> 'v option"
    and put :: "'t \<Rightarrow> 'k \<Rightarrow> 'v \<Rightarrow> 't option"
    and del :: "'t \<Rightarrow> 'k \<Rightarrow> 't"
    and invar :: "'t \<Rightarrow> bool"
  assumes lookup_put: "invar t \<Longrightarrow> put t k v = Some t' \<Longrightarrow> lookup t' = (lookup t)(k \<mapsto> v)"
    and lookup_del: "invar t \<Longrightarrow> lookup (del t k) = (lookup t)(k := None)"
    and invar_put: "invar t \<Longrightarrow> put t k v = Some t' \<Longrightarrow> invar t'"
    and invar_del: "invar t \<Longrightarrow> invar (del t k)"
begin

lemma read_after_write: "invar t \<Longrightarrow> put t k v = Some t' \<Longrightarrow> lookup t' k = Some v"
  by (simp add: lookup_put)

lemma write_frame: "invar t \<Longrightarrow> put t k v = Some t' \<Longrightarrow> k' \<noteq> k \<Longrightarrow> lookup t' k' = lookup t k'"
  by (simp add: lookup_put)

lemma read_after_delete: "invar t \<Longrightarrow> lookup (del t k) k = None"
  by (simp add: lookup_del)

lemma put_del_id:
  "invar t \<Longrightarrow> lookup t k = None \<Longrightarrow> put t k v = Some t' \<Longrightarrow> lookup (del t' k) = lookup t"
  by (auto simp: lookup_del lookup_put invar_put)

end

section \<open>The interface of a table of numbered slots\<close>

text \<open>
  Descriptor-like tables hand out the lowest free number of a fixed range. \<open>alloc_all\<close> is a
  client that allocates one slot after the other.
\<close>

fun alloc_all :: "('s \<Rightarrow> 'v \<Rightarrow> nat option \<times> 's) \<Rightarrow> 'v list \<Rightarrow> 's \<Rightarrow> nat list option \<times> 's" where
  "alloc_all alloc [] s = (Some [], s)"
| "alloc_all alloc (v # vs) s =
     (case alloc s v of
        (None, s') \<Rightarrow> (None, s')
      | (Some i, s') \<Rightarrow> (case alloc_all alloc vs s' of (r, s'') \<Rightarrow> (map_option ((#) i) r, s'')))"

locale slot_allocator =
  fixes slot :: "'s \<Rightarrow> nat \<Rightarrow> 'v option"
    and alloc :: "'s \<Rightarrow> 'v \<Rightarrow> nat option \<times> 's"
    and lo hi :: nat
    and invar :: "'s \<Rightarrow> bool"
    and ok :: "'v \<Rightarrow> bool"
  assumes alloc_fails: "invar s \<Longrightarrow> ok v \<Longrightarrow> fst (alloc s v) = None \<longleftrightarrow> (\<forall>i. lo \<le> i \<and> i < hi \<longrightarrow> slot s i \<noteq> None)"
    and alloc_failed: "invar s \<Longrightarrow> ok v \<Longrightarrow> alloc s v = (None, s') \<Longrightarrow> s' = s"
    and alloc_lowest: "invar s \<Longrightarrow> ok v \<Longrightarrow> alloc s v = (Some i, s') \<Longrightarrow>
      lo \<le> i \<and> i < hi \<and> slot s i = None \<and> (\<forall>j. lo \<le> j \<and> j < i \<longrightarrow> slot s j \<noteq> None)"
    and alloc_slot: "invar s \<Longrightarrow> ok v \<Longrightarrow> alloc s v = (Some i, s') \<Longrightarrow> slot s' = (slot s)(i \<mapsto> v)"
    and alloc_invar: "invar s \<Longrightarrow> ok v \<Longrightarrow> alloc s v = (Some i, s') \<Longrightarrow> invar s'"
begin

text \<open>Several allocations give pairwise distinct slots that were free, and disturb no other slot.\<close>

lemma alloc_all_spec:
  "invar s \<Longrightarrow> list_all ok vs \<Longrightarrow> alloc_all alloc vs s = (Some is, s') \<Longrightarrow>
   invar s' \<and> length is = length vs \<and> distinct is \<and> (\<forall>i \<in> set is. lo \<le> i \<and> i < hi \<and> slot s i = None)
   \<and> map (slot s') is = map Some vs \<and> (\<forall>j. j \<notin> set is \<longrightarrow> slot s' j = slot s j)"
proof (induction vs arbitrary: s "is" s')
  case (Cons v vs)
  then obtain i s1 js where 1: "alloc s v = (Some i, s1)" and 2: "alloc_all alloc vs s1 = (Some js, s')"
      and js: "is = i # js"
    by (auto split: prod.splits option.splits)
  have v: "ok v" "list_all ok vs" using Cons.prems(2) by simp_all
  note low = alloc_lowest [OF Cons.prems(1) v(1) 1] and upd = alloc_slot [OF Cons.prems(1) v(1) 1]
  note rest = Cons.IH [OF alloc_invar [OF Cons.prems(1) v(1) 1] v(2) 2]
  from rest upd have i: "i \<notin> set js" by auto
  with rest upd low js show ?case by (auto split: if_splits)
qed simp

end

end
