(* ===== verification/Seccomp.thy ===== *)
theory Seccomp
  imports Prelude
begin

text \<open>
  The syscall filter of \<^verbatim>\<open>src/seccomp.rs\<close>: the classic-BPF interpreter (\<open>Vm\<close>), the
  per-process filter table (\<open>FilterTable\<close>), the decision the syscall dispatcher reacts to
  (\<open>check\<close>) and the allow-list compiler (\<open>build_allowlist\<close>). The program counter is a
  natural number: the sources use \<open>wrapping_add\<close> on a 64-bit index below the length of a
  vector plus a 32-bit offset, which cannot wrap.
\<close>

section \<open>Opcodes\<close>

abbreviation BPF_LD :: u16 where "BPF_LD \<equiv> 0x00"
abbreviation BPF_LDX :: u16 where "BPF_LDX \<equiv> 0x01"
abbreviation BPF_ST :: u16 where "BPF_ST \<equiv> 0x02"
abbreviation BPF_STX :: u16 where "BPF_STX \<equiv> 0x03"
abbreviation BPF_ALU :: u16 where "BPF_ALU \<equiv> 0x04"
abbreviation BPF_JMP :: u16 where "BPF_JMP \<equiv> 0x05"
abbreviation BPF_RET :: u16 where "BPF_RET \<equiv> 0x06"
abbreviation BPF_MISC :: u16 where "BPF_MISC \<equiv> 0x07"

abbreviation BPF_W :: u16 where "BPF_W \<equiv> 0x00"

abbreviation BPF_IMM :: u16 where "BPF_IMM \<equiv> 0x00"
abbreviation BPF_ABS :: u16 where "BPF_ABS \<equiv> 0x20"
abbreviation BPF_MEM :: u16 where "BPF_MEM \<equiv> 0x60"
abbreviation BPF_LEN :: u16 where "BPF_LEN \<equiv> 0x80"

abbreviation BPF_ADD :: u16 where "BPF_ADD \<equiv> 0x00"
abbreviation BPF_SUB :: u16 where "BPF_SUB \<equiv> 0x10"
abbreviation BPF_MUL :: u16 where "BPF_MUL \<equiv> 0x20"
abbreviation BPF_DIV :: u16 where "BPF_DIV \<equiv> 0x30"
abbreviation BPF_OR :: u16 where "BPF_OR \<equiv> 0x40"
abbreviation BPF_AND :: u16 where "BPF_AND \<equiv> 0x50"
abbreviation BPF_LSH :: u16 where "BPF_LSH \<equiv> 0x60"
abbreviation BPF_RSH :: u16 where "BPF_RSH \<equiv> 0x70"
abbreviation BPF_NEG :: u16 where "BPF_NEG \<equiv> 0x80"
abbreviation BPF_MOD :: u16 where "BPF_MOD \<equiv> 0x90"
abbreviation BPF_XOR :: u16 where "BPF_XOR \<equiv> 0xa0"

abbreviation BPF_JA :: u16 where "BPF_JA \<equiv> 0x00"
abbreviation BPF_JEQ :: u16 where "BPF_JEQ \<equiv> 0x10"
abbreviation BPF_JGT :: u16 where "BPF_JGT \<equiv> 0x20"
abbreviation BPF_JGE :: u16 where "BPF_JGE \<equiv> 0x30"
abbreviation BPF_JSET :: u16 where "BPF_JSET \<equiv> 0x40"

abbreviation BPF_K :: u16 where "BPF_K \<equiv> 0x00"
abbreviation BPF_X :: u16 where "BPF_X \<equiv> 0x08"

definition insn_class :: "u16 \<Rightarrow> u16" where "insn_class c = c AND 0x07"
definition insn_size :: "u16 \<Rightarrow> u16" where "insn_size c = c AND 0x18"
definition insn_mode :: "u16 \<Rightarrow> u16" where "insn_mode c = c AND 0xe0"
definition insn_op :: "u16 \<Rightarrow> u16" where "insn_op c = c AND 0xf0"
definition insn_src :: "u16 \<Rightarrow> u16" where "insn_src c = c AND 0x08"

lemmas insn_fields = insn_class_def insn_size_def insn_mode_def insn_op_def insn_src_def

section \<open>Instructions, data, actions\<close>

record bpf_insn =
  bi_code :: u16
  bi_jt :: u8
  bi_jf :: u8
  bi_k :: u32

record seccomp_data =
  sd_nr :: u32
  sd_arch :: u32
  sd_instruction_pointer :: u64
  sd_args :: "u64 list"

text \<open>The in-memory image of \<open>#[repr(C)] SeccompData\<close> on a little-endian machine.\<close>

definition le_bytes :: "nat \<Rightarrow> 'n::len word \<Rightarrow> u8 list" where
  "le_bytes n w = map (\<lambda>i. ucast (drop_bit (8 * i) w)) [0..<n]"

definition seccomp_bytes :: "seccomp_data \<Rightarrow> u8 list" where
  "seccomp_bytes d = le_bytes 4 (sd_nr d) @ le_bytes 4 (sd_arch d)
     @ le_bytes 8 (sd_instruction_pointer d) @ concat (map (le_bytes 8) (sd_args d))"

definition u32_from_le_bytes :: "u8 \<Rightarrow> u8 \<Rightarrow> u8 \<Rightarrow> u8 \<Rightarrow> u32" where
  "u32_from_le_bytes b0 b1 b2 b3 =
     ucast b0 OR push_bit 8 (ucast b1) OR push_bit 16 (ucast b2) OR push_bit 24 (ucast b3)"

definition load_word :: "profile \<Rightarrow> seccomp_data \<Rightarrow> u32 \<Rightarrow> u32 option outcome" where
  "load_word pf d off =
     obind (add_checked pf off 4) (\<lambda>end.
       if end > 64 then Done None
       else let bytes = seccomp_bytes d; i = unat off in
         if i + 3 < length bytes
         then Done (Some (u32_from_le_bytes (bytes ! i) (bytes ! (i + 1)) (bytes ! (i + 2)) (bytes ! (i + 3))))
         else Panic)"

abbreviation RET_KILL_PROCESS :: u32 where "RET_KILL_PROCESS \<equiv> 0x80000000"
abbreviation RET_TRAP :: u32 where "RET_TRAP \<equiv> 0x00030000"
abbreviation RET_ERRNO :: u32 where "RET_ERRNO \<equiv> 0x00050000"
abbreviation RET_LOG :: u32 where "RET_LOG \<equiv> 0x7ffc0000"
abbreviation RET_ALLOW :: u32 where "RET_ALLOW \<equiv> 0x7fff0000"
abbreviation ACTION_MASK :: u32 where "ACTION_MASK \<equiv> 0xffff0000"
abbreviation DATA_MASK :: u32 where "DATA_MASK \<equiv> 0x0000ffff"

section \<open>The interpreter\<close>

definition SCRATCH :: nat where "SCRATCH = 16"

record vm =
  vm_a :: u32
  vm_x :: u32
  vm_mem :: "u32 list"

definition vm_new :: vm where
  "vm_new = \<lparr>vm_a = 0, vm_x = 0, vm_mem = replicate SCRATCH 0\<rparr>"

text \<open>One iteration of the interpreter loop either returns an action or moves on.\<close>

datatype vm_step = VmRet u32 | VmNext nat vm

definition scratch_idx :: "u32 \<Rightarrow> nat" where
  "scratch_idx k = unat k mod SCRATCH"

definition step_ld :: "profile \<Rightarrow> seccomp_data \<Rightarrow> bpf_insn \<Rightarrow> nat \<Rightarrow> vm \<Rightarrow> vm_step outcome" where
  "step_ld pf d ins pc v =
     (let sz = insn_size (bi_code ins); md = insn_mode (bi_code ins) in
      if sz = BPF_W \<and> md = BPF_ABS then
        obind (load_word pf d (bi_k ins)) (\<lambda>w.
          Done (VmNext (pc + 1) (v\<lparr>vm_a := (case w of None \<Rightarrow> 0 | Some x \<Rightarrow> x)\<rparr>)))
      else if sz = BPF_W \<and> md = BPF_IMM then Done (VmNext (pc + 1) (v\<lparr>vm_a := bi_k ins\<rparr>))
      else if sz = BPF_W \<and> md = BPF_LEN then Done (VmNext (pc + 1) (v\<lparr>vm_a := 64\<rparr>))
      else if sz = BPF_W \<and> md = BPF_MEM then
        Done (VmNext (pc + 1) (v\<lparr>vm_a := vm_mem v ! scratch_idx (bi_k ins)\<rparr>))
      else Done (VmRet RET_KILL_PROCESS))"

definition step_ldx :: "bpf_insn \<Rightarrow> nat \<Rightarrow> vm \<Rightarrow> vm_step" where
  "step_ldx ins pc v =
     (let sz = insn_size (bi_code ins); md = insn_mode (bi_code ins) in
      if sz = BPF_W \<and> md = BPF_IMM then VmNext (pc + 1) (v\<lparr>vm_x := bi_k ins\<rparr>)
      else if sz = BPF_W \<and> md = BPF_MEM then
        VmNext (pc + 1) (v\<lparr>vm_x := vm_mem v ! scratch_idx (bi_k ins)\<rparr>)
      else if sz = BPF_W \<and> md = BPF_LEN then VmNext (pc + 1) (v\<lparr>vm_x := 64\<rparr>)
      else VmRet RET_KILL_PROCESS)"

definition rhs_operand :: "bpf_insn \<Rightarrow> vm \<Rightarrow> u32" where
  "rhs_operand ins v = (if insn_src (bi_code ins) = BPF_X then vm_x v else bi_k ins)"

text \<open>\<open>wrapping_shl\<close> and \<open>wrapping_shr\<close> mask the shift distance to five bits.\<close>

definition alu :: "u16 \<Rightarrow> u32 \<Rightarrow> u32 \<Rightarrow> u32 option" where
  "alu opc a rhs =
     (if opc = BPF_ADD then Some (a + rhs)
      else if opc = BPF_SUB then Some (a - rhs)
      else if opc = BPF_MUL then Some (a * rhs)
      else if opc = BPF_DIV then (if rhs = 0 then None else Some (a div rhs))
      else if opc = BPF_MOD then (if rhs = 0 then None else Some (a mod rhs))
      else if opc = BPF_OR then Some (a OR rhs)
      else if opc = BPF_AND then Some (a AND rhs)
      else if opc = BPF_XOR then Some (a XOR rhs)
      else if opc = BPF_LSH then Some (push_bit (unat (rhs AND 31)) a)
      else if opc = BPF_RSH then Some (drop_bit (unat (rhs AND 31)) a)
      else if opc = BPF_NEG then Some (0 - a)
      else None)"

definition step_alu :: "bpf_insn \<Rightarrow> nat \<Rightarrow> vm \<Rightarrow> vm_step" where
  "step_alu ins pc v =
     (case alu (insn_op (bi_code ins)) (vm_a v) (rhs_operand ins v) of
        None \<Rightarrow> VmRet RET_KILL_PROCESS
      | Some r \<Rightarrow> VmNext (pc + 1) (v\<lparr>vm_a := r\<rparr>))"

definition jump_taken :: "u16 \<Rightarrow> u32 \<Rightarrow> u32 \<Rightarrow> bool option" where
  "jump_taken opc a rhs =
     (if opc = BPF_JEQ then Some (a = rhs)
      else if opc = BPF_JGT then Some (a > rhs)
      else if opc = BPF_JGE then Some (a \<ge> rhs)
      else if opc = BPF_JSET then Some (a AND rhs \<noteq> 0)
      else None)"

definition step_jmp :: "bpf_insn \<Rightarrow> nat \<Rightarrow> vm \<Rightarrow> vm_step" where
  "step_jmp ins pc v =
     (if insn_op (bi_code ins) = BPF_JA then VmNext (pc + 1 + unat (bi_k ins)) v
      else case jump_taken (insn_op (bi_code ins)) (vm_a v) (rhs_operand ins v) of
             None \<Rightarrow> VmRet RET_KILL_PROCESS
           | Some tk \<Rightarrow> VmNext (pc + 1 + (if tk then unat (bi_jt ins) else unat (bi_jf ins))) v)"

definition step_ret :: "bpf_insn \<Rightarrow> vm \<Rightarrow> vm_step" where
  "step_ret ins v =
     VmRet (if insn_src (bi_code ins) = BPF_X then vm_x v
            else if insn_mode (bi_code ins) = 0x10 then vm_a v
            else bi_k ins)"

definition step_misc :: "bpf_insn \<Rightarrow> nat \<Rightarrow> vm \<Rightarrow> vm_step" where
  "step_misc ins pc v =
     (if bi_code ins = 0x07 then VmNext (pc + 1) (v\<lparr>vm_x := vm_a v\<rparr>)
      else if bi_code ins = 0x87 then VmNext (pc + 1) (v\<lparr>vm_a := vm_x v\<rparr>)
      else VmRet RET_KILL_PROCESS)"

definition vm_exec :: "profile \<Rightarrow> seccomp_data \<Rightarrow> bpf_insn \<Rightarrow> nat \<Rightarrow> vm \<Rightarrow> vm_step outcome" where
  "vm_exec pf d ins pc v =
     (let cl = insn_class (bi_code ins) in
      if cl = BPF_LD then step_ld pf d ins pc v
      else if cl = BPF_LDX then Done (step_ldx ins pc v)
      else if cl = BPF_ST then
        Done (VmNext (pc + 1) (v\<lparr>vm_mem := (vm_mem v)[scratch_idx (bi_k ins) := vm_a v]\<rparr>))
      else if cl = BPF_STX then
        Done (VmNext (pc + 1) (v\<lparr>vm_mem := (vm_mem v)[scratch_idx (bi_k ins) := vm_x v]\<rparr>))
      else if cl = BPF_ALU then Done (step_alu ins pc v)
      else if cl = BPF_JMP then Done (step_jmp ins pc v)
      else if cl = BPF_RET then Done (step_ret ins v)
      else if cl = BPF_MISC then Done (step_misc ins pc v)
      else Done (VmRet RET_KILL_PROCESS))"

text \<open>The loop: the first argument is what is left of the 4096 steps the source allows.\<close>

fun vm_loop :: "nat \<Rightarrow> profile \<Rightarrow> bpf_insn list \<Rightarrow> seccomp_data \<Rightarrow> nat \<Rightarrow> vm \<Rightarrow> u32 outcome" where
  "vm_loop 0 pf prog d pc v = Done RET_KILL_PROCESS"
| "vm_loop (Suc n) pf prog d pc v =
     (if pc < length prog then
        obind (vm_exec pf d (prog ! pc) pc v) (\<lambda>s.
          case s of VmRet r \<Rightarrow> Done r | VmNext pc' v' \<Rightarrow> vm_loop n pf prog d pc' v')
      else Done RET_KILL_PROCESS)"

definition MAX_STEPS :: nat where "MAX_STEPS = 4096"

definition vm_run :: "profile \<Rightarrow> bpf_insn list \<Rightarrow> seccomp_data \<Rightarrow> u32 outcome" where
  "vm_run pf prog d = vm_loop MAX_STEPS pf prog d 0 vm_new"

section \<open>The filter table\<close>

record seccomp_filter =
  sf_program :: "bpf_insn list"
  sf_pid :: nat

record filter_table =
  ft_slots :: "seccomp_filter option list"

definition MAX_FILTERS :: nat where "MAX_FILTERS = 16"

definition ft_new :: filter_table where
  "ft_new = \<lparr>ft_slots = replicate MAX_FILTERS None\<rparr>"

definition slot_of :: "nat \<Rightarrow> seccomp_filter option \<Rightarrow> bool" where
  "slot_of pid s = (case s of None \<Rightarrow> False | Some f \<Rightarrow> sf_pid f = pid)"

definition ft_install :: "filter_table \<Rightarrow> nat \<Rightarrow> bpf_insn list \<Rightarrow> bool \<times> filter_table" where
  "ft_install t pid prog =
     (if \<exists>s \<in> set (ft_slots t). slot_of pid s then
        (True, t\<lparr>ft_slots := update_first (slot_of pid) (map_option (sf_program_update (\<lambda>_. prog))) (ft_slots t)\<rparr>)
      else if None \<in> set (ft_slots t) then
        (True, t\<lparr>ft_slots := update_first (\<lambda>s. s = None) (\<lambda>_. Some \<lparr>sf_program = prog, sf_pid = pid\<rparr>) (ft_slots t)\<rparr>)
      else (False, t))"

definition ft_for_pid :: "filter_table \<Rightarrow> nat \<Rightarrow> seccomp_filter option" where
  "ft_for_pid t pid = find (\<lambda>f. sf_pid f = pid) (List.map_filter (\<lambda>s. s) (ft_slots t))"

definition ft_remove :: "filter_table \<Rightarrow> nat \<Rightarrow> filter_table" where
  "ft_remove t pid = t\<lparr>ft_slots := update_first (slot_of pid) (\<lambda>_. None) (ft_slots t)\<rparr>"

definition ft_count :: "filter_table \<Rightarrow> nat" where
  "ft_count t = length (filter (\<lambda>s. s \<noteq> None) (ft_slots t))"

section \<open>Decisions\<close>

datatype decision = Allow | Errno u16 | Log | Kill | Trap

definition decision_of :: "u32 \<Rightarrow> decision" where
  "decision_of ret =
     (let masked = ret AND ACTION_MASK in
      if masked = RET_ALLOW then Allow
      else if masked = RET_LOG then Log
      else if masked = RET_TRAP then Trap
      else if masked = RET_ERRNO then Errno (ucast (ret AND DATA_MASK))
      else if masked = RET_KILL_PROCESS then Kill
      else Allow)"

definition check :: "profile \<Rightarrow> filter_table \<Rightarrow> nat \<Rightarrow> u64 \<Rightarrow> u64 list \<Rightarrow> decision outcome" where
  "check pf t pid syscall_num args =
     (case ft_for_pid t pid of
        None \<Rightarrow> Done Allow
      | Some f \<Rightarrow>
          let d = \<lparr>sd_nr = ucast syscall_num, sd_arch = 0xc000003e, sd_instruction_pointer = 0, sd_args = args\<rparr>
          in obind (vm_run pf (sf_program f) d) (\<lambda>ret. Done (decision_of ret)))"

section \<open>The allow-list compiler\<close>

definition insn :: "u16 \<Rightarrow> u8 \<Rightarrow> u8 \<Rightarrow> u32 \<Rightarrow> bpf_insn" where
  "insn c jt jf k = \<lparr>bi_code = c, bi_jt = jt, bi_jf = jf, bi_k = k\<rparr>"

definition allow_entry :: "u32 \<Rightarrow> bpf_insn list" where
  "allow_entry nr = [insn (BPF_JMP OR BPF_JEQ OR BPF_K) 0 1 nr, insn (BPF_RET OR BPF_K) 0 0 RET_ALLOW]"

definition build_allowlist :: "u32 list \<Rightarrow> u32 \<Rightarrow> bpf_insn list" where
  "build_allowlist allowed dflt =
     insn (BPF_LD OR BPF_W OR BPF_ABS) 0 0 0
     # concat (map allow_entry allowed) @ [insn (BPF_RET OR BPF_K) 0 0 dflt]"

section \<open>Reading the data\<close>

lemma length_le_bytes [simp]: "length (le_bytes n w) = n"
  by (simp add: le_bytes_def)

lemma nth_le_bytes: "i < n \<Longrightarrow> le_bytes n w ! i = ucast (drop_bit (8 * i) w)"
  by (simp add: le_bytes_def)

lemma length_seccomp_bytes: "length (seccomp_bytes d) = 16 + 8 * length (sd_args d)"
  by (simp add: seccomp_bytes_def length_concat comp_def sum_list_triv)

lemma u32_le_roundtrip:
  fixes w :: u32
  shows "u32_from_le_bytes (le_bytes 4 w ! 0) (le_bytes 4 w ! 1) (le_bytes 4 w ! 2) (le_bytes 4 w ! 3) = w"
proof (rule bit_word_eqI)
  fix n assume "n < LENGTH(32)"
  then have "n < 8 \<or> 8 \<le> n \<and> n < 16 \<or> 16 \<le> n \<and> n < 24 \<or> 24 \<le> n \<and> n < 32" by auto
  then show "bit (u32_from_le_bytes (le_bytes 4 w ! 0) (le_bytes 4 w ! 1) (le_bytes 4 w ! 2) (le_bytes 4 w ! 3)) n
      = bit w n"
    by (auto simp: u32_from_le_bytes_def nth_le_bytes bit_simps)
qed

lemma load_word_nr: "load_word pf d 0 = Done (Some (sd_nr d))"
proof -
  have "seccomp_bytes d ! i = le_bytes 4 (sd_nr d) ! i" if "i < 4" for i
    using that by (simp add: seccomp_bytes_def nth_append)
  then show ?thesis
    using u32_le_roundtrip [of "sd_nr d"]
    by (simp add: load_word_def add_checked_def length_seccomp_bytes flip: numeral_2_eq_2)
qed

lemma load_word_in_range:
  "unat off + 4 < 2 ^ 32 \<Longrightarrow> length (sd_args d) = 6 \<Longrightarrow> is_done (load_word pf d off)"
  by (auto simp: load_word_def add_checked_def length_seccomp_bytes Let_def word_less_nat_alt
      unat_word_ariths not_less is_done_def)

section \<open>The interpreter on allow-lists\<close>

text \<open>The three kinds of instruction an allow-list consists of.\<close>

lemma exec_ld_nr: "vm_exec pf d (insn (BPF_LD OR BPF_W OR BPF_ABS) 0 0 0) pc v = Done (VmNext (pc + 1) (v\<lparr>vm_a := sd_nr d\<rparr>))"
  by (simp add: vm_exec_def step_ld_def insn_def insn_fields load_word_nr)

lemma exec_jeq: "vm_exec pf d (insn (BPF_JMP OR BPF_JEQ OR BPF_K) 0 1 k) pc v = Done (VmNext (if vm_a v = k then pc + 1 else pc + 2) v)"
  by (simp add: vm_exec_def step_jmp_def insn_def insn_fields jump_taken_def rhs_operand_def)

lemma exec_ret_k: "vm_exec pf d (insn (BPF_RET OR BPF_K) 0 0 k) pc v = Done (VmRet k)"
  by (simp add: vm_exec_def step_ret_def insn_def insn_fields)

lemmas exec_simps = exec_ld_nr [simplified] exec_jeq [simplified] exec_ret_k [simplified]

text \<open>
  From the start of an entry, with \<open>n\<close> steps left: a listed number is found if its entry and
  the return after it are within reach, and the default is reached if all entries are.
\<close>

lemma vm_loop_entries:
  "vm_loop n pf (pre @ concat (map allow_entry xs) @ [insn (BPF_RET OR BPF_K) 0 0 dflt]) d (length pre) v
   = Done (if vm_a v \<in> set (take (n - 1) xs) then RET_ALLOW
           else if length xs < n then dflt else RET_KILL_PROCESS)"
proof (induction xs arbitrary: pre n)
  case Nil
  show ?case by (cases n) (simp_all add: exec_simps)
next
  case (Cons y ys)
  define prog where
    "prog = pre @ concat (map allow_entry (y # ys)) @ [insn (BPF_RET OR BPF_K) 0 0 dflt]"
  have at0: "prog ! length pre = insn (BPF_JMP OR BPF_JEQ OR BPF_K) 0 1 y"
    and at1: "prog ! Suc (length pre) = insn (BPF_RET OR BPF_K) 0 0 RET_ALLOW"
    and len: "Suc (length pre) < length prog"
    by (simp_all add: prog_def allow_entry_def nth_append)
  have len2: "length (pre @ allow_entry y) = Suc (Suc (length pre))"
    by (simp add: allow_entry_def)
  have IH: "vm_loop m pf prog d (Suc (Suc (length pre))) v
     = Done (if vm_a v \<in> set (take (m - 1) ys) then RET_ALLOW
             else if length ys < m then dflt else RET_KILL_PROCESS)" for m
    using Cons.IH [of m "pre @ allow_entry y"] unfolding len2 by (simp add: prog_def)
  have "vm_loop n pf prog d (length pre) v
     = Done (if vm_a v \<in> set (take (n - 1) (y # ys)) then RET_ALLOW
             else if length (y # ys) < n then dflt else RET_KILL_PROCESS)"
  proof (cases n)
    case 0
    then show ?thesis by simp
  next
    case (Suc m)
    have run: "vm_loop n pf prog d (length pre) v
        = vm_loop m pf prog d (if vm_a v = y then Suc (length pre) else Suc (Suc (length pre))) v"
      using len by (simp add: Suc at0 exec_simps)
    show ?thesis
    proof (cases "vm_a v = y")
      case True
      with run len Suc show ?thesis by (cases m) (simp_all add: at1 exec_simps)
    next
      case False
      with run IH Suc show ?thesis by (cases m) simp_all
    qed
  qed
  then show ?case by (simp only: prog_def)
qed

lemma vm_run_allowlist_raw:
  "vm_run pf (build_allowlist allowed dflt) d
   = Done (if sd_nr d \<in> set (take 4094 allowed) then RET_ALLOW
           else if length allowed \<le> 4094 then dflt else RET_KILL_PROCESS)"
proof -
  let ?ld = "insn (BPF_LD OR BPF_W OR BPF_ABS) 0 0 0"
  have steps: "MAX_STEPS = Suc 4095" by (simp add: MAX_STEPS_def)
  have "vm_run pf (build_allowlist allowed dflt) d
      = vm_loop 4095 pf (build_allowlist allowed dflt) d 1 (vm_new\<lparr>vm_a := sd_nr d\<rparr>)"
    unfolding vm_run_def steps vm_loop.simps by (simp add: build_allowlist_def exec_simps)
  then show ?thesis
    using vm_loop_entries [of 4095 pf "[?ld]" allowed dflt d "vm_new\<lparr>vm_a := sd_nr d\<rparr>"]
    by (simp add: build_allowlist_def)
qed

section \<open>Panic freedom of the interpreter\<close>

text \<open>An absolute load panics exactly on the four offsets whose end does not fit in 32 bits.\<close>

lemma load_word_panics_iff:
  assumes "length (sd_args d) = 6"
  shows "load_word pf d off = Panic \<longleftrightarrow> 2 ^ 32 \<le> unat off + 4"
proof (cases "2 ^ 32 \<le> unat off + 4")
  case True
  have "unat off < 2 ^ 32" using unsigned_less [of off] by simp
  with True have wrapped: "unat (off + 4) < 4"
    by (simp add: unat_word_ariths le_mod_geq)
  then have "\<not> off + 4 > 64" by (simp add: word_less_nat_alt)
  with True show ?thesis
    using assms by (auto simp: load_word_def add_checked_def length_seccomp_bytes Let_def)
next
  case False
  then have "is_done (load_word pf d off)"
    using assms by (intro load_word_in_range) simp_all
  with False show ?thesis by (auto simp: is_done_def)
qed

definition is_abs_load :: "bpf_insn \<Rightarrow> bool" where
  "is_abs_load ins \<longleftrightarrow> insn_class (bi_code ins) = BPF_LD \<and> insn_size (bi_code ins) = BPF_W
     \<and> insn_mode (bi_code ins) = BPF_ABS"

lemma vm_exec_done:
  assumes "length (sd_args d) = 6" and "is_abs_load ins \<Longrightarrow> unat (bi_k ins) + 4 < 2 ^ 32"
  shows "is_done (vm_exec pf d ins pc v)"
proof (cases "is_abs_load ins")
  case True
  with assms have "is_done (load_word pf d (bi_k ins))" by (intro load_word_in_range) simp_all
  then show ?thesis
    using True by (auto simp: vm_exec_def step_ld_def is_abs_load_def is_done_obind)
next
  case False
  then show ?thesis by (auto simp: vm_exec_def step_ld_def is_abs_load_def Let_def)
qed

lemma vm_loop_done:
  assumes "length (sd_args d) = 6"
    and "\<forall>ins \<in> set prog. is_abs_load ins \<longrightarrow> unat (bi_k ins) + 4 < 2 ^ 32"
  shows "is_done (vm_loop n pf prog d pc v)"
proof (induction n arbitrary: pc v)
  case 0
  show ?case by simp
next
  case (Suc n)
  show ?case
  proof (cases "pc < length prog")
    case True
    with assms have "is_done (vm_exec pf d (prog ! pc) pc v)"
      by (intro vm_exec_done) simp_all
    with True Suc.IH show ?thesis by (auto intro!: is_done_obind split: vm_step.split)
  next
    case False
    then show ?thesis by simp
  qed
qed

section \<open>The filter table is a bounded store\<close>

definition slots_lookup :: "seccomp_filter option list \<Rightarrow> nat \<Rightarrow> seccomp_filter option" where
  "slots_lookup xs pid = (case find (slot_of pid) xs of None \<Rightarrow> None | Some s \<Rightarrow> s)"

lemma ft_for_pid_slots: "ft_for_pid t pid = slots_lookup (ft_slots t) pid"
proof -
  have "find (\<lambda>f. sf_pid f = pid) (List.map_filter (\<lambda>s. s) xs) = slots_lookup xs pid" for xs
    by (induction xs) (auto simp: slots_lookup_def slot_of_def List.map_filter_def split: option.splits)
  then show ?thesis by (simp add: ft_for_pid_def)
qed

definition ft_program :: "filter_table \<Rightarrow> nat \<Rightarrow> bpf_insn list option" where
  "ft_program t pid = map_option sf_program (ft_for_pid t pid)"

definition ft_put :: "filter_table \<Rightarrow> nat \<Rightarrow> bpf_insn list \<Rightarrow> filter_table option" where
  "ft_put t pid prog = (case ft_install t pid prog of (ok, t') \<Rightarrow> if ok then Some t' else None)"

text \<open>Sixteen slots, and no process has two filters.\<close>

definition ft_invar :: "filter_table \<Rightarrow> bool" where
  "ft_invar t \<longleftrightarrow> length (ft_slots t) = MAX_FILTERS
     \<and> (\<forall>pid. length (filter (slot_of pid) (ft_slots t)) \<le> 1)"

lemma slot_of_simps [simp]: "\<not> slot_of pid None" "slot_of pid (Some f) \<longleftrightarrow> sf_pid f = pid"
  by (simp_all add: slot_of_def)

lemma slots_lookup_simps [simp]:
  "slots_lookup [] pid = None"
  "slots_lookup (None # xs) pid = slots_lookup xs pid"
  "slots_lookup (Some f # xs) pid = (if sf_pid f = pid then Some f else slots_lookup xs pid)"
  by (simp_all add: slots_lookup_def)

lemma slots_lookup_induct:
  "P [] pid \<Longrightarrow> (\<And>xs. P xs pid \<Longrightarrow> P (None # xs) pid) \<Longrightarrow> (\<And>f xs. P xs pid \<Longrightarrow> P (Some f # xs) pid)
   \<Longrightarrow> P xs pid"
  by (induction xs) (metis option.exhaust)+

lemma slots_lookup_None: "slots_lookup xs pid = None \<longleftrightarrow> (\<forall>s \<in> set xs. \<not> slot_of pid s)"
  by (induction xs pid rule: slots_lookup_induct) auto

lemma slots_replace:
  "slots_lookup (update_first (slot_of pid) (map_option (sf_program_update (\<lambda>_. prog))) xs) pid' =
   (if pid' = pid then map_option (sf_program_update (\<lambda>_. prog)) (slots_lookup xs pid) else slots_lookup xs pid')"
  by (induction xs pid' rule: slots_lookup_induct) auto

lemma slots_fill:
  "\<forall>s \<in> set xs. \<not> slot_of pid s \<Longrightarrow> None \<in> set xs \<Longrightarrow>
   map_option sf_program (slots_lookup
     (update_first (\<lambda>s. s = None) (\<lambda>_. Some \<lparr>sf_program = prog, sf_pid = pid\<rparr>) xs) pid') =
   (if pid' = pid then Some prog else map_option sf_program (slots_lookup xs pid'))"
  by (induction xs pid' rule: slots_lookup_induct) (auto simp: slots_lookup_None)

lemma slots_clear:
  "length (filter (slot_of pid) xs) \<le> 1 \<Longrightarrow>
   slots_lookup (update_first (slot_of pid) (\<lambda>_. None) xs) pid' =
   (if pid' = pid then None else slots_lookup xs pid')"
  by (induction xs pid' rule: slots_lookup_induct)
    (auto simp: slots_lookup_None filter_empty_conv)

lemma count_replace:
  "length (filter (slot_of p) (update_first (slot_of pid) (map_option (sf_program_update (\<lambda>_. prog))) xs))
   = length (filter (slot_of p) xs)"
  by (induction xs) (auto simp: slot_of_def split: option.splits)

lemma count_fill:
  "\<forall>s \<in> set xs. \<not> slot_of pid s \<Longrightarrow>
   length (filter (slot_of p) (update_first (\<lambda>s. s = None) (\<lambda>_. Some \<lparr>sf_program = prog, sf_pid = pid\<rparr>) xs))
   \<le> (if p = pid then 1 else length (filter (slot_of p) xs))"
  by (induction xs) (auto simp: slot_of_def filter_empty_conv split: option.splits)

lemma count_clear:
  "length (filter (slot_of p) (update_first (slot_of pid) (\<lambda>_. None) xs)) \<le> length (filter (slot_of p) xs)"
  by (induction xs) auto

lemma ft_install_shape:
  assumes "ft_install t pid prog = (True, t')"
  obtains "\<exists>s \<in> set (ft_slots t). slot_of pid s"
      "ft_slots t' = update_first (slot_of pid) (map_option (sf_program_update (\<lambda>_. prog))) (ft_slots t)"
    | "\<forall>s \<in> set (ft_slots t). \<not> slot_of pid s" "None \<in> set (ft_slots t)"
      "ft_slots t' = update_first (\<lambda>s. s = None) (\<lambda>_. Some \<lparr>sf_program = prog, sf_pid = pid\<rparr>) (ft_slots t)"
  using assms by (auto simp: ft_install_def split: if_splits)

lemma ft_install_lookup:
  "ft_install t pid prog = (True, t') \<Longrightarrow> ft_program t' = (ft_program t)(pid \<mapsto> prog)"
  by (erule ft_install_shape; rule ext;
      auto simp: ft_program_def ft_for_pid_slots slots_replace slots_fill slots_lookup_None
        option.map_comp comp_def not_None_eq [symmetric] simp del: not_None_eq)

lemma ft_install_invar:
  assumes "ft_invar t" and inst: "ft_install t pid prog = (True, t')"
  shows "ft_invar t'"
  using inst
proof (cases rule: ft_install_shape)
  case 1
  with assms(1) show ?thesis by (simp add: ft_invar_def count_replace)
next
  case 2
  with assms(1) show ?thesis
    by (auto simp: ft_invar_def intro: order_trans [OF count_fill])
qed

interpretation filters: bounded_store ft_program ft_put ft_remove ft_invar
proof unfold_locales
  fix t t' pid prog
  assume "ft_invar t"
  show "ft_put t pid prog = Some t' \<Longrightarrow> ft_program t' = (ft_program t)(pid \<mapsto> prog)"
    by (auto simp: ft_put_def ft_install_lookup split: prod.splits if_splits)
  show "ft_put t pid prog = Some t' \<Longrightarrow> ft_invar t'"
    using \<open>ft_invar t\<close> by (auto simp: ft_put_def intro: ft_install_invar split: prod.splits if_splits)
  show "ft_program (ft_remove t pid) = (ft_program t)(pid := None)"
    using \<open>ft_invar t\<close>
    by (auto simp: ft_invar_def ft_program_def ft_for_pid_slots ft_remove_def slots_clear fun_eq_iff)
  show "ft_invar (ft_remove t pid)"
    using \<open>ft_invar t\<close> by (auto simp: ft_invar_def ft_remove_def intro: order_trans [OF count_clear])
qed

lemma ft_invar_new: "ft_invar ft_new"
  by (simp add: ft_invar_def ft_new_def)

lemma check_program:
  "check pf t pid sc args =
     (case ft_program t pid of None \<Rightarrow> Done Allow
      | Some prog \<Rightarrow> obind (vm_run pf prog \<lparr>sd_nr = ucast sc, sd_arch = 0xc000003e,
           sd_instruction_pointer = 0, sd_args = args\<rparr>) (\<lambda>ret. Done (decision_of ret)))"
  by (simp add: check_def ft_program_def split: option.splits)

section \<open>Properties\<close>

text \<open>
  C5: the compiled allow-list decides exactly its list. On every input the interpreter returns
  \<open>RET_ALLOW\<close> for a listed syscall number and the default action for any other, as long as
  the list fits the interpreter's 4096 steps; entries past the 4094th cannot be reached and
  an over-long list fails closed (\<open>RET_KILL_PROCESS\<close>).
\<close>

theorem allowlist_run:
  "vm_run pf (build_allowlist allowed dflt) d
   = Done (if sd_nr d \<in> set (take 4094 allowed) then RET_ALLOW
           else if length allowed \<le> 4094 then dflt else RET_KILL_PROCESS)"
  by (rule vm_run_allowlist_raw)

text \<open>
  The syscall gate end to end. Installing an allow-list for a process makes the decision
  on its syscalls exactly the list's, and leaves the decision for every other process as it
  was.
\<close>

theorem allowlist_gate:
  assumes "ft_invar t" and "ft_install t pid (build_allowlist allowed dflt) = (True, t')"
    and "length allowed \<le> 4094"
  shows "check pf t' pid sc args = Done (if ucast sc \<in> set allowed then Allow else decision_of dflt)
    \<and> (\<forall>pid'. pid' \<noteq> pid \<longrightarrow> check pf t' pid' sc args = check pf t pid' sc args)"
proof -
  from assms(2) have put: "ft_put t pid (build_allowlist allowed dflt) = Some t'"
    by (simp add: ft_put_def)
  note own = filters.read_after_write [OF assms(1) put]
    and other = filters.write_frame [OF assms(1) put]
  have "decision_of RET_ALLOW = Allow" by (simp add: decision_of_def)
  then show ?thesis
    using assms(3) by (auto simp: check_program own other vm_run_allowlist_raw)
qed

theorem allowlist_gate_witness:
  "check Dev (snd (ft_install ft_new 7 (build_allowlist [0, 1, 60] (RET_ERRNO OR 13)))) 7 2 [0, 0, 0, 0, 0, 0]
   = Done (Errno 13)"
proof -
  let ?prog = "build_allowlist [0, 1, 60] (RET_ERRNO OR 13)"
  have inst: "ft_install ft_new 7 ?prog = (True, snd (ft_install ft_new 7 ?prog))"
    by (simp add: ft_install_def ft_new_def MAX_FILTERS_def)
  have "decision_of (RET_ERRNO OR 13) = Errno 13" by (simp add: decision_of_def)
  then show ?thesis
    using allowlist_gate [OF ft_invar_new inst, of Dev 2 "[0, 0, 0, 0, 0, 0]"] by simp
qed



text \<open>
  A filter can panic the kernel. An absolute load at one of the four largest offsets
  overflows \<open>off + 4\<close>, which panics in the dev profile and, in the release profile, passes
  the range check and indexes the 64-byte image out of range; it is the only way a load
  panics.
\<close>

theorem load_word_panic:
  assumes "length (sd_args d) = 6"
  shows "load_word pf d off = Panic \<longleftrightarrow> off \<ge> 0xfffffffc"
  using load_word_panics_iff [OF assms, of pf off] unsigned_less [of off]
  by (auto simp: word_le_nat_alt)

theorem load_word_panic_witness:
  "load_word Release \<lparr>sd_nr = 1, sd_arch = 0, sd_instruction_pointer = 0, sd_args = [0, 0, 0, 0, 0, 0]\<rparr>
     0xfffffffe = Panic"
  using load_word_panic [of "\<lparr>sd_nr = 1, sd_arch = 0, sd_instruction_pointer = 0, sd_args = [0, 0, 0, 0, 0, 0]\<rparr>"
      Release "0xfffffffe"] by simp

text \<open>
  C5: \<open>RET A\<close> is never honoured. A return instruction yields \<open>X\<close> or the immediate \<open>k\<close>; the
  branch for the accumulator tests \<open>mode(code) == 0x10\<close>, a value the mask \<open>0xe0\<close> excludes.
\<close>

theorem ret_never_accumulator:
  "step_ret ins v = VmRet (if insn_src (bi_code ins) = BPF_X then vm_x v else bi_k ins)"
proof -
  have "\<not> bit (insn_mode (bi_code ins)) 4" by (simp add: insn_mode_def bit_simps)
  moreover have "bit (0x10 :: u16) 4" by simp
  ultimately have "insn_mode (bi_code ins) \<noteq> 0x10" by metis
  then show ?thesis by (simp add: step_ret_def)
qed

end
