(* ===== verification/Flock.thy ===== *)
theory Flock
  imports Prelude
begin

text \<open>
  Advisory locks (\<^verbatim>\<open>src/flock.rs\<close>): whole-file locks (\<open>LockTable\<close>, \<open>flock\<close>) and byte-range locks
  (\<open>ByteLockTable\<close>). Both tables are lock managers: they admit a lock only if it is compatible
  with those held and otherwise leave the table alone. That contract is a locale with the safety
  argument proved once; the two tables are its interpretations.
\<close>

section \<open>The contract of a lock manager\<close>

datatype ('k, 'l, 'r) lock_op = Acquire 'k 'l | Release 'k 'r

fun lock_run :: "('s \<Rightarrow> 'k \<Rightarrow> 'l \<Rightarrow> bool \<times> 's) \<Rightarrow> ('s \<Rightarrow> 'k \<Rightarrow> 'r \<Rightarrow> 's) \<Rightarrow> ('k, 'l, 'r) lock_op list \<Rightarrow> 's \<Rightarrow> 's" where
  "lock_run acq rel [] s = s"
| "lock_run acq rel (Acquire k l # ops) s = lock_run acq rel ops (snd (acq s k l))"
| "lock_run acq rel (Release k r # ops) s = lock_run acq rel ops (rel s k r)"

locale lock_manager =
  fixes held :: "'s \<Rightarrow> 'k \<Rightarrow> 'l list"
    and acq :: "'s \<Rightarrow> 'k \<Rightarrow> 'l \<Rightarrow> bool \<times> 's"
    and rel :: "'s \<Rightarrow> 'k \<Rightarrow> 'r \<Rightarrow> 's"
    and compat :: "'l \<Rightarrow> 'l \<Rightarrow> bool"
  assumes compat_refl: "compat l l"
    and compat_sym: "compat l m \<Longrightarrow> compat m l"
    and acq_granted: "acq s k l = (True, s') \<Longrightarrow> m \<in> set (held s' k) \<Longrightarrow> m = l \<or> m \<in> set (held s k) \<and> compat m l"
    and acq_denied: "acq s k l = (False, s') \<Longrightarrow> held s' = held s"
    and acq_frame: "acq s k l = (b, s') \<Longrightarrow> j \<noteq> k \<Longrightarrow> held s' j = held s j"
    and rel_subset: "set (held (rel s k r) j) \<subseteq> set (held s j)"
begin

definition compatible :: "'s \<Rightarrow> bool" where
  "compatible s \<longleftrightarrow> (\<forall>k. \<forall>l \<in> set (held s k). \<forall>m \<in> set (held s k). compat l m)"

lemma acq_compatible:
  assumes "compatible s"
  shows "compatible (snd (acq s k l))"
proof (cases "acq s k l")
  case (Pair b s')
  show ?thesis
  proof (cases b)
    case True
    have "compat x y" if "x \<in> set (held s' j)" "y \<in> set (held s' j)" for j x y
    proof (cases "j = k")
      case True
      with that acq_granted [of s k l s'] Pair \<open>b\<close> assms show ?thesis
        unfolding compatible_def by (metis (full_types) compat_refl compat_sym)
    next
      case False
      with that acq_frame [OF Pair] assms show ?thesis by (simp add: compatible_def)
    qed
    with Pair show ?thesis by (simp add: compatible_def)
  next
    case False
    with acq_denied [of s k l s'] Pair assms show ?thesis by (simp add: compatible_def)
  qed
qed

lemma rel_compatible: "compatible s \<Longrightarrow> compatible (rel s k r)"
  using rel_subset by (auto simp: compatible_def) blast

lemma run_compatible: "compatible s \<Longrightarrow> compatible (lock_run acq rel ops s)"
proof (induction ops arbitrary: s)
  case (Cons op ops)
  then show ?case by (cases op) (simp_all add: acq_compatible rel_compatible)
qed simp

end

section \<open>Whole-file locks\<close>

abbreviation LOCK_SH :: u32 where "LOCK_SH \<equiv> 1"
abbreviation LOCK_EX :: u32 where "LOCK_EX \<equiv> 2"
abbreviation LOCK_NB :: u32 where "LOCK_NB \<equiv> 4"
abbreviation LOCK_UN :: u32 where "LOCK_UN \<equiv> 8"

datatype lock_kind = Shared | Exclusive

record lock_holder =
  lh_owner :: nat
  lh_kind :: lock_kind

record lock_table =
  lt_locks :: "string \<rightharpoonup> lock_holder list"

definition lt_new :: lock_table where "lt_new = \<lparr>lt_locks = (\<lambda>_. None)\<rparr>"

definition would_conflict :: "lock_holder list \<Rightarrow> nat \<Rightarrow> lock_kind \<Rightarrow> bool" where
  "would_conflict holders owner kind =
     (case kind of
        Shared \<Rightarrow> list_ex (\<lambda>h. lh_owner h \<noteq> owner \<and> lh_kind h = Exclusive) holders
      | Exclusive \<Rightarrow> list_ex (\<lambda>h. lh_owner h \<noteq> owner) holders)"

definition lt_holders :: "lock_table \<Rightarrow> string \<Rightarrow> lock_holder list" where
  "lt_holders t path = (case lt_locks t path of None \<Rightarrow> [] | Some hs \<Rightarrow> hs)"

text \<open>\<open>entry(path).or_default()\<close> creates the entry before the conflict test.\<close>

definition lt_try_lock :: "lock_table \<Rightarrow> string \<Rightarrow> nat \<Rightarrow> lock_kind \<Rightarrow> (string + unit) \<times> lock_table" where
  "lt_try_lock t path owner kind =
     (let entry = lt_holders t path; t1 = t\<lparr>lt_locks := (lt_locks t)(path \<mapsto> entry)\<rparr> in
      if would_conflict entry owner kind then (Inl ''would block'', t1)
      else
        let entry' = (if find (\<lambda>h. lh_owner h = owner) entry \<noteq> None
                      then update_first (\<lambda>h. lh_owner h = owner) (\<lambda>h. h\<lparr>lh_kind := kind\<rparr>) entry
                      else entry @ [\<lparr>lh_owner = owner, lh_kind = kind\<rparr>])
        in (Inr (), t1\<lparr>lt_locks := (lt_locks t1)(path \<mapsto> entry')\<rparr>))"

definition lt_unlock :: "lock_table \<Rightarrow> string \<Rightarrow> nat \<Rightarrow> bool \<times> lock_table" where
  "lt_unlock t path owner =
     (case lt_locks t path of
        None \<Rightarrow> (False, t)
      | Some holders \<Rightarrow>
          let hs = filter (\<lambda>h. lh_owner h \<noteq> owner) holders in
          (length hs \<noteq> length holders, t\<lparr>lt_locks := (lt_locks t)(path := (if hs = [] then None else Some hs))\<rparr>))"

definition flock :: "string \<Rightarrow> nat \<Rightarrow> u32 \<Rightarrow> lock_table \<Rightarrow> (string + unit) \<times> lock_table" where
  "flock path owner op t =
     (if op AND LOCK_UN \<noteq> 0 then (Inr (), snd (lt_unlock t path owner))
      else if op AND LOCK_EX \<noteq> 0 then lt_try_lock t path owner Exclusive
      else if op AND LOCK_SH \<noteq> 0 then lt_try_lock t path owner Shared
      else (Inl ''invalid op'', t))"

section \<open>Byte-range locks\<close>

record byte_lock =
  bl_owner :: nat
  bl_start :: u64
  bl_len :: u64
  bl_kind :: lock_kind

record byte_lock_table =
  by_path :: "string \<rightharpoonup> byte_lock list"

definition blt_new :: byte_lock_table where "blt_new = \<lparr>by_path = (\<lambda>_. None)\<rparr>"

definition range_end :: "u64 \<Rightarrow> u64 \<Rightarrow> u64" where
  "range_end start len = (if len = 0 then - 1 else saturating_add start len)"

definition ranges_overlap :: "u64 \<Rightarrow> u64 \<Rightarrow> u64 \<Rightarrow> u64 \<Rightarrow> bool" where
  "ranges_overlap a_start a_len b_start b_len \<longleftrightarrow>
     a_start < range_end b_start b_len \<and> b_start < range_end a_start a_len"

definition blt_held :: "byte_lock_table \<Rightarrow> string \<Rightarrow> byte_lock list" where
  "blt_held t path = (case by_path t path of None \<Rightarrow> [] | Some ls \<Rightarrow> ls)"

definition bl_conflict :: "byte_lock \<Rightarrow> byte_lock \<Rightarrow> bool" where
  "bl_conflict existing lock \<longleftrightarrow>
     bl_owner existing \<noteq> bl_owner lock
     \<and> ranges_overlap (bl_start existing) (bl_len existing) (bl_start lock) (bl_len lock)
     \<and> (bl_kind existing = Exclusive \<or> bl_kind lock = Exclusive)"

definition blt_try_lock :: "byte_lock_table \<Rightarrow> string \<Rightarrow> byte_lock \<Rightarrow> (string + unit) \<times> byte_lock_table" where
  "blt_try_lock t path lock =
     (let entry = blt_held t path; t1 = t\<lparr>by_path := (by_path t)(path \<mapsto> entry)\<rparr> in
      if list_ex (\<lambda>existing. bl_conflict existing lock) entry
      then (Inl ''would block (byte-range conflict)'', t1)
      else (Inr (), t1\<lparr>by_path := (by_path t1)(path \<mapsto> entry @ [lock])\<rparr>))"

definition blt_unlock :: "byte_lock_table \<Rightarrow> string \<Rightarrow> nat \<Rightarrow> u64 \<Rightarrow> u64 \<Rightarrow> nat \<times> byte_lock_table" where
  "blt_unlock t path owner start len =
     (case by_path t path of
        None \<Rightarrow> (0, t)
      | Some entry \<Rightarrow>
          let ls = filter (\<lambda>l. \<not> (bl_owner l = owner \<and> bl_start l = start \<and> bl_len l = len)) entry in
          (length entry - length ls, t\<lparr>by_path := (by_path t)(path := (if ls = [] then None else Some ls))\<rparr>))"

section \<open>Whole-file locks are a lock manager\<close>

definition lh_compat :: "lock_holder \<Rightarrow> lock_holder \<Rightarrow> bool" where
  "lh_compat h k \<longleftrightarrow> lh_owner h = lh_owner k \<or> lh_kind h = Shared \<and> lh_kind k = Shared"

definition lt_acquire :: "lock_table \<Rightarrow> string \<Rightarrow> lock_holder \<Rightarrow> bool \<times> lock_table" where
  "lt_acquire t path h = map_prod (\<lambda>r. r = Inr ()) id (lt_try_lock t path (lh_owner h) (lh_kind h))"

definition lt_release :: "lock_table \<Rightarrow> string \<Rightarrow> nat \<Rightarrow> lock_table" where
  "lt_release t path owner = snd (lt_unlock t path owner)"

lemma lt_holders_upd [simp]:
  "lt_holders (t\<lparr>lt_locks := (lt_locks t)(path \<mapsto> hs)\<rparr>) p = (if p = path then hs else lt_holders t p)"
  by (simp add: lt_holders_def)

text \<open>What the two routines do to the holders of a path.\<close>

definition granted :: "lock_holder list \<Rightarrow> nat \<Rightarrow> lock_kind \<Rightarrow> lock_holder list" where
  "granted hs owner kind =
     (if find (\<lambda>h. lh_owner h = owner) hs \<noteq> None
      then update_first (\<lambda>h. lh_owner h = owner) (\<lambda>h. h\<lparr>lh_kind := kind\<rparr>) hs
      else hs @ [\<lparr>lh_owner = owner, lh_kind = kind\<rparr>])"

lemma lt_try_lock_holders:
  "lt_holders (snd (lt_try_lock t path owner kind)) p =
     (if p = path \<and> \<not> would_conflict (lt_holders t path) owner kind
      then granted (lt_holders t path) owner kind else lt_holders t p)"
  by (auto simp: lt_try_lock_def Let_def granted_def lt_holders_def)

lemma lt_try_lock_result:
  "fst (lt_try_lock t path owner kind) = Inr () \<longleftrightarrow> \<not> would_conflict (lt_holders t path) owner kind"
  by (simp add: lt_try_lock_def Let_def)

lemma lt_unlock_holders:
  "lt_holders (snd (lt_unlock t path owner)) p =
     (if p = path then filter (\<lambda>h. lh_owner h \<noteq> owner) (lt_holders t path) else lt_holders t p)"
  by (auto simp: lt_unlock_def lt_holders_def Let_def split: option.split)

lemma granted_set:
  assumes "m \<in> set (granted hs owner kind)" and "\<not> would_conflict hs owner kind"
  shows "m = \<lparr>lh_owner = owner, lh_kind = kind\<rparr> \<or> m \<in> set hs \<and> lh_compat m \<lparr>lh_owner = owner, lh_kind = kind\<rparr>"
proof -
  from assms(1) have "m = \<lparr>lh_owner = owner, lh_kind = kind\<rparr> \<or> m \<in> set hs"
    by (auto simp: granted_def split: if_splits dest!: in_set_update_first)
  moreover have "lh_compat m \<lparr>lh_owner = owner, lh_kind = kind\<rparr>" if "m \<in> set hs"
    using assms(2) that
    by (cases kind; cases "lh_kind m") (auto simp: would_conflict_def lh_compat_def list_ex_iff)
  ultimately show ?thesis by blast
qed

interpretation file_locks: lock_manager lt_holders lt_acquire lt_release lh_compat
proof unfold_locales
  fix t t' path and l m :: lock_holder
  assume "lt_acquire t path l = (True, t')" and m: "m \<in> set (lt_holders t' path)"
  then have t': "t' = snd (lt_try_lock t path (lh_owner l) (lh_kind l))"
      and ok: "\<not> would_conflict (lt_holders t path) (lh_owner l) (lh_kind l)"
    using lt_try_lock_result [of t path "lh_owner l" "lh_kind l"]
    by (auto simp: lt_acquire_def map_prod_def split: prod.splits)
  from ok m have "m \<in> set (granted (lt_holders t path) (lh_owner l) (lh_kind l))"
    by (simp add: t' lt_try_lock_holders)
  from granted_set [OF this ok] show "m = l \<or> m \<in> set (lt_holders t path) \<and> lh_compat m l" by (cases l) simp
next
  fix t t' path and l :: lock_holder
  assume "lt_acquire t path l = (False, t')"
  then have t': "t' = snd (lt_try_lock t path (lh_owner l) (lh_kind l))"
      and "would_conflict (lt_holders t path) (lh_owner l) (lh_kind l)"
    using lt_try_lock_result [of t path "lh_owner l" "lh_kind l"]
    by (auto simp: lt_acquire_def map_prod_def split: prod.splits)
  then show "lt_holders t' = lt_holders t" by (simp add: fun_eq_iff t' lt_try_lock_holders)
next
  fix t t' path j b and l :: lock_holder
  assume "lt_acquire t path l = (b, t')" "j \<noteq> path"
  then show "lt_holders t' j = lt_holders t j"
    using lt_try_lock_holders [of t path "lh_owner l" "lh_kind l" j]
    by (auto simp: lt_acquire_def map_prod_def split: prod.splits)
qed (auto simp: lh_compat_def lt_release_def lt_unlock_holders)

text \<open>The tables that \<open>flock\<close> can reach from the empty one.\<close>

inductive flock_reach :: "lock_table \<Rightarrow> bool" where
  reach_new: "flock_reach lt_new"
| reach_flock: "flock_reach t \<Longrightarrow> flock_reach (snd (flock path owner op t))"

lemma flock_cases:
  "snd (flock path owner op t) = lt_release t path owner
   \<or> (\<exists>kind. snd (flock path owner op t) = snd (lt_acquire t path \<lparr>lh_owner = owner, lh_kind = kind\<rparr>))
   \<or> snd (flock path owner op t) = t"
  by (auto simp: flock_def lt_release_def lt_acquire_def)

lemma flock_compatible: "flock_reach t \<Longrightarrow> file_locks.compatible t"
proof (induction rule: flock_reach.induct)
  case reach_new
  show ?case unfolding file_locks.compatible_def by (simp add: lt_new_def lt_holders_def)
next
  case (reach_flock t path owner op)
  then show ?case
    using flock_cases [of path owner op t] file_locks.acq_compatible file_locks.rel_compatible by fastforce
qed

lemma granted_owners:
  "distinct (map lh_owner hs) \<Longrightarrow> distinct (map lh_owner (granted hs owner kind))"
  by (auto simp: granted_def map_update_first find_None_iff)

lemma flock_owners_distinct: "flock_reach t \<Longrightarrow> distinct (map lh_owner (lt_holders t p))"
proof (induction arbitrary: p rule: flock_reach.induct)
  case reach_new
  then show ?case by (simp add: lt_new_def lt_holders_def)
next
  case (reach_flock t path owner op)
  then show ?case using flock_cases [of path owner op t]
    by (auto simp: lt_release_def lt_acquire_def lt_unlock_holders lt_try_lock_holders granted_owners distinct_map_filter)
qed

section \<open>Byte-range locks are a lock manager\<close>

text \<open>The bytes a lock covers; a length of 0 reaches to the end of the file.\<close>

definition bl_covers :: "byte_lock \<Rightarrow> nat \<Rightarrow> bool" where
  "bl_covers l x \<longleftrightarrow> unat (bl_start l) \<le> x \<and> x < 2 ^ 64 \<and> (bl_len l = 0 \<or> x < unat (bl_start l) + unat (bl_len l))"

lemma unat_range_end:
  "unat (range_end s n) = (if n = 0 then 2 ^ 64 - 1 else min (unat s + unat n) (2 ^ 64 - 1))"
  by (simp add: range_end_def unat_saturating_add unat_max_word)

lemma below_range_end:
  "x < unat (range_end s n) \<longleftrightarrow> x < 2 ^ 64 - 1 \<and> (n = 0 \<or> x < unat s + unat n)"
  by (auto simp: unat_range_end)

lemma ranges_overlap_bytes:
  "ranges_overlap (bl_start l) (bl_len l) (bl_start m) (bl_len m) \<longleftrightarrow>
     (\<exists>x. bl_covers l x \<and> bl_covers m x \<and> x \<noteq> 2 ^ 64 - 1)"
proof
  assume o: "ranges_overlap (bl_start l) (bl_len l) (bl_start m) (bl_len m)"
  let ?x = "max (unat (bl_start l)) (unat (bl_start m))"
  have self: "0 < unat n" if "n \<noteq> 0" for n :: u64 using that by (simp add: unat_gt_0)
  have "unat (bl_start l) < unat (range_end (bl_start m) (bl_len m))"
    "unat (bl_start m) < unat (range_end (bl_start l) (bl_len l))"
    using o by (simp_all add: ranges_overlap_def word_less_nat_alt)
  then have "?x < 2 ^ 64 - 1" "bl_len l = 0 \<or> ?x < unat (bl_start l) + unat (bl_len l)"
    "bl_len m = 0 \<or> ?x < unat (bl_start m) + unat (bl_len m)"
    using self [of "bl_len l"] self [of "bl_len m"] unfolding below_range_end by auto
  then have "bl_covers l ?x \<and> bl_covers m ?x \<and> ?x \<noteq> 2 ^ 64 - 1" by (auto simp: bl_covers_def)
  then show "\<exists>x. bl_covers l x \<and> bl_covers m x \<and> x \<noteq> 2 ^ 64 - 1" ..
next
  assume "\<exists>x. bl_covers l x \<and> bl_covers m x \<and> x \<noteq> 2 ^ 64 - 1"
  then obtain x where x: "bl_covers l x" "bl_covers m x" "x \<noteq> 2 ^ 64 - 1" by blast
  then have "x < unat (range_end (bl_start l) (bl_len l))" "x < unat (range_end (bl_start m) (bl_len m))"
    unfolding below_range_end by (auto simp: bl_covers_def)
  with x show "ranges_overlap (bl_start l) (bl_len l) (bl_start m) (bl_len m)"
    by (auto simp: ranges_overlap_def word_less_nat_alt bl_covers_def)
qed

definition bl_compat :: "byte_lock \<Rightarrow> byte_lock \<Rightarrow> bool" where
  "bl_compat l m \<longleftrightarrow> \<not> bl_conflict l m"

definition blt_acquire :: "byte_lock_table \<Rightarrow> string \<Rightarrow> byte_lock \<Rightarrow> bool \<times> byte_lock_table" where
  "blt_acquire t path l = map_prod (\<lambda>r. r = Inr ()) id (blt_try_lock t path l)"

definition blt_release :: "byte_lock_table \<Rightarrow> string \<Rightarrow> nat \<times> u64 \<times> u64 \<Rightarrow> byte_lock_table" where
  "blt_release t path = (\<lambda>(owner, start, len). snd (blt_unlock t path owner start len))"

lemma blt_held_upd [simp]:
  "blt_held (t\<lparr>by_path := (by_path t)(path \<mapsto> ls)\<rparr>) p = (if p = path then ls else blt_held t p)"
  by (simp add: blt_held_def)

lemma blt_acquire_held:
  "blt_held (snd (blt_acquire t path l)) p =
     (if p = path \<and> fst (blt_acquire t path l) then blt_held t path @ [l] else blt_held t p)"
  by (auto simp: blt_acquire_def blt_try_lock_def Let_def blt_held_def)

lemma blt_acquire_granted:
  "fst (blt_acquire t path l) \<longleftrightarrow> (\<forall>m \<in> set (blt_held t path). bl_compat m l)"
  by (auto simp: blt_acquire_def blt_try_lock_def Let_def list_ex_iff bl_compat_def)

lemma blt_release_subset: "set (blt_held (blt_release t path r) p) \<subseteq> set (blt_held t p)"
  by (cases r) (auto simp: blt_release_def blt_unlock_def blt_held_def Let_def split: option.splits if_splits)

lemma bl_conflict_sym: "bl_conflict l m \<Longrightarrow> bl_conflict m l"
  by (auto simp: bl_conflict_def ranges_overlap_def)

interpretation range_locks: lock_manager blt_held blt_acquire blt_release bl_compat
proof unfold_locales
  fix t t' path and l m :: byte_lock
  assume "blt_acquire t path l = (True, t')" "m \<in> set (blt_held t' path)"
  then show "m = l \<or> m \<in> set (blt_held t path) \<and> bl_compat m l"
    using blt_acquire_held [of t path l path] blt_acquire_granted [of t path l] by auto
next
  fix t t' path and l :: byte_lock
  assume "blt_acquire t path l = (False, t')"
  then show "blt_held t' = blt_held t"
    using blt_acquire_held [of t path l] by (simp add: fun_eq_iff)
next
  fix t t' path j b and l :: byte_lock
  assume "blt_acquire t path l = (b, t')" "j \<noteq> path"
  then show "blt_held t' j = blt_held t j" using blt_acquire_held [of t path l j] by simp
next
  fix l m :: byte_lock
  show "bl_compat l l" by (simp add: bl_compat_def bl_conflict_def)
  show "bl_compat m l" if "bl_compat l m" using that bl_conflict_sym by (auto simp: bl_compat_def)
qed (rule blt_release_subset)

inductive blt_reach :: "byte_lock_table \<Rightarrow> bool" where
  blt_reach_new: "blt_reach blt_new"
| blt_reach_lock: "blt_reach t \<Longrightarrow> blt_reach (snd (blt_try_lock t path lock))"
| blt_reach_unlock: "blt_reach t \<Longrightarrow> blt_reach (snd (blt_unlock t path owner start len))"

lemma blt_compatible: "blt_reach t \<Longrightarrow> range_locks.compatible t"
proof (induction rule: blt_reach.induct)
  case blt_reach_new
  show ?case unfolding range_locks.compatible_def by (simp add: blt_new_def blt_held_def)
next
  case (blt_reach_lock t path lock)
  then show ?case using range_locks.acq_compatible [of t path lock] by (simp add: blt_acquire_def)
next
  case (blt_reach_unlock t path owner start len)
  then show ?case using range_locks.rel_compatible [of t path "(owner, start, len)"] by (simp add: blt_release_def)
qed

lemma distinct_mapD: "distinct (map f xs) \<Longrightarrow> distinct xs"
  by (simp add: distinct_map)

lemma distinct_singleton_set: "distinct xs \<Longrightarrow> set xs = {x} \<Longrightarrow> xs = [x]"
  by (cases xs) (auto simp: subset_singleton_iff)

section \<open>Properties\<close>

text \<open>
  C30: in every table that calls of flock can reach, whatever the paths, owners and
  operation words, an owner appears at most once per path, and a path with an exclusive holder
  has no other holder.
\<close>
theorem flock_exclusion:
  assumes "flock_reach t"
  shows "distinct (map lh_owner (lt_holders t path))
    \<and> (\<forall>h \<in> set (lt_holders t path). lh_kind h = Exclusive \<longrightarrow> lt_holders t path = [h])"
proof (intro conjI ballI impI)
  show owners: "distinct (map lh_owner (lt_holders t path))"
    using flock_owners_distinct [OF assms] .
  fix h assume h: "h \<in> set (lt_holders t path)" "lh_kind h = Exclusive"
  have same: "lh_owner g = lh_owner h" if "g \<in> set (lt_holders t path)" for g
  proof -
    have "lh_compat g h" using flock_compatible [OF assms] h(1) that unfolding file_locks.compatible_def by blast
    with h(2) show ?thesis by (simp add: lh_compat_def)
  qed
  have "inj_on lh_owner (set (lt_holders t path))" using owners by (simp add: distinct_map)
  then have "g = h" if "g \<in> set (lt_holders t path)" for g
    using inj_onD [OF _ same [OF that] that h(1)] by blast
  with h(1) have "set (lt_holders t path) = {h}" by blast
  moreover have "distinct (lt_holders t path)" using owners by (rule distinct_mapD)
  ultimately show "lt_holders t path = [h]" by (rule distinct_singleton_set [rotated])
qed

theorem flock_exclusion_witness:
  "\<exists>t. flock_reach t \<and> lt_holders t ''f'' = [\<lparr>lh_owner = 7, lh_kind = Exclusive\<rparr>]
     \<and> distinct (map lh_owner (lt_holders t ''f''))"
proof -
  let ?t = "snd (flock ''f'' 7 LOCK_EX lt_new)"
  have t: "flock_reach ?t" by (intro reach_flock reach_new)
  have "lt_holders ?t ''f'' = [\<lparr>lh_owner = 7, lh_kind = Exclusive\<rparr>]"
    by (simp add: flock_def lt_try_lock_def would_conflict_def lt_new_def lt_holders_def Let_def)
  with flock_exclusion [OF t, of "''f''"] t show ?thesis by blast
qed

text \<open>
  C29: in every table the byte-range operations can reach, two locks of different owners
  on the same path that share a byte are both shared locks; the one byte this does not protect
  is the last one of the 64-bit offset range.
\<close>
theorem byte_lock_exclusion:
  assumes "blt_reach t" and "l \<in> set (blt_held t path)" and "m \<in> set (blt_held t path)"
    and "bl_owner l \<noteq> bl_owner m" and "bl_covers l x" and "bl_covers m x" and "x \<noteq> 2 ^ 64 - 1"
  shows "bl_kind l = Shared \<and> bl_kind m = Shared"
proof -
  have "bl_compat l m"
    using blt_compatible [OF assms(1)] assms(2,3) unfolding range_locks.compatible_def by blast
  moreover have "ranges_overlap (bl_start l) (bl_len l) (bl_start m) (bl_len m)"
    using assms(5-7) ranges_overlap_bytes by blast
  ultimately show ?thesis using assms(4)
    by (cases "bl_kind l"; cases "bl_kind m") (auto simp: bl_compat_def bl_conflict_def)
qed

theorem byte_lock_exclusion_witness:
  "\<exists>t l m. blt_reach t \<and> l \<in> set (blt_held t ''f'') \<and> m \<in> set (blt_held t ''f'') \<and> bl_owner l \<noteq> bl_owner m
     \<and> bl_covers l 12 \<and> bl_covers m 12 \<and> bl_kind l = Shared \<and> bl_kind m = Shared"
proof -
  let ?l = "\<lparr>bl_owner = 3, bl_start = 0, bl_len = 0, bl_kind = Shared\<rparr>"
  let ?m = "\<lparr>bl_owner = 2, bl_start = 10, bl_len = 5, bl_kind = Shared\<rparr>"
  let ?t = "snd (blt_try_lock (snd (blt_try_lock blt_new ''f'' ?l)) ''f'' ?m)"
  have t: "blt_reach ?t" by (intro blt_reach_lock blt_reach_new)
  have held: "blt_held ?t ''f'' = [?l, ?m]"
    by (simp add: blt_try_lock_def blt_held_def blt_new_def bl_conflict_def Let_def)
  have cov: "bl_covers ?l 12" "bl_covers ?m 12" by (simp_all add: bl_covers_def)
  have "bl_kind ?l = Shared \<and> bl_kind ?m = Shared"
    by (rule byte_lock_exclusion [OF t, of _ "''f''" _ 12]) (simp_all add: held cov)
  with t held cov show ?thesis by (intro exI [of _ ?t] exI [of _ ?l] exI [of _ ?m]) simp
qed

end
