(* ===== verification/Rlimit.thy ===== *)
theory Rlimit
  imports Prelude
begin

text \<open>
  Resource limits (\<^verbatim>\<open>src/rlimit.rs\<close>): the numbering of the resources and the table of soft and
  hard limits with the update rule of \<open>setrlimit\<close>.
\<close>

section \<open>Resources\<close>

definition RLIM_INFINITY :: u64 where "RLIM_INFINITY = - 1"

datatype resource = Cpu | Fsize | Data | Stack | Core | Rss | Nproc | NoFile | Memlock | As
  | Locks | Sigpending | Msgqueue | Nice | Rtprio

definition resource_as_u32 :: "resource \<Rightarrow> u32" where
  "resource_as_u32 r = (case r of
     Cpu \<Rightarrow> 0 | Fsize \<Rightarrow> 1 | Data \<Rightarrow> 2 | Stack \<Rightarrow> 3 | Core \<Rightarrow> 4 | Rss \<Rightarrow> 5 | Nproc \<Rightarrow> 6 | NoFile \<Rightarrow> 7
   | Memlock \<Rightarrow> 8 | As \<Rightarrow> 9 | Locks \<Rightarrow> 10 | Sigpending \<Rightarrow> 11 | Msgqueue \<Rightarrow> 12 | Nice \<Rightarrow> 13 | Rtprio \<Rightarrow> 14)"

definition resource_from_u32 :: "u32 \<Rightarrow> resource option" where
  "resource_from_u32 n =
     (if n = 0 then Some Cpu else if n = 1 then Some Fsize else if n = 2 then Some Data
      else if n = 3 then Some Stack else if n = 4 then Some Core else if n = 5 then Some Rss
      else if n = 6 then Some Nproc else if n = 7 then Some NoFile else if n = 8 then Some Memlock
      else if n = 9 then Some As else if n = 10 then Some Locks else if n = 11 then Some Sigpending
      else if n = 12 then Some Msgqueue else if n = 13 then Some Nice else if n = 14 then Some Rtprio
      else None)"

definition resource_as_str :: "resource \<Rightarrow> string" where
  "resource_as_str r = (case r of
     Cpu \<Rightarrow> ''cpu'' | Fsize \<Rightarrow> ''fsize'' | Data \<Rightarrow> ''data'' | Stack \<Rightarrow> ''stack'' | Core \<Rightarrow> ''core''
   | Rss \<Rightarrow> ''rss'' | Nproc \<Rightarrow> ''nproc'' | NoFile \<Rightarrow> ''nofile'' | Memlock \<Rightarrow> ''memlock'' | As \<Rightarrow> ''as''
   | Locks \<Rightarrow> ''locks'' | Sigpending \<Rightarrow> ''sigpending'' | Msgqueue \<Rightarrow> ''msgqueue'' | Nice \<Rightarrow> ''nice''
   | Rtprio \<Rightarrow> ''rtprio'')"

section \<open>The limits table\<close>

record rlimit =
  rl_soft :: u64
  rl_hard :: u64

record limits_table =
  by_resource :: "u32 \<rightharpoonup> rlimit"

definition limits_new :: limits_table where "limits_new = \<lparr>by_resource = (\<lambda>_. None)\<rparr>"

definition limit_insert :: "resource \<Rightarrow> u64 \<Rightarrow> u64 \<Rightarrow> limits_table \<Rightarrow> limits_table" where
  "limit_insert r soft hard t =
     t\<lparr>by_resource := (by_resource t)(resource_as_u32 r \<mapsto> \<lparr>rl_soft = soft, rl_hard = hard\<rparr>)\<rparr>"

definition default_limits :: "(resource \<times> u64 \<times> u64) list" where
  "default_limits =
     [(Cpu, RLIM_INFINITY, RLIM_INFINITY), (Fsize, RLIM_INFINITY, RLIM_INFINITY),
      (Data, RLIM_INFINITY, RLIM_INFINITY), (Stack, 8 * 1024 * 1024, RLIM_INFINITY),
      (Core, 0, RLIM_INFINITY), (Rss, RLIM_INFINITY, RLIM_INFINITY), (Nproc, 256, 1024),
      (NoFile, 1024, 4096), (Memlock, 64 * 1024, 64 * 1024), (As, RLIM_INFINITY, RLIM_INFINITY),
      (Locks, RLIM_INFINITY, RLIM_INFINITY), (Sigpending, 1024, 1024), (Msgqueue, 819200, 819200),
      (Nice, 0, 0), (Rtprio, 0, 0)]"

definition limits_install_defaults :: "limits_table \<Rightarrow> limits_table" where
  "limits_install_defaults t = fold (\<lambda>(r, soft, hard). limit_insert r soft hard) default_limits t"

definition limits_get :: "limits_table \<Rightarrow> resource \<Rightarrow> rlimit" where
  "limits_get t r =
     (case by_resource t (resource_as_u32 r) of
        Some l \<Rightarrow> l | None \<Rightarrow> \<lparr>rl_soft = RLIM_INFINITY, rl_hard = RLIM_INFINITY\<rparr>)"

definition limits_set :: "limits_table \<Rightarrow> resource \<Rightarrow> rlimit \<Rightarrow> bool \<Rightarrow> (string + unit) \<times> limits_table" where
  "limits_set t r new is_root =
     (if \<not> is_root \<and> rl_hard (limits_get t r) < rl_hard new then (Inl ''permission denied'', t)
      else if rl_hard new < rl_soft new then (Inl ''invalid argument (soft > hard)'', t)
      else (Inr (), t\<lparr>by_resource := (by_resource t)(resource_as_u32 r \<mapsto> new)\<rparr>))"

section \<open>Lookup after update\<close>

lemma resource_from_as [simp]: "resource_from_u32 (resource_as_u32 r) = Some r"
  by (cases r) (simp_all add: resource_as_u32_def resource_from_u32_def)

lemma resource_as_u32_inj [simp]: "resource_as_u32 r = resource_as_u32 q \<longleftrightarrow> r = q"
  by (metis resource_from_as option.inject)

lemma limits_get_set:
  "limits_get (snd (limits_set t r new is_root)) q =
     (if fst (limits_set t r new is_root) = Inr () \<and> q = r then new else limits_get t q)"
  by (simp add: limits_set_def limits_get_def)

definition limits_invar :: "limits_table \<Rightarrow> bool" where
  "limits_invar t \<longleftrightarrow> (\<forall>r. rl_soft (limits_get t r) \<le> rl_hard (limits_get t r))"

lemma limits_set_invar: "limits_invar t \<Longrightarrow> limits_invar (snd (limits_set t r new is_root))"
  unfolding limits_invar_def limits_get_set by (auto simp: limits_set_def)

lemma limits_set_hard:
  "rl_hard (limits_get (snd (limits_set t r new False)) q) \<le> rl_hard (limits_get t q)"
  unfolding limits_get_set by (auto simp: limits_set_def)

text \<open>Any sequence of \<open>setrlimit\<close> calls, each with the privilege of its caller.\<close>

definition limits_run :: "(resource \<times> rlimit \<times> bool) list \<Rightarrow> limits_table \<Rightarrow> limits_table" where
  "limits_run calls t = fold (\<lambda>(r, new, is_root) u. snd (limits_set u r new is_root)) calls t"

lemma limits_run_simps [simp]:
  "limits_run [] t = t"
  "limits_run ((r, new, is_root) # calls) t = limits_run calls (snd (limits_set t r new is_root))"
  by (simp_all add: limits_run_def)

lemma limits_get_insert: "limits_get (limit_insert r s h t) q = (if q = r then \<lparr>rl_soft = s, rl_hard = h\<rparr> else limits_get t q)"
  by (simp add: limits_get_def limit_insert_def)

lemma install_defaults_invar: "limits_invar (limits_install_defaults t)"
proof -
  have "rl_soft (limits_get (limits_install_defaults t) r) \<le> rl_hard (limits_get (limits_install_defaults t) r)" for r
    by (cases r) (simp_all add: limits_install_defaults_def default_limits_def limits_get_insert RLIM_INFINITY_def)
  then show ?thesis by (simp add: limits_invar_def)
qed

section \<open>Properties\<close>

text \<open>
  C37: after boot, whatever sequence of setrlimit calls is made by any mix of privileged
  and unprivileged callers, every soft limit stays at or below its hard limit.
\<close>
theorem rlimit_soft_below_hard:
  "rl_soft (limits_get (limits_run calls (limits_install_defaults t)) r)
   \<le> rl_hard (limits_get (limits_run calls (limits_install_defaults t)) r)"
proof -
  have "limits_invar u \<Longrightarrow> limits_invar (limits_run calls u)" for u
    by (induction calls arbitrary: u) (auto simp: limits_set_invar)
  with install_defaults_invar [of t] show ?thesis by (auto simp: limits_invar_def)
qed

text \<open>
  No sequence of setrlimit calls by unprivileged callers raises the hard limit of
  any resource.
\<close>
theorem rlimit_hard_never_raised:
  assumes "\<forall>(r, new, is_root) \<in> set calls. \<not> is_root"
  shows "rl_hard (limits_get (limits_run calls t) r) \<le> rl_hard (limits_get t r)"
  using assms
proof (induction calls arbitrary: t)
  case (Cons c calls)
  obtain q new is_root where c: "c = (q, new, is_root)" by (cases c)
  with Cons.prems have user: "\<not> is_root" and rest: "\<forall>(r, new, is_root) \<in> set calls. \<not> is_root" by auto
  have "rl_hard (limits_get (limits_run (c # calls) t) r) \<le> rl_hard (limits_get (snd (limits_set t q new False)) r)"
    using Cons.IH [OF rest] user c by simp
  also have "\<dots> \<le> rl_hard (limits_get t r)" by (rule limits_set_hard)
  finally show ?case .
qed simp

theorem rlimit_hard_never_raised_witness:
  "rl_hard (limits_get (limits_run [(NoFile, \<lparr>rl_soft = 10, rl_hard = 20\<rparr>, False), (NoFile, \<lparr>rl_soft = 10, rl_hard = 30\<rparr>, False)]
     (limits_install_defaults limits_new)) NoFile) = 20
   \<and> (20::u64) \<le> rl_hard (limits_get (limits_install_defaults limits_new) NoFile)"
proof -
  let ?calls = "[(NoFile, \<lparr>rl_soft = 10, rl_hard = 20\<rparr>, False), (NoFile, \<lparr>rl_soft = 10, rl_hard = 30\<rparr>, False)]"
  have "limits_get (limits_install_defaults limits_new) NoFile = \<lparr>rl_soft = 1024, rl_hard = 4096\<rparr>"
    by (simp add: limits_install_defaults_def default_limits_def limits_get_insert)
  then have "rl_hard (limits_get (limits_run ?calls (limits_install_defaults limits_new)) NoFile) = 20"
    by (simp add: limits_get_set) (simp add: limits_set_def limits_get_set limits_get_def resource_as_u32_def)
  with rlimit_hard_never_raised [of ?calls "limits_install_defaults limits_new" NoFile] show ?thesis by simp
qed

end
