(* ===== verification/Sha256.thy ===== *)
theory Sha256
  imports Prelude
begin

text \<open>
  SHA-256 (\<^verbatim>\<open>src/sha256.rs\<close>): the compression function, the streaming hasher with its 64-byte
  buffer, and the helpers \<open>hash\<close>, \<open>hex\<close> and \<open>constant_time_eq\<close>. The reference definition is
  the one of FIPS 180-4: pad the whole message, cut it into blocks, fold the compression
  function over them.
\<close>

section \<open>The compression function\<close>

definition K :: "u32 list" where
  "K = concat [
    [0x428a2f98, 0x71374491, 0xb5c0fbcf, 0xe9b5dba5, 0x3956c25b, 0x59f111f1],
    [0x923f82a4, 0xab1c5ed5, 0xd807aa98, 0x12835b01, 0x243185be, 0x550c7dc3],
    [0x72be5d74, 0x80deb1fe, 0x9bdc06a7, 0xc19bf174, 0xe49b69c1, 0xefbe4786],
    [0x0fc19dc6, 0x240ca1cc, 0x2de92c6f, 0x4a7484aa, 0x5cb0a9dc, 0x76f988da],
    [0x983e5152, 0xa831c66d, 0xb00327c8, 0xbf597fc7, 0xc6e00bf3, 0xd5a79147],
    [0x06ca6351, 0x14292967, 0x27b70a85, 0x2e1b2138, 0x4d2c6dfc, 0x53380d13],
    [0x650a7354, 0x766a0abb, 0x81c2c92e, 0x92722c85, 0xa2bfe8a1, 0xa81a664b],
    [0xc24b8b70, 0xc76c51a3, 0xd192e819, 0xd6990624, 0xf40e3585, 0x106aa070],
    [0x19a4c116, 0x1e376c08, 0x2748774c, 0x34b0bcb5, 0x391c0cb3, 0x4ed8aa4a],
    [0x5b9cca4f, 0x682e6ff3, 0x748f82ee, 0x78a5636f, 0x84c87814, 0x8cc70208],
    [0x90befffa, 0xa4506ceb, 0xbef9a3f7, 0xc67178f2]]"

definition H0 :: "u32 list" where
  "H0 = concat [
    [0x6a09e667, 0xbb67ae85, 0x3c6ef372, 0xa54ff53a],
    [0x510e527f, 0x9b05688c, 0x1f83d9ab, 0x5be0cd19]]"

definition rotr :: "u32 \<Rightarrow> nat \<Rightarrow> u32" where "rotr x n = word_rotr n x"
definition ch :: "u32 \<Rightarrow> u32 \<Rightarrow> u32 \<Rightarrow> u32" where "ch x y z = (x AND y) XOR (NOT x AND z)"
definition maj :: "u32 \<Rightarrow> u32 \<Rightarrow> u32 \<Rightarrow> u32" where "maj x y z = (x AND y) XOR (x AND z) XOR (y AND z)"
definition big_sigma0 :: "u32 \<Rightarrow> u32" where "big_sigma0 x = rotr x 2 XOR rotr x 13 XOR rotr x 22"
definition big_sigma1 :: "u32 \<Rightarrow> u32" where "big_sigma1 x = rotr x 6 XOR rotr x 11 XOR rotr x 25"
definition small_sigma0 :: "u32 \<Rightarrow> u32" where "small_sigma0 x = rotr x 7 XOR rotr x 18 XOR drop_bit 3 x"
definition small_sigma1 :: "u32 \<Rightarrow> u32" where "small_sigma1 x = rotr x 17 XOR rotr x 19 XOR drop_bit 10 x"

definition from_be_bytes :: "u8 \<Rightarrow> u8 \<Rightarrow> u8 \<Rightarrow> u8 \<Rightarrow> u32" where
  "from_be_bytes b0 b1 b2 b3 =
     push_bit 24 (ucast b0) OR push_bit 16 (ucast b1) OR push_bit 8 (ucast b2) OR ucast b3"

definition schedule :: "u8 list \<Rightarrow> u32 list" where
  "schedule block =
     (let w0 = replicate 64 0;
          w1 = foldl (\<lambda>w i. w[i := from_be_bytes (block ! (i * 4)) (block ! (i * 4 + 1))
                                     (block ! (i * 4 + 2)) (block ! (i * 4 + 3))]) w0 [0..<16]
      in foldl (\<lambda>w i. w[i := small_sigma1 (w ! (i - 2)) + w ! (i - 7) + small_sigma0 (w ! (i - 15)) + w ! (i - 16)])
           w1 [16..<64])"

type_synonym working = "u32 \<times> u32 \<times> u32 \<times> u32 \<times> u32 \<times> u32 \<times> u32 \<times> u32"

definition sha_round :: "u32 list \<Rightarrow> working \<Rightarrow> nat \<Rightarrow> working" where
  "sha_round w = (\<lambda>(a, b, c, d, e, f, g, h) i.
     let t1 = h + big_sigma1 e + ch e f g + K ! i + w ! i;
         t2 = big_sigma0 a + maj a b c
     in (t1 + t2, a, b, c, d + t1, e, f, g))"

definition compress :: "u32 list \<Rightarrow> u8 list \<Rightarrow> u32 list" where
  "compress h0 block =
     (let w = schedule block in
      case foldl (sha_round w) (h0 ! 0, h0 ! 1, h0 ! 2, h0 ! 3, h0 ! 4, h0 ! 5, h0 ! 6, h0 ! 7) [0..<64] of
        (a, b, c, d, e, f, g, h) \<Rightarrow>
          [h0 ! 0 + a, h0 ! 1 + b, h0 ! 2 + c, h0 ! 3 + d, h0 ! 4 + e, h0 ! 5 + f, h0 ! 6 + g, h0 ! 7 + h])"

section \<open>The streaming hasher\<close>

record sha256 =
  sh_h :: "u32 list"
  sh_buf :: "u8 list"
  sh_buf_len :: nat
  sh_total_bits :: u64

definition sha_new :: sha256 where
  "sha_new = \<lparr>sh_h = H0, sh_buf = replicate 64 0, sh_buf_len = 0, sh_total_bits = 0\<rparr>"

text \<open>\<open>buf[off..off + len].copy_from_slice(xs)\<close>.\<close>

definition copy_into :: "'a list \<Rightarrow> nat \<Rightarrow> 'a list \<Rightarrow> 'a list" where
  "copy_into buf off xs = take off buf @ xs @ drop (off + length xs) buf"

function whole_blocks :: "u32 list \<Rightarrow> u8 list \<Rightarrow> u32 list \<times> u8 list" where
  "whole_blocks h data =
     (if 64 \<le> length data then whole_blocks (compress h (take 64 data)) (drop 64 data) else (h, data))"
  by auto
termination
  by (relation "measure (\<lambda>(_, data). length data)") auto

declare whole_blocks.simps [simp del]

definition sha_fill :: "sha256 \<Rightarrow> u8 list \<Rightarrow> sha256 \<times> u8 list" where
  "sha_fill s data =
     (if 0 < sh_buf_len s then
        let need = 64 - sh_buf_len s;
            n = min (length data) need;
            s1 = s\<lparr>sh_buf := copy_into (sh_buf s) (sh_buf_len s) (take n data), sh_buf_len := sh_buf_len s + n\<rparr>;
            s2 = (if sh_buf_len s1 = 64
                  then s1\<lparr>sh_h := compress (sh_h s1) (sh_buf s1), sh_buf_len := 0\<rparr> else s1)
        in (s2, drop n data)
      else (s, data))"

definition sha_update :: "sha256 \<Rightarrow> u8 list \<Rightarrow> sha256" where
  "sha_update s data =
     (let s0 = s\<lparr>sh_total_bits := sh_total_bits s + of_nat (length data) * 8\<rparr>;
          (s1, data1) = sha_fill s0 data;
          (h2, data2) = whole_blocks (sh_h s1) data1;
          s2 = s1\<lparr>sh_h := h2\<rparr>
      in if data2 \<noteq> [] then s2\<lparr>sh_buf := copy_into (sh_buf s2) 0 data2, sh_buf_len := length data2\<rparr> else s2)"

definition be_bytes32 :: "u32 \<Rightarrow> u8 list" where
  "be_bytes32 w = map (\<lambda>i. ucast (drop_bit (24 - 8 * i) w)) [0..<4]"

definition be_bytes64 :: "u64 \<Rightarrow> u8 list" where
  "be_bytes64 w = map (\<lambda>i. ucast (drop_bit (56 - 8 * i) w)) [0..<8]"

definition digest_bytes :: "u32 list \<Rightarrow> u8 list" where
  "digest_bytes h = concat (map (\<lambda>i. be_bytes32 (h ! i)) [0..<8])"

definition sha_finalize :: "sha256 \<Rightarrow> u8 list" where
  "sha_finalize s =
     (let used = sh_buf_len s;
          tail0 = copy_into (replicate 128 0) 0 (take used (sh_buf s));
          tail1 = tail0[used := 0x80];
          len_pos = (if used + 1 + 8 \<le> 64 then 64 - 8 else 128 - 8);
          tail2 = copy_into tail1 len_pos (be_bytes64 (sh_total_bits s));
          h1 = compress (sh_h s) (take 64 tail2);
          h2 = (if len_pos = 128 - 8 then compress h1 (take 64 (drop 64 tail2)) else h1)
      in digest_bytes h2)"

definition hash :: "u8 list \<Rightarrow> u8 list" where
  "hash data = sha_finalize (sha_update sha_new data)"

definition hex_nibble :: "u8 \<Rightarrow> char" where
  "hex_nibble n =
     (if n \<le> 9 then char_of (unat (48 + n)) else if n \<le> 15 then char_of (unat (97 + n - 10)) else CHR ''?'')"

definition hex :: "u8 list \<Rightarrow> string" where
  "hex digest = concat (map (\<lambda>b. [hex_nibble (drop_bit 4 b AND 0xF), hex_nibble (b AND 0xF)]) digest)"

definition constant_time_eq :: "u8 list \<Rightarrow> u8 list \<Rightarrow> bool" where
  "constant_time_eq a b =
     (if length a \<noteq> length b then False
      else foldl (\<lambda>diff i. diff OR (a ! i XOR b ! i)) 0 [0..<length a] = 0)"

section \<open>The reference definition\<close>

function blocks :: "u8 list \<Rightarrow> u8 list list" where
  "blocks m = (if 64 \<le> length m then take 64 m # blocks (drop 64 m) else [])"
  by auto
termination
  by (relation "measure length") auto

declare blocks.simps [simp del]

definition rest :: "u8 list \<Rightarrow> u8 list" where "rest m = drop (64 * (length m div 64)) m"

definition padding :: "nat \<Rightarrow> u8 list" where
  "padding n = 0x80 # replicate ((119 - n mod 64) mod 64) 0 @ be_bytes64 (of_nat (8 * n))"

definition sha256_spec :: "u8 list \<Rightarrow> u8 list" where
  "sha256_spec m = digest_bytes (foldl compress H0 (blocks (m @ padding (length m))))"

section \<open>Blocks and remainders\<close>

lemma blocks_short [simp]: "length m < 64 \<Longrightarrow> blocks m = []"
  by (subst blocks.simps) simp

lemma blocks_long: "64 \<le> length m \<Longrightarrow> blocks m = take 64 m # blocks (drop 64 m)"
  by (subst blocks.simps) simp

lemma blocks_cons: "length b = 64 \<Longrightarrow> blocks (b @ m) = b # blocks m"
  by (subst blocks.simps) simp

lemma rest_short [simp]: "length m < 64 \<Longrightarrow> rest m = m"
  by (simp add: rest_def)

lemma rest_cons: "length b = 64 \<Longrightarrow> rest (b @ m) = rest m"
  by (simp add: rest_def div_add_self1)

lemma rest_long: "64 \<le> length m \<Longrightarrow> rest (drop 64 m) = rest m"
  using rest_cons [of "take 64 m" "drop 64 m"] by simp

lemma length_rest: "length (rest m) = length m mod 64"
  by (simp add: rest_def minus_mult_div_eq_mod)

lemma length_rest_less [simp]: "length (rest m) < 64"
  by (simp add: length_rest)

lemma length_rest_le [simp]: "length (rest m) \<le> 64"
  by (simp add: less_imp_le)

lemma blocks_append: "blocks (m @ d) = blocks m @ blocks (rest m @ d)"
proof (induction m rule: blocks.induct)
  case (1 m)
  show ?case
  proof (cases "64 \<le> length m")
    case True
    have "blocks (m @ d) = take 64 m # blocks (drop 64 m @ d)"
      using True by (simp add: blocks_long [of "m @ d"])
    also have "\<dots> = take 64 m # (blocks (drop 64 m) @ blocks (rest (drop 64 m) @ d))"
      using 1 True by simp
    finally show ?thesis using True by (simp add: blocks_long rest_long)
  qed simp
qed

lemma rest_append: "rest (m @ d) = rest (rest m @ d)"
proof (induction m rule: blocks.induct)
  case (1 m)
  show ?case
  proof (cases "64 \<le> length m")
    case True
    have "rest (m @ d) = rest (drop 64 m @ d)" using True rest_long [of "m @ d"] by simp
    with 1 True show ?thesis by (simp add: rest_long)
  qed simp
qed

lemma whole_blocks_fold: "whole_blocks h d = (foldl compress h (blocks d), rest d)"
proof (induction h d rule: whole_blocks.induct)
  case (1 h d)
  then show ?case
    by (cases "64 \<le> length d") (simp_all add: whole_blocks.simps [of h d] blocks_long rest_long)
qed

section \<open>What the hasher has absorbed\<close>

definition absorbed :: "sha256 \<Rightarrow> u8 list \<Rightarrow> bool" where
  "absorbed s m \<longleftrightarrow> sh_h s = foldl compress H0 (blocks m) \<and> length (sh_buf s) = 64
     \<and> sh_buf_len s = length (rest m) \<and> take (sh_buf_len s) (sh_buf s) = rest m
     \<and> sh_total_bits s = of_nat (8 * length m)"

lemma absorbed_new: "absorbed sha_new []"
  by (simp add: absorbed_def sha_new_def)

lemma length_copy_into: "off + length xs \<le> length buf \<Longrightarrow> length (copy_into buf off xs) = length buf"
  by (simp add: copy_into_def)

lemma take_copy_into:
  "off \<le> length buf \<Longrightarrow> take (off + length xs) (copy_into buf off xs) = take off buf @ xs"
  by (simp add: copy_into_def)

text \<open>Filling the buffer either completes a block or consumes all the data.\<close>

lemma sha_fill_cases:
  assumes "length (sh_buf s) = 64" and "sh_buf_len s < 64" and r: "r = take (sh_buf_len s) (sh_buf s)"
    and fill: "sha_fill s d = (s', d')"
  shows "length (sh_buf s') = 64 \<and> sh_total_bits s' = sh_total_bits s \<and> sh_buf_len s' < 64
    \<and> foldl compress (sh_h s) (blocks (r @ d)) = foldl compress (sh_h s') (blocks d')
    \<and> (d' = [] \<longrightarrow> rest (r @ d) = take (sh_buf_len s') (sh_buf s'))
    \<and> (d' \<noteq> [] \<longrightarrow> sh_buf_len s' = 0 \<and> rest (r @ d) = rest d')"
proof (cases "sh_buf_len s = 0")
  case True
  with assms show ?thesis
    by (cases "d = []") (simp_all add: sha_fill_def)
next
  case False
  let ?n = "min (length d) (64 - sh_buf_len s)"
  let ?buf = "copy_into (sh_buf s) (sh_buf_len s) (take ?n d)"
  have len: "length ?buf = 64" using assms(1,2) by (subst length_copy_into) auto
  have len_r: "length r = sh_buf_len s" using assms by simp
  have buf: "take (sh_buf_len s + ?n) ?buf = r @ take ?n d"
    using take_copy_into [of "sh_buf_len s" "sh_buf s" "take ?n d"] assms by simp
  show ?thesis
  proof (cases "sh_buf_len s + ?n = 64")
    case True
    then have "?buf = r @ take ?n d" using buf len by simp
    then have rd: "r @ d = ?buf @ drop ?n d" by simp
    have "blocks (r @ d) = ?buf # blocks (drop ?n d)" "rest (r @ d) = rest (drop ?n d)"
      unfolding rd using len by (simp_all add: blocks_cons rest_cons)
    moreover have "s' = s\<lparr>sh_buf := ?buf, sh_h := compress (sh_h s) ?buf, sh_buf_len := 0\<rparr>" "d' = drop ?n d"
      using fill True False by (auto simp: sha_fill_def Let_def)
    ultimately show ?thesis using len by simp
  next
    case False
    then have n: "?n = length d" "sh_buf_len s + length d < 64" using assms(2) by auto
    then have "s' = s\<lparr>sh_buf := ?buf, sh_buf_len := sh_buf_len s + ?n\<rparr>" "d' = []"
      using fill False \<open>sh_buf_len s \<noteq> 0\<close> by (auto simp: sha_fill_def Let_def)
    with n buf len len_r show ?thesis by simp
  qed
qed

lemma absorbed_update:
  assumes "absorbed s m"
  shows "absorbed (sha_update s d) (m @ d)"
proof -
  let ?s0 = "s\<lparr>sh_total_bits := sh_total_bits s + of_nat (length d) * 8\<rparr>"
  obtain s1 d1 where fill: "sha_fill ?s0 d = (s1, d1)" by fastforce
  have r: "rest m = take (sh_buf_len ?s0) (sh_buf ?s0)" "length (sh_buf ?s0) = 64" "sh_buf_len ?s0 < 64"
    using assms by (auto simp: absorbed_def)
  note s1 = sha_fill_cases [OF r(2,3,1) fill]
  have upd: "sha_update s d = (let s2 = s1\<lparr>sh_h := foldl compress (sh_h s1) (blocks d1)\<rparr> in
      if rest d1 \<noteq> [] then s2\<lparr>sh_buf := copy_into (sh_buf s2) 0 (rest d1), sh_buf_len := length (rest d1)\<rparr> else s2)"
    by (simp add: sha_update_def fill whole_blocks_fold Let_def)
  have h: "foldl compress (sh_h s1) (blocks d1) = foldl compress H0 (blocks (m @ d))"
    using s1 assms by (simp add: blocks_append [of m d] absorbed_def)
  have bits: "sh_total_bits s1 = of_nat (8 * length (m @ d))"
    using s1 assms by (simp add: absorbed_def algebra_simps)
  have r': "rest (m @ d) = rest (rest m @ d)" by (rule rest_append)
  show ?thesis
  proof (cases "d1 = []")
    case True
    then have "take (sh_buf_len s1) (sh_buf s1) = rest (m @ d)" using s1 r' by simp
    moreover from this s1 have "sh_buf_len s1 = length (rest (m @ d))" by (metis length_take min.absorb4)
    ultimately show ?thesis using True s1 h bits by (simp add: upd absorbed_def Let_def)
  next
    case False
    then have "rest (m @ d) = rest d1" "sh_buf_len s1 = 0" using s1 r' by simp_all
    with s1 h bits length_rest_less [of d1] show ?thesis
      by (auto simp: upd absorbed_def Let_def copy_into_def)
  qed
qed

lemma absorbed_updates: "absorbed s m \<Longrightarrow> absorbed (foldl sha_update s ds) (m @ concat ds)"
proof (induction ds arbitrary: s m)
  case (Cons d ds)
  from Cons.IH [OF absorbed_update [OF Cons.prems]] show ?case by simp
qed simp

section \<open>Finalisation\<close>

lemma length_be_bytes64 [simp]: "length (be_bytes64 w) = 8"
  by (simp add: be_bytes64_def)

lemma final_tail:
  assumes "length r < 64"
  defines "pos \<equiv> (if length r + 1 + 8 \<le> 64 then 56 else 120 :: nat)"
  shows "take (pos + 8) (copy_into ((copy_into (replicate 128 0) 0 r)[length r := 0x80]) pos (be_bytes64 w))
    = r @ 0x80 # replicate (pos - length r - 1) 0 @ be_bytes64 w"
proof -
  have "128 - length r = Suc (127 - length r)" using assms(1) by simp
  then have "(copy_into (replicate 128 0) 0 r)[length r := 0x80] = r @ 0x80 # replicate (127 - length r) 0"
    using assms(1) by (simp add: copy_into_def)
  moreover have pos: "length r < pos" "pos \<le> 120" using assms by (auto simp: pos_def)
  moreover have "take pos (r @ 0x80 # replicate (127 - length r) 0) = r @ 0x80 # replicate (pos - length r - 1) 0"
  proof -
    define q where "q = pos - length r - 1"
    then have "pos - length r = Suc q" "min q (127 - length r) = q" using pos by simp_all
    then show ?thesis using pos(1) by (simp add: q_def [symmetric])
  qed
  ultimately show ?thesis
    using assms(1) take_copy_into [of pos "r @ 0x80 # replicate (127 - length r) 0" "be_bytes64 w"] by simp
qed

lemma final_padding:
  assumes "length m mod 64 = length r"
  shows "r @ padding (length m) = r @ 0x80 # replicate ((if length r + 1 + 8 \<le> 64 then 56 else 120) - length r - 1) 0
    @ be_bytes64 (of_nat (8 * length m))"
proof -
  have "length r < 64" using assms by (metis mod_less_divisor zero_less_numeral)
  then have "(119 - length r) mod 64 = (if length r + 1 + 8 \<le> 64 then 56 else 120) - length r - 1"
    by (auto simp: mod_if)
  with assms show ?thesis by (simp add: padding_def)
qed

lemma sha_finalize_spec:
  assumes "absorbed s m"
  shows "sha_finalize s = sha256_spec m"
proof -
  let ?r = "rest m" and ?w = "of_nat (8 * length m) :: u64"
  let ?pos = "if length ?r + 1 + 8 \<le> 64 then 56 else 120 :: nat"
  define tl where "tl = copy_into ((copy_into (replicate 128 0) 0 ?r)[length ?r := 0x80]) ?pos (be_bytes64 ?w)"
  have t: "take (?pos + 8) tl = ?r @ padding (length m)"
    unfolding tl_def using final_tail [of ?r ?w] final_padding [of m ?r] by (simp add: length_rest)
  have "length ?r \<le> 128" by (rule order_trans [OF length_rest_le]) simp
  then have len: "length tl = 128" by (simp add: tl_def copy_into_def)
  have buf: "take (length ?r) (sh_buf s) = ?r" using assms by (auto simp: absorbed_def)
  have fin: "sha_finalize s = digest_bytes (if ?pos = 120
      then compress (compress (sh_h s) (take 64 tl)) (take 64 (drop 64 tl)) else compress (sh_h s) (take 64 tl))"
    using assms by (simp add: sha_finalize_def absorbed_def Let_def tl_def buf)
  have h: "sh_h s = foldl compress H0 (blocks m)" using assms by (simp add: absorbed_def)
  have "foldl compress (sh_h s) (blocks (?r @ padding (length m))) = (if ?pos = 120
      then compress (compress (sh_h s) (take 64 tl)) (take 64 (drop 64 tl)) else compress (sh_h s) (take 64 tl))"
    using len unfolding t [symmetric] by (auto simp: blocks_long drop_take)
  then show ?thesis by (simp add: fin h sha256_spec_def blocks_append [of m])
qed

section \<open>Digest comparison and printing\<close>

lemma xor_zero_iff: "(a :: u8) XOR b = 0 \<longleftrightarrow> a = b"
proof
  assume "a XOR b = 0"
  then have "\<not> bit (a XOR b) n" for n by simp
  then show "a = b" by (auto simp: bit_eq_iff bit_xor_iff)
qed simp

lemma foldl_or_zero:
  "foldl (\<lambda>d i. d OR f i) (d0 :: u8) is = 0 \<longleftrightarrow> d0 = 0 \<and> (\<forall>i \<in> set is. f i = 0)"
proof (induction "is" arbitrary: d0)
  case (Cons i "is")
  then show ?case by (simp add: or_eq_0_iff)
qed simp

lemma constant_time_eq_iff: "constant_time_eq a b \<longleftrightarrow> a = b"
proof (cases "length a = length b")
  case True
  then have "constant_time_eq a b \<longleftrightarrow> (\<forall>i < length a. a ! i = b ! i)"
    by (simp add: constant_time_eq_def foldl_or_zero xor_zero_iff Ball_def)
  with True show ?thesis by (metis nth_equalityI)
qed (auto simp: constant_time_eq_def)

lemma length_hex: "length (hex ds) = 2 * length ds"
  by (induction ds) (simp_all add: hex_def)

lemma length_digest [simp]: "length (digest_bytes h) = 32"
  by (simp add: digest_bytes_def be_bytes32_def length_concat o_def sum_list_triv)

lemma hash_spec: "hash m = sha256_spec m"
  unfolding hash_def using sha_finalize_spec [OF absorbed_update [OF absorbed_new]] by simp

lemma length_hash [simp]: "length (hash m) = 32"
  by (simp add: hash_spec sha256_spec_def)

section \<open>Properties\<close>


text \<open>
  A printed digest has 64 digits for every message, so the unit test two_block, which
  compares one with a literal of 65 digits, fails whatever the implementation computes.
\<close>
theorem sha_two_block_test_fails:
  "hex (hash m) \<noteq> ''248d6a61d20638b8e5c026930c3e6039a33ce459964ff2167f6ecedd419db06c1''"
proof
  assume eq: "hex (hash m) = ''248d6a61d20638b8e5c026930c3e6039a33ce459964ff2167f6ecedd419db06c1''"
  have "length (hex (hash m)) = 64" by (simp add: length_hex)
  then show False unfolding eq by simp
qed

end
