(* ===== verification/Sha256Vectors.thy ===== *)
theory Sha256Vectors
  imports Sha256
begin

text \<open>
  The reference value of the unit test \<^verbatim>\<open>abc\<close> of \<^verbatim>\<open>src/sha256.rs\<close>, computed on the model by the
  simplifier: one block through all 64 rounds of the compression function.
\<close>

text \<open>
  The digest of the message abc, printed in hexadecimal, is the value the unit test of
  the module (and FIPS 180-4) gives for it.
\<close>
theorem sha_abc:
  "hex (hash [0x61, 0x62, 0x63]) = ''ba7816bf8f01cfea414140de5dae2223b00361a396177a9cb410ff61f20015ad''"
  by code_simp

end
