(* ===== verification/Users.thy ===== *)
theory Users
  imports Sha256
begin

text \<open>
  Users and passwords (\<^verbatim>\<open>src/users.rs\<close>): the user and group database, salted password hashes and
  the credentials of the session. Rust strings are byte strings here (one character per byte),
  as the code only ever looks at their bytes. The tick count and the salt counter that seed a
  salt are arguments.
\<close>

section \<open>The database\<close>

record user =
  u_name :: string
  u_password_hash :: string
  u_uid :: u32
  u_gid :: u32
  u_comment :: string
  u_home :: string
  u_shell :: string

record group =
  g_name :: string
  g_gid :: u32
  g_members :: "string list"

record user_db =
  db_users :: "user list"
  db_groups :: "group list"

definition db_new :: user_db where "db_new = \<lparr>db_users = [], db_groups = []\<rparr>"

definition db_init_defaults :: "user_db \<Rightarrow> user_db" where
  "db_init_defaults db = db\<lparr>
     db_groups := db_groups db @
       [\<lparr>g_name = ''root'', g_gid = 0, g_members = [''root'']\<rparr>,
        \<lparr>g_name = ''users'', g_gid = 100, g_members = []\<rparr>,
        \<lparr>g_name = ''wheel'', g_gid = 10, g_members = [''root'']\<rparr>,
        \<lparr>g_name = ''daemon'', g_gid = 1, g_members = []\<rparr>,
        \<lparr>g_name = ''nobody'', g_gid = 65534, g_members = []\<rparr>],
     db_users := db_users db @
       [\<lparr>u_name = ''root'', u_password_hash = '''', u_uid = 0, u_gid = 0,
         u_comment = ''System Administrator'', u_home = ''/root'', u_shell = ''/bin/sh''\<rparr>,
        \<lparr>u_name = ''daemon'', u_password_hash = ''*'', u_uid = 1, u_gid = 1,
         u_comment = ''System Daemon'', u_home = ''/'', u_shell = ''/bin/false''\<rparr>,
        \<lparr>u_name = ''nobody'', u_password_hash = ''*'', u_uid = 65534, u_gid = 65534,
         u_comment = ''Nobody'', u_home = ''/'', u_shell = ''/bin/false''\<rparr>]\<rparr>"

definition get_user :: "user_db \<Rightarrow> string \<Rightarrow> user option" where
  "get_user db name = find (\<lambda>u. u_name u = name) (db_users db)"

definition get_user_by_uid :: "user_db \<Rightarrow> u32 \<Rightarrow> user option" where
  "get_user_by_uid db uid = find (\<lambda>u. u_uid u = uid) (db_users db)"

definition get_group :: "user_db \<Rightarrow> string \<Rightarrow> group option" where
  "get_group db name = find (\<lambda>g. g_name g = name) (db_groups db)"

definition get_group_by_gid :: "user_db \<Rightarrow> u32 \<Rightarrow> group option" where
  "get_group_by_gid db gid = find (\<lambda>g. g_gid g = gid) (db_groups db)"

definition add_user :: "user_db \<Rightarrow> user \<Rightarrow> (string + unit) \<times> user_db" where
  "add_user db u =
     (if list_ex (\<lambda>v. u_name v = u_name u) (db_users db) then (Inl ''User already exists'', db)
      else if list_ex (\<lambda>v. u_uid v = u_uid u) (db_users db) then (Inl ''UID already in use'', db)
      else (Inr (), db\<lparr>db_users := db_users db @ [u]\<rparr>))"

text \<open>The groups of a user: the primary group, then those that list the user, once per gid.\<close>

definition add_group :: "string \<Rightarrow> group list \<Rightarrow> group \<Rightarrow> group list" where
  "add_group name result g =
     (if list_ex (\<lambda>m. m = name) (g_members g) \<and> \<not> list_ex (\<lambda>r. g_gid r = g_gid g) result
      then result @ [g] else result)"

definition user_groups :: "user_db \<Rightarrow> string \<Rightarrow> group list" where
  "user_groups db name =
     (let primary = (case get_user db name of
            None \<Rightarrow> []
          | Some u \<Rightarrow> (case get_group_by_gid db (u_gid u) of None \<Rightarrow> [] | Some g \<Rightarrow> [g]))
      in foldl (add_group name) primary (db_groups db))"

section \<open>Password hashes\<close>

text \<open>The format \<open>{:016x}\<close> of a 64-bit word.\<close>

definition fmt_016x :: "u64 \<Rightarrow> string" where
  "fmt_016x w = map (\<lambda>i. hex_nibble (ucast (drop_bit (60 - 4 * i) w) AND 0xF)) [0..<16]"

definition salted_digest :: "string \<Rightarrow> string \<Rightarrow> string" where
  "salted_digest salt password =
     hex (sha_finalize (sha_update (sha_update (sha_update sha_new (as_bytes salt)) (as_bytes ''|'')) (as_bytes password)))"

definition simple_hash :: "u64 \<Rightarrow> u64 \<Rightarrow> string \<Rightarrow> string \<times> u64" where
  "simple_hash ticks salt_counter password =
     (let salt_seed = (ticks XOR salt_counter) * 0x9E3779B97F4A7C15;
          salt = fmt_016x salt_seed
      in (''$sha256$'' @ salt @ ''$'' @ salted_digest salt password, salt_counter + 1))"

definition strip_prefix :: "string \<Rightarrow> string \<Rightarrow> string option" where
  "strip_prefix p s = (if take (length p) s = p then Some (drop (length p) s) else None)"

definition verify_hash :: "string \<Rightarrow> string \<Rightarrow> bool" where
  "verify_hash password stored =
     (if stored = [] then True
      else if stored = ''*'' \<or> stored = ''!'' then False
      else case strip_prefix ''$sha256$'' stored of
          None \<Rightarrow> False
        | Some r \<Rightarrow>
            (case position (\<lambda>c. c = CHR ''$'') r of
               None \<Rightarrow> False
             | Some dollar \<Rightarrow>
                 constant_time_eq (as_bytes (salted_digest (take dollar r) password)) (as_bytes (drop (dollar + 1) r))))"

definition check_password :: "user_db \<Rightarrow> string \<Rightarrow> string \<Rightarrow> bool" where
  "check_password db name password =
     (case get_user db name of None \<Rightarrow> False | Some u \<Rightarrow> verify_hash password (u_password_hash u))"

definition set_password ::
  "u64 \<Rightarrow> user_db \<times> u64 \<Rightarrow> string \<Rightarrow> string \<Rightarrow> (string + unit) \<times> user_db \<times> u64" where
  "set_password ticks = (\<lambda>(db, counter) name password.
     (case get_user db name of
        None \<Rightarrow> (Inl ''User not found'', db, counter)
      | Some _ \<Rightarrow>
          let (hash, counter') = (if password = [] then ('''', counter) else simple_hash ticks counter password) in
          (Inr (), db\<lparr>db_users := update_first (\<lambda>u. u_name u = name) (\<lambda>u. u\<lparr>u_password_hash := hash\<rparr>) (db_users db)\<rparr>,
           counter')))"

section \<open>Credentials\<close>

record credentials =
  c_uid :: u32
  c_gid :: u32
  c_euid :: u32
  c_egid :: u32
  c_username :: string

definition credentials_default :: credentials where
  "credentials_default = \<lparr>c_uid = 0, c_gid = 0, c_euid = 0, c_egid = 0, c_username = ''root''\<rparr>"

definition CURRENT_CREDS_init :: credentials where
  "CURRENT_CREDS_init = \<lparr>c_uid = 0, c_gid = 0, c_euid = 0, c_egid = 0, c_username = ''''\<rparr>"

definition init_creds :: "credentials \<Rightarrow> credentials" where
  "init_creds c = c\<lparr>c_username := ''root''\<rparr>"

section \<open>Verification of stored hashes\<close>

lemma hex_nibble_no_dollar: "hex_nibble n \<noteq> CHR ''$''"
proof (cases "n \<le> 15")
  case True
  then obtain k where n: "n = word_of_nat k" and k: "k < 16"
    by (intro that [of "unat n"]) (simp_all add: word_le_nat_alt)
  from k have "k \<in> {0, 1, 2, 3, 4, 5, 6, 7, 8, 9, 10, 11, 12, 13, 14, 15}" by (simp, arith)
  then show ?thesis by (auto simp: n hex_nibble_def char_of_def bit_0)
next
  case False
  moreover have "\<not> n \<le> 9" using False order_trans [of n 9 15] by auto
  ultimately show ?thesis by (simp add: hex_nibble_def)
qed

lemma position_append_first:
  "\<forall>x \<in> set xs. \<not> P x \<Longrightarrow> P y \<Longrightarrow> position P (xs @ y # ys) = Some (length xs)"
  by (induction xs) auto

lemma strip_prefix_append [simp]: "strip_prefix p (p @ s) = Some s"
  by (simp add: strip_prefix_def)

text \<open>A freshly made hash accepts exactly the passwords with the same salted digest.\<close>

lemma verify_simple_hash:
  "verify_hash pw (fst (simple_hash ticks counter pw')) \<longleftrightarrow>
     salted_digest (fmt_016x ((ticks XOR counter) * 0x9E3779B97F4A7C15)) pw
     = salted_digest (fmt_016x ((ticks XOR counter) * 0x9E3779B97F4A7C15)) pw'"
proof -
  let ?salt = "fmt_016x ((ticks XOR counter) * 0x9E3779B97F4A7C15)"
  let ?r = "?salt @ CHR ''$'' # salted_digest ?salt pw'"
  have "\<forall>c \<in> set ?salt. c \<noteq> CHR ''$''" by (auto simp: fmt_016x_def hex_nibble_no_dollar)
  then have pos: "position (\<lambda>c. c = CHR ''$'') ?r = Some (length ?salt)"
    by (intro position_append_first) auto
  have stored: "fst (simple_hash ticks counter pw') = ''$sha256$'' @ ?r"
    by (simp add: simple_hash_def Let_def)
  have "verify_hash pw (''$sha256$'' @ ?r) =
      constant_time_eq (as_bytes (salted_digest ?salt pw)) (as_bytes (salted_digest ?salt pw'))"
    unfolding verify_hash_def strip_prefix_append using pos by simp
  then show ?thesis unfolding stored constant_time_eq_iff using as_bytes_inj by auto
qed

lemma find_other_name:
  "n \<noteq> name \<Longrightarrow> find (\<lambda>u. u_name u = n) (update_first (\<lambda>u. u_name u = name) (u_password_hash_update f) us)
     = find (\<lambda>u. u_name u = n) us"
  by (rule find_update_first_other) auto

lemma get_user_set_password:
  assumes "get_user db name = Some u"
  shows "get_user (fst (snd (set_password ticks (db, counter) name pw))) n =
    (if n = name then Some (u\<lparr>u_password_hash := (if pw = [] then [] else fst (simple_hash ticks counter pw))\<rparr>)
     else get_user db n)"
  using assms
  by (auto simp: set_password_def get_user_def Let_def find_update_first_same find_other_name
      split: prod.splits if_splits)

section \<open>Well-formed databases\<close>

definition db_invar :: "user_db \<Rightarrow> bool" where
  "db_invar db \<longleftrightarrow> distinct (map u_name (db_users db)) \<and> distinct (map u_uid (db_users db))"

lemma add_user_invar: "db_invar db \<Longrightarrow> db_invar (snd (add_user db u))"
  by (auto simp: db_invar_def add_user_def list_ex_iff)

lemma set_password_invar: "db_invar db \<Longrightarrow> db_invar (fst (snd (set_password ticks (db, counter) name pw)))"
  by (auto simp: db_invar_def set_password_def Let_def map_update_first split: option.splits prod.splits)

lemma defaults_invar: "db_invar (db_init_defaults db_new)"
  by (simp add: db_invar_def db_init_defaults_def db_new_def)

inductive db_reach :: "user_db \<times> u64 \<Rightarrow> bool" where
  db_boot: "db_reach (db_init_defaults db_new, 0)"
| db_add: "db_reach (db, counter) \<Longrightarrow> db_reach (snd (add_user db u), counter)"
| db_passwd: "db_reach (db, counter) \<Longrightarrow> db_reach (snd (set_password ticks (db, counter) name pw))"

lemma db_reach_invar: "db_reach s \<Longrightarrow> db_invar (fst s)"
  by (induction rule: db_reach.induct) (auto simp: defaults_invar add_user_invar set_password_invar)

lemma find_unique:
  "distinct (map f xs) \<Longrightarrow> x \<in> set xs \<Longrightarrow> find (\<lambda>y. f y = f x) xs = Some x"
  by (induction xs) (auto simp: image_iff)

lemma salted_digest_spec: "salted_digest salt pw = hex (sha256_spec (as_bytes (salt @ ''|'' @ pw)))"
proof -
  have "absorbed (sha_update (sha_update (sha_update sha_new (as_bytes salt)) (as_bytes ''|'')) (as_bytes pw))
      (as_bytes salt @ as_bytes ''|'' @ as_bytes pw)"
    using absorbed_update [OF absorbed_update [OF absorbed_update [OF absorbed_new]]] by simp
  then show ?thesis unfolding salted_digest_def by (simp add: sha_finalize_spec as_bytes_def)
qed

section \<open>Properties\<close>

text \<open>
  C31: setting the password of an existing user succeeds, after which that user's login
  accepts the password, accepts another one only if the SHA-256 digests of salt|password agree
  (or the new password is empty, which accepts everything), and every other user's login
  behaves as before.
\<close>
theorem set_then_check_password:
  assumes "get_user db name = Some u" and "set_password ticks (db, counter) name pw = (r, db', counter')"
  shows "r = Inr () \<and> check_password db' name pw
    \<and> (check_password db' name pw' \<longleftrightarrow> pw = [] \<or>
        (let salt = fmt_016x ((ticks XOR counter) * 0x9E3779B97F4A7C15) in
         hex (sha256_spec (as_bytes (salt @ ''|'' @ pw'))) = hex (sha256_spec (as_bytes (salt @ ''|'' @ pw)))))
    \<and> (n \<noteq> name \<longrightarrow> check_password db' n pw' = check_password db n pw')"
proof -
  have r: "r = Inr ()" using assms by (auto simp: set_password_def Let_def split: prod.splits)
  have get: "get_user db' n = (if n = name
      then Some (u\<lparr>u_password_hash := (if pw = [] then [] else fst (simple_hash ticks counter pw))\<rparr>) else get_user db n)" for n
    using get_user_set_password [OF assms(1), of ticks counter pw] assms(2) by simp
  have "check_password db' name x \<longleftrightarrow> pw = [] \<or>
      salted_digest (fmt_016x ((ticks XOR counter) * 0x9E3779B97F4A7C15)) x
      = salted_digest (fmt_016x ((ticks XOR counter) * 0x9E3779B97F4A7C15)) pw" for x
    by (cases "pw = []") (simp_all add: check_password_def get verify_simple_hash, simp add: verify_hash_def)
  then show ?thesis using r by (auto simp: check_password_def get salted_digest_spec Let_def)
qed

theorem set_then_check_password_witness:
  "\<exists>db' c'. set_password 5 (db_init_defaults db_new, 0) ''root'' ''pw'' = (Inr (), db', c')
     \<and> check_password db' ''root'' ''pw'' \<and> \<not> check_password db' ''daemon'' ''x''"
proof -
  let ?db = "db_init_defaults db_new"
  obtain r db' c' where s: "set_password 5 (?db, 0) ''root'' ''pw'' = (r, db', c')" by (metis prod_cases3)
  have u: "get_user ?db ''root'' = Some \<lparr>u_name = ''root'', u_password_hash = [], u_uid = 0, u_gid = 0,
      u_comment = ''System Administrator'', u_home = ''/root'', u_shell = ''/bin/sh''\<rparr>"
    by (simp add: get_user_def db_init_defaults_def db_new_def)
  have "\<not> check_password ?db ''daemon'' ''x''"
    by (simp add: check_password_def get_user_def db_init_defaults_def db_new_def verify_hash_def)
  with set_then_check_password [OF u s, of "''x''" "''daemon''"] s show ?thesis by auto
qed

text \<open>
  With the database of a fresh boot, root logs in with any password and no other
  name logs in at all: the two service accounts are locked.
\<close>
theorem boot_logins:
  "check_password (db_init_defaults db_new) name pw \<longleftrightarrow> name = ''root''"
  by (auto simp: check_password_def get_user_def db_init_defaults_def db_new_def verify_hash_def)

text \<open>
  In every database that user creation and password changes can reach from boot,
  names and uids identify users: looking up a user's name or uid returns that user.
\<close>
theorem user_lookup_unique:
  assumes "db_reach (db, counter)" and "u \<in> set (db_users db)"
  shows "get_user db (u_name u) = Some u \<and> get_user_by_uid db (u_uid u) = Some u"
  using db_reach_invar [OF assms(1)] assms(2) by (simp add: db_invar_def get_user_def get_user_by_uid_def find_unique)

theorem user_lookup_unique_witness:
  "\<exists>u. db_reach (db_init_defaults db_new, 0) \<and> u \<in> set (db_users (db_init_defaults db_new)) \<and> u_uid u = 1
     \<and> get_user (db_init_defaults db_new) (u_name u) = Some u"
proof -
  let ?db = "db_init_defaults db_new"
  have "\<exists>u \<in> set (db_users ?db). u_uid u = 1" by (simp add: db_init_defaults_def db_new_def)
  then obtain u where u: "u \<in> set (db_users ?db)" "u_uid u = 1" by blast
  with user_lookup_unique [OF db_boot u(1)] db_boot show ?thesis by blast
qed

end
