(* ===== verification/Pipe.thy ===== *)
theory Pipe
  imports Prelude
begin

text \<open>
  Kernel pipes (\<^verbatim>\<open>src/syscall/pipe.rs\<close>): the ring buffer of one pipe and the global table of
  pipes with the routines the file-descriptor layer calls. Every index into the ring is
  checked as Rust checks it (\<open>Panic\<close> out of range); \<open>usize\<close> positions and counts stay below
  4096 and are natural numbers. The theory states the FIFO contract of a byte channel as a
  locale and interprets it on the pipe.
\<close>

section \<open>One pipe\<close>

definition PIPE_BUF_SIZE :: nat where "PIPE_BUF_SIZE = 4096"
definition MAX_PIPES :: nat where "MAX_PIPES = 64"

record pipe =
  p_buffer :: "u8 list"
  p_read_pos :: nat
  p_write_pos :: nat
  p_count :: nat
  p_read_open :: bool
  p_write_open :: bool

definition pipe_new :: pipe where
  "pipe_new = \<lparr>p_buffer = replicate PIPE_BUF_SIZE 0, p_read_pos = 0, p_write_pos = 0,
     p_count = 0, p_read_open = True, p_write_open = True\<rparr>"

fun read_loop :: "nat \<Rightarrow> pipe \<Rightarrow> (u8 list \<times> pipe) outcome" where
  "read_loop 0 p = Done ([], p)"
| "read_loop (Suc n) p =
     (if p_read_pos p < length (p_buffer p) then
        obind (read_loop n (p\<lparr>p_read_pos := (p_read_pos p + 1) mod PIPE_BUF_SIZE\<rparr>)) (\<lambda>(bs, p').
          Done (p_buffer p ! p_read_pos p # bs, p'))
      else Panic)"

text \<open>\<open>Pipe::read\<close> on a buffer of \<open>want\<close> bytes: the bytes delivered and the new pipe.\<close>

definition p_read :: "pipe \<Rightarrow> nat \<Rightarrow> (u8 list \<times> pipe) outcome" where
  "p_read p want =
     (let to_read = min want (p_count p) in
      obind (read_loop to_read p) (\<lambda>(bs, p'). Done (bs, p'\<lparr>p_count := p_count p' - to_read\<rparr>)))"

fun write_loop :: "u8 list \<Rightarrow> pipe \<Rightarrow> pipe outcome" where
  "write_loop [] p = Done p"
| "write_loop (b # bs) p =
     (if p_write_pos p < length (p_buffer p) then
        write_loop bs (p\<lparr>p_buffer := (p_buffer p)[p_write_pos p := b],
                         p_write_pos := (p_write_pos p + 1) mod PIPE_BUF_SIZE\<rparr>)
      else Panic)"

definition p_write :: "pipe \<Rightarrow> u8 list \<Rightarrow> (nat \<times> pipe) outcome" where
  "p_write p data =
     (if PIPE_BUF_SIZE < p_count p then Panic
      else let to_write = min (length data) (PIPE_BUF_SIZE - p_count p) in
        obind (write_loop (take to_write data) p) (\<lambda>p'.
          Done (to_write, p'\<lparr>p_count := p_count p' + to_write\<rparr>)))"

definition p_available :: "pipe \<Rightarrow> nat" where "p_available p = p_count p"
definition p_close_read :: "pipe \<Rightarrow> pipe" where "p_close_read p = p\<lparr>p_read_open := False\<rparr>"
definition p_close_write :: "pipe \<Rightarrow> pipe" where "p_close_write p = p\<lparr>p_write_open := False\<rparr>"
definition p_is_closed :: "pipe \<Rightarrow> bool" where
  "p_is_closed p \<longleftrightarrow> \<not> p_read_open p \<and> \<not> p_write_open p"
definition p_write_closed :: "pipe \<Rightarrow> bool" where "p_write_closed p \<longleftrightarrow> \<not> p_write_open p"
definition p_read_closed :: "pipe \<Rightarrow> bool" where "p_read_closed p \<longleftrightarrow> \<not> p_read_open p"

section \<open>The pipe table\<close>

record pipe_table =
  pt_pipes :: "pipe option list"

definition pt_new :: pipe_table where "pt_new = \<lparr>pt_pipes = []\<rparr>"

definition pt_create :: "pipe_table \<Rightarrow> nat option \<times> pipe_table" where
  "pt_create t =
     (case position (\<lambda>s. s = None) (pt_pipes t) of
        Some i \<Rightarrow> (Some i, t\<lparr>pt_pipes := (pt_pipes t)[i := Some pipe_new]\<rparr>)
      | None \<Rightarrow>
          if length (pt_pipes t) < MAX_PIPES
          then (Some (length (pt_pipes t)), t\<lparr>pt_pipes := pt_pipes t @ [Some pipe_new]\<rparr>)
          else (None, t))"

definition pt_get :: "pipe_table \<Rightarrow> nat \<Rightarrow> pipe option" where
  "pt_get t i = (if i < length (pt_pipes t) then pt_pipes t ! i else None)"

definition pt_set :: "pipe_table \<Rightarrow> nat \<Rightarrow> pipe option \<Rightarrow> pipe_table" where
  "pt_set t i s = t\<lparr>pt_pipes := (pt_pipes t)[i := s]\<rparr>"

definition pt_cleanup :: "pipe_table \<Rightarrow> nat \<Rightarrow> pipe_table" where
  "pt_cleanup t i =
     (case pt_get t i of None \<Rightarrow> t | Some p \<Rightarrow> if p_is_closed p then pt_set t i None else t)"

datatype pipe_error = InvalidPipe | WouldBlock | BrokenPipe

definition create_pipe :: "pipe_table \<Rightarrow> nat option \<times> pipe_table" where
  "create_pipe t = pt_create t"

definition pipe_read :: "pipe_table \<Rightarrow> nat \<Rightarrow> nat \<Rightarrow> ((pipe_error + u8 list) \<times> pipe_table) outcome" where
  "pipe_read t i want =
     (case pt_get t i of
        None \<Rightarrow> Done (Inl InvalidPipe, t)
      | Some p \<Rightarrow>
          if p_available p = 0 then
            (if p_write_closed p then Done (Inr [], t) else Done (Inl WouldBlock, t))
          else obind (p_read p want) (\<lambda>(bs, p'). Done (Inr bs, pt_set t i (Some p'))))"

definition pipe_write :: "pipe_table \<Rightarrow> nat \<Rightarrow> u8 list \<Rightarrow> ((pipe_error + nat) \<times> pipe_table) outcome" where
  "pipe_write t i data =
     (case pt_get t i of
        None \<Rightarrow> Done (Inl InvalidPipe, t)
      | Some p \<Rightarrow>
          if p_read_closed p then Done (Inl BrokenPipe, t)
          else obind (p_write p data) (\<lambda>(written, p').
            if written = 0 \<and> data \<noteq> [] then Done (Inl WouldBlock, pt_set t i (Some p'))
            else Done (Inr written, pt_set t i (Some p'))))"

definition pipe_bytes_available :: "pipe_table \<Rightarrow> nat \<Rightarrow> nat" where
  "pipe_bytes_available t i = (case pt_get t i of None \<Rightarrow> 0 | Some p \<Rightarrow> p_available p)"

definition pipe_writable :: "pipe_table \<Rightarrow> nat \<Rightarrow> bool" where
  "pipe_writable t i =
     (case pt_get t i of None \<Rightarrow> False
      | Some p \<Rightarrow> p_available p < PIPE_BUF_SIZE \<and> \<not> p_read_closed p)"

definition pipe_write_closed :: "pipe_table \<Rightarrow> nat \<Rightarrow> bool" where
  "pipe_write_closed t i = (case pt_get t i of None \<Rightarrow> True | Some p \<Rightarrow> p_write_closed p)"

definition pipe_read_closed :: "pipe_table \<Rightarrow> nat \<Rightarrow> bool" where
  "pipe_read_closed t i = (case pt_get t i of None \<Rightarrow> True | Some p \<Rightarrow> p_read_closed p)"

definition pipe_close_read :: "pipe_table \<Rightarrow> nat \<Rightarrow> pipe_table" where
  "pipe_close_read t i =
     pt_cleanup (case pt_get t i of None \<Rightarrow> t | Some p \<Rightarrow> pt_set t i (Some (p_close_read p))) i"

definition pipe_close_write :: "pipe_table \<Rightarrow> nat \<Rightarrow> pipe_table" where
  "pipe_close_write t i =
     pt_cleanup (case pt_get t i of None \<Rightarrow> t | Some p \<Rightarrow> pt_set t i (Some (p_close_write p))) i"

section \<open>The contract of a byte channel\<close>

datatype 'b chan_op = Send "'b list" | Recv nat

text \<open>
  A sequence of operations on a channel, with what was accepted by the sends and what was
  delivered by the receives, in order.
\<close>

fun chan_run :: "('p \<Rightarrow> 'b list \<Rightarrow> (nat \<times> 'p) outcome) \<Rightarrow> ('p \<Rightarrow> nat \<Rightarrow> ('b list \<times> 'p) outcome)
    \<Rightarrow> 'b chan_op list \<Rightarrow> 'p \<Rightarrow> ('b list \<times> 'b list \<times> 'p) outcome" where
  "chan_run send recv [] p = Done ([], [], p)"
| "chan_run send recv (Send xs # ops) p =
     obind (send p xs) (\<lambda>(n, p1).
       obind (chan_run send recv ops p1) (\<lambda>(acc, got, p2). Done (take n xs @ acc, got, p2)))"
| "chan_run send recv (Recv n # ops) p =
     obind (recv p n) (\<lambda>(bs, p1).
       obind (chan_run send recv ops p1) (\<lambda>(acc, got, p2). Done (acc, bs @ got, p2)))"

locale byte_channel =
  fixes send :: "'p \<Rightarrow> 'b list \<Rightarrow> (nat \<times> 'p) outcome"
    and recv :: "'p \<Rightarrow> nat \<Rightarrow> ('b list \<times> 'p) outcome"
    and contents :: "'p \<Rightarrow> 'b list"
    and cap :: nat
    and invar :: "'p \<Rightarrow> bool"
  assumes send_spec: "invar p \<Longrightarrow> \<exists>p'. send p xs = Done (min (length xs) (cap - length (contents p)), p')
      \<and> invar p' \<and> contents p' = contents p @ take (cap - length (contents p)) xs"
    and recv_spec: "invar p \<Longrightarrow> \<exists>p'. recv p n = Done (take n (contents p), p')
      \<and> invar p' \<and> contents p' = drop n (contents p)"
    and bounded: "invar p \<Longrightarrow> length (contents p) \<le> cap"
begin

lemma run_fifo:
  "invar p \<Longrightarrow> \<exists>acc got p'. chan_run send recv ops p = Done (acc, got, p') \<and> invar p'
     \<and> got @ contents p' = contents p @ acc"
proof (induction ops arbitrary: p)
  case Nil
  then show ?case by simp
next
  case (Cons op ops)
  show ?case
  proof (cases op)
    case (Send xs)
    let ?n = "min (length xs) (cap - length (contents p))"
    from send_spec [OF Cons.prems, of xs] obtain p1 where
      p1: "send p xs = Done (?n, p1)" "invar p1"
        "contents p1 = contents p @ take (cap - length (contents p)) xs" by blast
    from Cons.IH [OF p1(2)] obtain acc got p2 where
      "chan_run send recv ops p1 = Done (acc, got, p2)" "invar p2" "got @ contents p2 = contents p1 @ acc"
      by blast
    moreover have "take ?n xs = take (cap - length (contents p)) xs" by (simp add: min_def)
    ultimately show ?thesis using Send p1 by simp
  next
    case (Recv n)
    from recv_spec [OF Cons.prems, of n] obtain p1 where
      p1: "recv p n = Done (take n (contents p), p1)" "invar p1" "contents p1 = drop n (contents p)" by blast
    from Cons.IH [OF p1(2)] obtain acc got p2 where
      "chan_run send recv ops p1 = Done (acc, got, p2)" "invar p2" "got @ contents p2 = contents p1 @ acc"
      by blast
    with Recv p1 show ?thesis by simp
  qed
qed

end

section \<open>The ring as a queue\<close>

lemma PIPE_BUF_SIZE_pos [simp]: "0 < PIPE_BUF_SIZE"
  by (simp add: PIPE_BUF_SIZE_def)

text \<open>Distinct offsets below the size of the ring are distinct cells.\<close>

lemma ring_inj:
  fixes a i j S :: nat
  assumes "i < S" and "j < S" and eq: "(a + i) mod S = (a + j) mod S"
  shows "i = j"
proof -
  have *: "m = n" if "m \<le> n" "n < S" "(a + m) mod S = (a + n) mod S" for m n
  proof -
    from that(1,3) have "S dvd (a + n) - (a + m)"
      by (subst mod_eq_dvd_iff_nat [symmetric]) auto
    then have "S dvd n - m" by simp
    with that show ?thesis by (auto dest: dvd_imp_le)
  qed
  show ?thesis using assms * [of i j] * [of j i] by (cases "i \<le> j") auto
qed

definition ring_slice :: "u8 list \<Rightarrow> nat \<Rightarrow> nat \<Rightarrow> u8 list" where
  "ring_slice buf start n = map (\<lambda>i. buf ! ((start + i) mod PIPE_BUF_SIZE)) [0..<n]"

definition p_contents :: "pipe \<Rightarrow> u8 list" where
  "p_contents p = ring_slice (p_buffer p) (p_read_pos p) (p_count p)"

definition p_invar :: "pipe \<Rightarrow> bool" where
  "p_invar p \<longleftrightarrow> length (p_buffer p) = PIPE_BUF_SIZE \<and> p_read_pos p < PIPE_BUF_SIZE
     \<and> p_count p \<le> PIPE_BUF_SIZE \<and> p_write_pos p = (p_read_pos p + p_count p) mod PIPE_BUF_SIZE"

lemma length_ring_slice [simp]: "length (ring_slice buf start n) = n"
  by (simp add: ring_slice_def)

lemma length_p_contents [simp]: "length (p_contents p) = p_count p"
  by (simp add: p_contents_def)

lemma ring_slice_0 [simp]: "ring_slice buf start 0 = []"
  by (simp add: ring_slice_def)

lemma nth_ring_slice: "i < n \<Longrightarrow> ring_slice buf start n ! i = buf ! ((start + i) mod PIPE_BUF_SIZE)"
  by (simp add: ring_slice_def)

lemma ring_slice_Suc:
  "start < PIPE_BUF_SIZE \<Longrightarrow>
   ring_slice buf start (Suc n) = buf ! start # ring_slice buf ((start + 1) mod PIPE_BUF_SIZE) n"
  by (rule nth_equalityI)
    (auto simp: nth_ring_slice nth_Cons mod_add_left_eq split: nat.splits)

lemma take_ring_slice: "m \<le> n \<Longrightarrow> take m (ring_slice buf start n) = ring_slice buf start m"
  by (rule nth_equalityI) (auto simp: nth_ring_slice)

lemma drop_ring_slice:
  "m \<le> n \<Longrightarrow> drop m (ring_slice buf start n) = ring_slice buf ((start + m) mod PIPE_BUF_SIZE) (n - m)"
  by (rule nth_equalityI) (auto simp: nth_ring_slice mod_add_left_eq add.assoc)

lemma ring_slice_eqI:
  "(\<And>i. i < n \<Longrightarrow> buf ! ((start + i) mod PIPE_BUF_SIZE) = xs ! i) \<Longrightarrow> length xs = n \<Longrightarrow>
   ring_slice buf start n = xs"
  by (rule nth_equalityI) (auto simp: nth_ring_slice)

lemma read_loop_spec:
  "length (p_buffer p) = PIPE_BUF_SIZE \<Longrightarrow> p_read_pos p < PIPE_BUF_SIZE \<Longrightarrow>
   read_loop n p = Done (ring_slice (p_buffer p) (p_read_pos p) n,
                         p\<lparr>p_read_pos := (p_read_pos p + n) mod PIPE_BUF_SIZE\<rparr>)"
proof (induction n arbitrary: p)
  case 0
  then show ?case by (simp add: ring_slice_def)
next
  case (Suc n)
  let ?p = "p\<lparr>p_read_pos := (p_read_pos p + 1) mod PIPE_BUF_SIZE\<rparr>"
  have "read_loop n ?p = Done (ring_slice (p_buffer p) ((p_read_pos p + 1) mod PIPE_BUF_SIZE) n,
      ?p\<lparr>p_read_pos := ((p_read_pos p + 1) mod PIPE_BUF_SIZE + n) mod PIPE_BUF_SIZE\<rparr>)"
    using Suc.IH [of ?p] Suc.prems by simp
  with Suc.prems show ?case by (simp add: ring_slice_Suc mod_add_left_eq)
qed

lemma write_loop_spec:
  "length (p_buffer p) = PIPE_BUF_SIZE \<Longrightarrow> p_write_pos p < PIPE_BUF_SIZE \<Longrightarrow> length bs \<le> PIPE_BUF_SIZE \<Longrightarrow>
   \<exists>buf. write_loop bs p = Done (p\<lparr>p_buffer := buf, p_write_pos := (p_write_pos p + length bs) mod PIPE_BUF_SIZE\<rparr>)
     \<and> length buf = PIPE_BUF_SIZE
     \<and> (\<forall>j < length bs. buf ! ((p_write_pos p + j) mod PIPE_BUF_SIZE) = bs ! j)
     \<and> (\<forall>k. (\<forall>j < length bs. k \<noteq> (p_write_pos p + j) mod PIPE_BUF_SIZE) \<longrightarrow> buf ! k = p_buffer p ! k)"
proof (induction bs arbitrary: p)
  case Nil
  then show ?case by (intro exI [of _ "p_buffer p"]) simp
next
  case (Cons b bs)
  let ?w = "p_write_pos p" and ?S = PIPE_BUF_SIZE
  let ?p = "p\<lparr>p_buffer := (p_buffer p)[?w := b], p_write_pos := (?w + 1) mod ?S\<rparr>"
  obtain buf where step: "write_loop bs ?p = Done (?p\<lparr>p_buffer := buf, p_write_pos := ((?w + 1) mod ?S + length bs) mod ?S\<rparr>)"
    and len: "length buf = ?S"
    and new: "\<And>j. j < length bs \<Longrightarrow> buf ! ((?w + Suc j) mod ?S) = bs ! j"
    and old: "\<And>k. (\<forall>j < length bs. k \<noteq> (?w + Suc j) mod ?S) \<Longrightarrow> buf ! k = (p_buffer p)[?w := b] ! k"
    using Cons.IH [of ?p] Cons.prems by (auto simp: mod_add_left_eq)
  have first: "?w \<noteq> (?w + Suc j) mod ?S" if "j < length bs" for j
    using ring_inj [of 0 ?S "Suc j" ?w] Cons.prems that by auto
  have "buf ! ((?w + j) mod ?S) = (b # bs) ! j" if "j < length (b # bs)" for j
    using that old [of ?w] first new Cons.prems by (cases j) auto
  moreover have "buf ! k = p_buffer p ! k" if "\<forall>j < length (b # bs). k \<noteq> (?w + j) mod ?S" for k
  proof -
    from that have "k \<noteq> (?w + 0) mod ?S" and "\<forall>j < length bs. k \<noteq> (?w + Suc j) mod ?S" by auto
    with old [of k] Cons.prems show ?thesis by auto
  qed
  moreover have "write_loop (b # bs) p
      = Done (p\<lparr>p_buffer := buf, p_write_pos := (?w + length (b # bs)) mod ?S\<rparr>)"
    using step Cons.prems by (simp add: mod_add_left_eq)
  ultimately show ?case using len by blast
qed

lemma p_read_spec:
  assumes "p_invar p"
  shows "\<exists>p'. p_read p n = Done (take n (p_contents p), p') \<and> p_invar p' \<and> p_contents p' = drop n (p_contents p)"
proof -
  let ?m = "min n (p_count p)"
  let ?p' = "p\<lparr>p_read_pos := (p_read_pos p + ?m) mod PIPE_BUF_SIZE, p_count := p_count p - ?m\<rparr>"
  from assms have "read_loop ?m p = Done (ring_slice (p_buffer p) (p_read_pos p) ?m,
      p\<lparr>p_read_pos := (p_read_pos p + ?m) mod PIPE_BUF_SIZE\<rparr>)"
    by (simp add: read_loop_spec p_invar_def)
  moreover have "take n (p_contents p) = ring_slice (p_buffer p) (p_read_pos p) ?m"
    by (cases "n \<le> p_count p") (simp_all add: p_contents_def take_ring_slice)
  ultimately have "p_read p n = Done (take n (p_contents p), ?p')"
    by (simp add: p_read_def Let_def)
  moreover have "((p_read_pos p + ?m) mod PIPE_BUF_SIZE + (p_count p - ?m)) mod PIPE_BUF_SIZE
      = (p_read_pos p + p_count p) mod PIPE_BUF_SIZE"
    by (simp only: mod_add_left_eq) (simp add: add.assoc)
  then have "p_invar ?p'" using assms by (simp add: p_invar_def le_diff_conv)
  moreover have "p_contents ?p' = drop n (p_contents p)"
    by (cases "n \<le> p_count p") (simp_all add: p_contents_def drop_ring_slice)
  ultimately show ?thesis by blast
qed

lemma p_write_spec:
  assumes "p_invar p"
  shows "\<exists>p'. p_write p xs = Done (min (length xs) (PIPE_BUF_SIZE - length (p_contents p)), p') \<and> p_invar p'
     \<and> p_contents p' = p_contents p @ take (PIPE_BUF_SIZE - length (p_contents p)) xs
     \<and> p_read_open p' = p_read_open p \<and> p_write_open p' = p_write_open p"
proof -
  let ?S = PIPE_BUF_SIZE and ?r = "p_read_pos p" and ?c = "p_count p"
  define m where "m = min (length xs) (?S - ?c)"
  have inv: "length (p_buffer p) = ?S" "?r < ?S" "?c \<le> ?S" and w: "p_write_pos p = (?r + ?c) mod ?S"
    using assms by (auto simp: p_invar_def)
  have m: "length (take m xs) = m" "?c + m \<le> ?S" using inv by (auto simp: m_def)
  obtain buf where step: "write_loop (take m xs) p = Done (p\<lparr>p_buffer := buf, p_write_pos := (p_write_pos p + m) mod ?S\<rparr>)"
    and len: "length buf = ?S"
    and new: "\<And>j. j < m \<Longrightarrow> buf ! ((?r + (?c + j)) mod ?S) = xs ! j"
    and old: "\<And>k. (\<forall>j < m. k \<noteq> (?r + (?c + j)) mod ?S) \<Longrightarrow> buf ! k = p_buffer p ! k"
    using write_loop_spec [of p "take m xs"] inv w m by (auto simp: mod_add_left_eq add.assoc)
  let ?p' = "p\<lparr>p_buffer := buf, p_write_pos := (p_write_pos p + m) mod ?S, p_count := ?c + m\<rparr>"
  have kept: "buf ! ((?r + i) mod ?S) = p_buffer p ! ((?r + i) mod ?S)" if "i < ?c" for i
  proof (rule old, intro allI impI notI)
    fix j assume "j < m" and "(?r + i) mod ?S = (?r + (?c + j)) mod ?S"
    with ring_inj [of i ?S "?c + j" ?r] that m show False by simp
  qed
  have "ring_slice buf ?r (?c + m) = p_contents p @ take m xs"
  proof (rule ring_slice_eqI)
    fix i assume "i < ?c + m"
    then show "buf ! ((?r + i) mod ?S) = (p_contents p @ take m xs) ! i"
      using kept new [of "i - ?c"] m by (auto simp: nth_append p_contents_def nth_ring_slice)
  qed (use m in simp)
  moreover have "take m xs = take (?S - ?c) xs" by (simp add: m_def min_def)
  ultimately have "p_contents ?p' = p_contents p @ take (?S - length (p_contents p)) xs"
    by (simp add: p_contents_def)
  moreover have "p_write p xs = Done (m, ?p')"
    using step inv by (simp add: p_write_def Let_def m_def)
  moreover have "p_invar ?p'"
    using inv len w m by (auto simp: p_invar_def mod_add_left_eq add.assoc)
  ultimately show ?thesis by (intro exI [of _ ?p']) (simp add: m_def)
qed

interpretation pipe_chan: byte_channel p_write p_read p_contents PIPE_BUF_SIZE p_invar
proof unfold_locales
  fix p xs n
  assume "p_invar p"
  then show "length (p_contents p) \<le> PIPE_BUF_SIZE" by (simp add: p_invar_def)
  show "\<exists>p'. p_read p n = Done (take n (p_contents p), p') \<and> p_invar p' \<and> p_contents p' = drop n (p_contents p)"
    by (rule p_read_spec) fact
  show "\<exists>p'. p_write p xs = Done (min (length xs) (PIPE_BUF_SIZE - length (p_contents p)), p')
      \<and> p_invar p' \<and> p_contents p' = p_contents p @ take (PIPE_BUF_SIZE - length (p_contents p)) xs"
    using p_write_spec [OF \<open>p_invar p\<close>] by blast
qed

lemma pipe_new_invar: "p_invar pipe_new" and pipe_new_contents: "p_contents pipe_new = []"
  by (simp_all add: p_invar_def pipe_new_def p_contents_def ring_slice_def)

section \<open>The table against its abstract specification\<close>

definition pt_invar :: "pipe_table \<Rightarrow> bool" where
  "pt_invar t \<longleftrightarrow> length (pt_pipes t) \<le> MAX_PIPES
     \<and> (\<forall>p. Some p \<in> set (pt_pipes t) \<longrightarrow> p_invar p \<and> \<not> p_is_closed p)"

text \<open>
  Abstractly a pipe is its unread bytes and which of its ends are open, and the table is a
  partial map of such pipes.
\<close>

type_synonym apipe = "u8 list \<times> bool \<times> bool"

definition p_abs :: "pipe \<Rightarrow> apipe" where
  "p_abs p = (p_contents p, p_read_open p, p_write_open p)"

definition pt_abs :: "pipe_table \<Rightarrow> nat \<Rightarrow> apipe option" where
  "pt_abs t i = map_option p_abs (pt_get t i)"

datatype pipe_call = CRead nat nat | CWrite nat "u8 list" | CCloseRead nat | CCloseWrite nat

datatype pipe_reply = RBytes "pipe_error + u8 list" | RCount "pipe_error + nat" | RUnit

fun pipe_step :: "pipe_call \<Rightarrow> pipe_table \<Rightarrow> (pipe_reply \<times> pipe_table) outcome" where
  "pipe_step (CRead i n) t = obind (pipe_read t i n) (\<lambda>(r, t'). Done (RBytes r, t'))"
| "pipe_step (CWrite i xs) t = obind (pipe_write t i xs) (\<lambda>(r, t'). Done (RCount r, t'))"
| "pipe_step (CCloseRead i) t = Done (RUnit, pipe_close_read t i)"
| "pipe_step (CCloseWrite i) t = Done (RUnit, pipe_close_write t i)"

definition aread :: "apipe \<Rightarrow> nat \<Rightarrow> pipe_error + u8 list" where
  "aread a n = (case a of (bs, r, w) \<Rightarrow> if bs \<noteq> [] then Inr (take n bs) else if w then Inl WouldBlock else Inr [])"

definition awrite :: "apipe \<Rightarrow> u8 list \<Rightarrow> pipe_error + nat" where
  "awrite a xs = (case a of (bs, r, w) \<Rightarrow>
     if \<not> r then Inl BrokenPipe
     else if length bs = PIPE_BUF_SIZE \<and> xs \<noteq> [] then Inl WouldBlock
     else Inr (min (length xs) (PIPE_BUF_SIZE - length bs)))"

definition aclose :: "bool \<Rightarrow> bool \<Rightarrow> apipe \<Rightarrow> apipe option" where
  "aclose cr cw a = (case a of (bs, r, w) \<Rightarrow>
     let r' = r \<and> \<not> cr; w' = w \<and> \<not> cw in if r' \<or> w' then Some (bs, r', w') else None)"

fun apipe_step :: "pipe_call \<Rightarrow> (nat \<Rightarrow> apipe option) \<Rightarrow> pipe_reply \<times> (nat \<Rightarrow> apipe option)" where
  "apipe_step (CRead i n) m =
     (case m i of None \<Rightarrow> (RBytes (Inl InvalidPipe), m)
      | Some (bs, r, w) \<Rightarrow> (RBytes (aread (bs, r, w) n), m(i \<mapsto> (drop n bs, r, w))))"
| "apipe_step (CWrite i xs) m =
     (case m i of None \<Rightarrow> (RCount (Inl InvalidPipe), m)
      | Some (bs, r, w) \<Rightarrow> (RCount (awrite (bs, r, w) xs),
          if r then m(i \<mapsto> (bs @ take (PIPE_BUF_SIZE - length bs) xs, r, w)) else m))"
| "apipe_step (CCloseRead i) m = (RUnit, m(i := Option.bind (m i) (aclose True False)))"
| "apipe_step (CCloseWrite i) m = (RUnit, m(i := Option.bind (m i) (aclose False True)))"

lemma pt_get_set:
  "i < length (pt_pipes t) \<Longrightarrow> pt_get (pt_set t i s) j = (if j = i then s else pt_get t j)"
  by (auto simp: pt_get_def pt_set_def)

lemma pt_get_SomeD: "pt_get t i = Some p \<Longrightarrow> i < length (pt_pipes t) \<and> Some p \<in> set (pt_pipes t)"
  by (auto simp: pt_get_def in_set_conv_nth split: if_splits)

lemma pt_invarD: "pt_invar t \<Longrightarrow> pt_get t i = Some p \<Longrightarrow> p_invar p \<and> \<not> p_is_closed p"
  by (auto simp: pt_invar_def dest: pt_get_SomeD)

lemma pt_abs_set:
  "pt_get t i = Some p \<Longrightarrow> pt_abs (pt_set t i s) = (pt_abs t)(i := map_option p_abs s)"
  by (auto simp: pt_abs_def pt_get_set fun_eq_iff dest: pt_get_SomeD)

lemma pt_invar_set:
  "pt_invar t \<Longrightarrow> (\<And>p. s = Some p \<Longrightarrow> p_invar p \<and> \<not> p_is_closed p) \<Longrightarrow> pt_invar (pt_set t i s)"
  by (auto simp: pt_invar_def pt_set_def dest!: set_update_subset_insert [THEN subsetD])

lemma pt_set_same: "pt_get t i = Some p \<Longrightarrow> pt_set t i (Some p) = t"
  by (auto simp: pt_get_def pt_set_def list_update_id split: if_splits
      intro!: pipe_table.equality) (metis list_update_id)

lemma pt_abs_get: "pt_get t i = Some p \<Longrightarrow> pt_abs t i = Some (p_abs p)"
  by (simp add: pt_abs_def)

lemma p_read_ends:
  assumes "p_invar p"
  shows "\<exists>p'. p_read p n = Done (take n (p_contents p), p') \<and> p_invar p'
    \<and> p_abs p' = (drop n (p_contents p), p_read_open p, p_write_open p)"
proof -
  have "p_read_open p' = p_read_open p \<and> p_write_open p' = p_write_open p"
    if "p_read p n = Done (bs, p')" for bs p'
    using that read_loop_spec [of p "min n (p_count p)"] assms
    by (auto simp: p_read_def p_invar_def Let_def)
  with p_read_spec [OF assms, of n] show ?thesis by (fastforce simp: p_abs_def)
qed

lemma pipe_read_refines:
  assumes inv: "pt_invar t"
  shows "\<exists>t'. pipe_step (CRead i n) t = Done (fst (apipe_step (CRead i n) (pt_abs t)), t')
    \<and> pt_invar t' \<and> pt_abs t' = snd (apipe_step (CRead i n) (pt_abs t))"
proof (cases "pt_get t i")
  case None
  with inv show ?thesis by (simp add: pipe_read_def pt_abs_def)
next
  case (Some p)
  note p = pt_invarD [OF inv Some]
  show ?thesis
  proof (cases "p_contents p = []")
    case True
    then have "p_available p = 0" by (metis length_p_contents list.size(3) p_available_def)
    with Some inv True show ?thesis
      by (auto simp: pipe_read_def pt_abs_def p_abs_def aread_def p_write_closed_def fun_eq_iff)
  next
    case False
    then have "p_available p \<noteq> 0" by (metis length_0_conv length_p_contents p_available_def)
    moreover obtain p' where "p_read p n = Done (take n (p_contents p), p')" "p_invar p'"
      "p_abs p' = (drop n (p_contents p), p_read_open p, p_write_open p)"
      using p p_read_ends by blast
    moreover from this(3) p have "\<not> p_is_closed p'" by (simp add: p_abs_def p_is_closed_def)
    ultimately show ?thesis
      using Some inv False
      by (auto simp: pipe_read_def pt_abs_get pt_abs_set p_abs_def aread_def intro!: pt_invar_set)
  qed
qed

lemma pipe_write_refines:
  assumes inv: "pt_invar t"
  shows "\<exists>t'. pipe_step (CWrite i xs) t = Done (fst (apipe_step (CWrite i xs) (pt_abs t)), t')
    \<and> pt_invar t' \<and> pt_abs t' = snd (apipe_step (CWrite i xs) (pt_abs t))"
proof (cases "pt_get t i")
  case None
  with inv show ?thesis by (simp add: pipe_write_def pt_abs_def)
next
  case (Some p)
  note p = pt_invarD [OF inv Some]
  show ?thesis
  proof (cases "p_read_open p")
    case False
    with Some inv show ?thesis
      by (auto simp: pipe_write_def p_read_closed_def pt_abs_get p_abs_def awrite_def)
  next
    case True
    let ?n = "min (length xs) (PIPE_BUF_SIZE - length (p_contents p))"
    obtain p' where p': "p_write p xs = Done (?n, p')" "p_invar p'"
      "p_contents p' = p_contents p @ take (PIPE_BUF_SIZE - length (p_contents p)) xs"
      "p_read_open p' = p_read_open p" "p_write_open p' = p_write_open p"
      using p p_write_spec by blast
    have "p_count p \<le> PIPE_BUF_SIZE" using p by (simp add: p_invar_def)
    then have "?n = 0 \<and> xs \<noteq> [] \<longleftrightarrow> p_count p = PIPE_BUF_SIZE \<and> xs \<noteq> []"
      by (auto simp: min_def split: if_splits)
    moreover have "\<not> p_is_closed p'" using p' True by (simp add: p_is_closed_def)
    ultimately show ?thesis
      using Some inv True p'
      by (auto simp: pipe_write_def p_read_closed_def pt_abs_get pt_abs_set p_abs_def awrite_def
          intro!: pt_invar_set)
  qed
qed

text \<open>Both closing routines clear flags of one pipe and drop it when no end is left.\<close>

lemma close_refines:
  fixes i :: nat
  assumes inv: "pt_invar t" and f: "\<And>p. p_contents (f p) = p_contents p" "\<And>p. p_invar p \<Longrightarrow> p_invar (f p)"
    and flags: "\<And>p. p_read_open (f p) = (p_read_open p \<and> \<not> cr)" "\<And>p. p_write_open (f p) = (p_write_open p \<and> \<not> cw)"
  defines "t' \<equiv> pt_cleanup (case pt_get t i of None \<Rightarrow> t | Some p \<Rightarrow> pt_set t i (Some (f p))) i"
  shows "pt_invar t' \<and> pt_abs t' = (pt_abs t)(i := Option.bind (pt_abs t i) (aclose cr cw))"
proof (cases "pt_get t i")
  case None
  with inv show ?thesis by (auto simp: t'_def pt_cleanup_def pt_abs_def fun_eq_iff)
next
  case (Some p)
  let ?u = "pt_set t i (Some (f p))"
  have i: "i < length (pt_pipes t)" using pt_get_SomeD [OF Some] by simp
  then have u: "pt_get ?u i = Some (f p)" by (simp add: pt_get_set)
  have again: "pt_set ?u i s = pt_set t i s" for s by (simp add: pt_set_def)
  have p: "p_invar p" using pt_invarD [OF inv Some] by simp
  have "t' = pt_set t i (if p_is_closed (f p) then None else Some (f p))"
    using Some u again by (simp add: t'_def pt_cleanup_def)
  moreover have "pt_invar (pt_set t i (if p_is_closed (f p) then None else Some (f p)))"
    using inv f p by (intro pt_invar_set) (auto split: if_splits)
  moreover have "map_option p_abs (if p_is_closed (f p) then None else Some (f p))
      = Option.bind (pt_abs t i) (aclose cr cw)"
    using Some by (auto simp: pt_abs_def p_abs_def aclose_def Let_def p_is_closed_def f flags)
  ultimately show ?thesis using pt_abs_set [OF Some] by metis
qed

lemma close_read_refines:
  "pt_invar t \<Longrightarrow> pt_invar (pipe_close_read t i)
     \<and> pt_abs (pipe_close_read t i) = (pt_abs t)(i := Option.bind (pt_abs t i) (aclose True False))"
  unfolding pipe_close_read_def
  by (rule close_refines) (simp_all add: p_close_read_def p_contents_def p_invar_def)

lemma close_write_refines:
  "pt_invar t \<Longrightarrow> pt_invar (pipe_close_write t i)
     \<and> pt_abs (pipe_close_write t i) = (pt_abs t)(i := Option.bind (pt_abs t i) (aclose False True))"
  unfolding pipe_close_write_def
  by (rule close_refines) (simp_all add: p_close_write_def p_contents_def p_invar_def)

lemma p_abs_new [simp]: "p_abs pipe_new = ([], True, True)"
  by (simp add: p_abs_def pipe_new_contents) (simp add: pipe_new_def)

lemma pipe_new_open [simp]: "\<not> p_is_closed pipe_new"
  by (simp add: p_is_closed_def pipe_new_def)

lemma pt_create_spec:
  assumes inv: "pt_invar t"
  shows "case pt_create t of
      (Some i, t') \<Rightarrow> pt_invar t' \<and> i < MAX_PIPES \<and> pt_abs t i = None \<and> pt_abs t' = (pt_abs t)(i \<mapsto> ([], True, True))
    | (None, t') \<Rightarrow> t' = t \<and> (\<forall>i < MAX_PIPES. pt_abs t i \<noteq> None)"
proof (cases "position (\<lambda>s. s = None) (pt_pipes t)")
  case (Some i)
  from position_SomeD [OF Some] have i: "i < length (pt_pipes t)" "pt_pipes t ! i = None" by auto
  have len: "length (pt_pipes t) \<le> MAX_PIPES" using inv by (simp add: pt_invar_def)
  have "pt_invar (pt_set t i (Some pipe_new))"
    using inv pipe_new_invar by (intro pt_invar_set) auto
  moreover have "pt_abs (pt_set t i (Some pipe_new)) = (pt_abs t)(i \<mapsto> ([], True, True))"
    using i by (auto simp: pt_abs_def pt_get_set fun_eq_iff)
  moreover have "pt_abs t i = None" using i by (simp add: pt_abs_def pt_get_def)
  ultimately show ?thesis using Some i len by (simp add: pt_create_def pt_set_def)
next
  case None
  then have full: "\<forall>s \<in> set (pt_pipes t). s \<noteq> None" by (simp add: position_None_iff)
  show ?thesis
  proof (cases "length (pt_pipes t) < MAX_PIPES")
    case True
    let ?t = "t\<lparr>pt_pipes := pt_pipes t @ [Some pipe_new]\<rparr>"
    have "pt_abs ?t = (pt_abs t)(length (pt_pipes t) \<mapsto> ([], True, True))"
      by (auto simp: pt_abs_def pt_get_def fun_eq_iff nth_append)
    moreover have "pt_invar ?t"
      using inv True by (auto simp: pt_invar_def pipe_new_invar)
    ultimately show ?thesis using None True by (simp add: pt_create_def pt_abs_def pt_get_def)
  next
    case False
    with full have "\<forall>i < MAX_PIPES. pt_abs t i \<noteq> None"
      by (auto simp: pt_abs_def pt_get_def in_set_conv_nth)
    with None False show ?thesis by (simp add: pt_create_def)
  qed
qed

lemma pipe_step_refines:
  "pt_invar t \<Longrightarrow> \<exists>t'. pipe_step c t = Done (fst (apipe_step c (pt_abs t)), t')
     \<and> pt_invar t' \<and> pt_abs t' = snd (apipe_step c (pt_abs t))"
  using pipe_read_refines pipe_write_refines close_read_refines close_write_refines
  by (cases c) auto

text \<open>A sequence of calls on the table, with the replies in order.\<close>

fun pipe_run :: "pipe_call list \<Rightarrow> pipe_table \<Rightarrow> (pipe_reply list \<times> pipe_table) outcome" where
  "pipe_run [] t = Done ([], t)"
| "pipe_run (c # cs) t = obind (pipe_step c t) (\<lambda>(r, t'). obind (pipe_run cs t') (\<lambda>(rs, t''). Done (r # rs, t'')))"

fun apipe_run :: "pipe_call list \<Rightarrow> (nat \<Rightarrow> apipe option) \<Rightarrow> pipe_reply list \<times> (nat \<Rightarrow> apipe option)" where
  "apipe_run [] m = ([], m)"
| "apipe_run (c # cs) m = (case apipe_step c m of (r, m') \<Rightarrow> case apipe_run cs m' of (rs, m'') \<Rightarrow> (r # rs, m''))"

section \<open>Properties\<close>

text \<open>
  C4: whatever sequence of reads, writes and closings is issued on the pipe table, in any
  order and on any indices, the ring buffers never panic and the replies and the final table
  are those of the abstract table, in which a pipe is an unbounded-index queue of at most 4096
  bytes with two end flags: reads deliver the oldest bytes, an empty pipe gives WouldBlock
  until its write end closes and end-of-file afterwards, a write to a closed reader gives
  BrokenPipe, a full pipe gives WouldBlock, and a pipe disappears when both ends are closed.
\<close>
theorem pipe_run_refines:
  assumes "pt_invar t"
  shows "\<exists>t'. pipe_run cs t = Done (fst (apipe_run cs (pt_abs t)), t')
    \<and> pt_invar t' \<and> pt_abs t' = snd (apipe_run cs (pt_abs t))"
  using assms
proof (induction cs arbitrary: t)
  case (Cons c cs)
  obtain t1 where 1: "pipe_step c t = Done (fst (apipe_step c (pt_abs t)), t1)"
      "pt_invar t1" "pt_abs t1 = snd (apipe_step c (pt_abs t))"
    using pipe_step_refines [OF Cons.prems] by blast
  obtain t2 where 2: "pipe_run cs t1 = Done (fst (apipe_run cs (pt_abs t1)), t2)"
      "pt_invar t2" "pt_abs t2 = snd (apipe_run cs (pt_abs t1))"
    using Cons.IH [OF 1(2)] by blast
  from 1 2 show ?case by (simp add: case_prod_unfold)
qed simp

theorem pipe_run_refines_witness:
  "pt_invar (snd (pt_create pt_new))
   \<and> (\<exists>t'. pipe_run [CWrite 0 [7, 8], CRead 0 1, CCloseWrite 0, CRead 0 5, CRead 0 5, CCloseRead 0]
        (snd (pt_create pt_new))
      = Done ([RCount (Inr 2), RBytes (Inr [7]), RUnit, RBytes (Inr [8]), RBytes (Inr []), RUnit], t')
      \<and> pt_abs t' 0 = None)"
proof -
  let ?cs = "[CWrite 0 [7, 8], CRead 0 1, CCloseWrite 0, CRead 0 5, CRead 0 5, CCloseRead 0]"
  let ?t = "snd (pt_create pt_new)"
  have empty: "pt_invar pt_new" "pt_abs pt_new = (\<lambda>_. None)"
    by (simp_all add: pt_new_def pt_invar_def pt_abs_def pt_get_def fun_eq_iff)
  have "pt_create pt_new = (Some 0, ?t)" by (simp add: pt_create_def pt_new_def MAX_PIPES_def)
  then have t: "pt_invar ?t" "pt_abs ?t = (\<lambda>_. None)(0 \<mapsto> ([], True, True))"
    using pt_create_spec [OF empty(1)] empty(2) by (auto split: prod.splits)
  have "apipe_run ?cs ((\<lambda>_. None)(0 \<mapsto> ([], True, True)))
     = ([RCount (Inr 2), RBytes (Inr [7]), RUnit, RBytes (Inr [8]), RBytes (Inr []), RUnit], \<lambda>_. None)"
    by (auto simp: aread_def awrite_def aclose_def PIPE_BUF_SIZE_def Let_def)
  with pipe_run_refines [OF t(1), of ?cs] t show ?thesis by auto
qed

text \<open>
  On a fresh pipe, for every interleaving of writes and reads, the bytes accepted by
  the writes are, in order, the bytes delivered by the reads followed by those still
  buffered; nothing is lost, duplicated or reordered as the ring wraps.
\<close>
theorem pipe_fifo:
  "\<exists>sent got p'. chan_run p_write p_read ops pipe_new = Done (sent, got, p')
     \<and> sent = got @ p_contents p' \<and> length (p_contents p') \<le> PIPE_BUF_SIZE"
  using pipe_chan.run_fifo [OF pipe_new_invar, of ops] pipe_chan.bounded
  by (fastforce simp: pipe_new_contents)

text \<open>
  Creating a pipe on a well-formed table takes an index below 64 that no live pipe
  has, makes it an empty pipe with both ends open and leaves every other pipe as it was; it
  fails only when all 64 pipes are live, and then changes nothing.
\<close>
theorem create_pipe_spec:
  assumes "pt_invar t"
  shows "case create_pipe t of
      (Some i, t') \<Rightarrow> pt_invar t' \<and> i < MAX_PIPES \<and> pt_abs t i = None \<and> pt_abs t' = (pt_abs t)(i \<mapsto> ([], True, True))
    | (None, t') \<Rightarrow> t' = t \<and> (\<forall>i < MAX_PIPES. pt_abs t i \<noteq> None)"
  using pt_create_spec [OF assms] by (simp add: create_pipe_def)

theorem create_pipe_spec_witness:
  "pt_invar pt_new \<and> fst (create_pipe pt_new) = Some 0 \<and> pt_abs (snd (create_pipe pt_new)) 0 = Some ([], True, True)"
proof -
  have new: "pt_invar pt_new" by (simp add: pt_new_def pt_invar_def)
  have "fst (create_pipe pt_new) = Some 0" by (simp add: create_pipe_def pt_create_def pt_new_def MAX_PIPES_def)
  with create_pipe_spec [OF new] new show ?thesis by (auto split: prod.splits option.splits)
qed

end
