(* ===== verification/FileDesc.thy ===== *)
theory FileDesc
  imports Pipe
begin

text \<open>
  File descriptors (\<^verbatim>\<open>src/syscall/filedesc.rs\<close>): the table of one process, the kernel's own
  table, the tables of all processes keyed by pid, and the routines that pick the table of
  the running process. Closing a descriptor reaches into the pipe table, which is therefore
  part of the state. Indexing \<open>files[fd]\<close> is checked (\<open>Panic\<close> out of range); offsets and file
  sizes are 64-bit words because \<open>lseek\<close> adds untrusted values to them.
\<close>

section \<open>The table of one process\<close>

abbreviation (input) STDIN :: nat where "STDIN \<equiv> 0"
abbreviation (input) STDOUT :: nat where "STDOUT \<equiv> 1"
abbreviation (input) STDERR :: nat where "STDERR \<equiv> 2"

definition MAX_OPEN_FILES :: nat where "MAX_OPEN_FILES = 256"

abbreviation (input) O_RDONLY :: u64 where "O_RDONLY \<equiv> 0x0000"
abbreviation (input) O_WRONLY :: u64 where "O_WRONLY \<equiv> 0x0001"
abbreviation (input) O_RDWR :: u64 where "O_RDWR \<equiv> 0x0002"
abbreviation (input) O_CREAT :: u64 where "O_CREAT \<equiv> 0x0040"
abbreviation (input) O_TRUNC :: u64 where "O_TRUNC \<equiv> 0x0200"
abbreviation (input) O_APPEND :: u64 where "O_APPEND \<equiv> 0x0400"

datatype file_kind = Regular | PipeRead nat | PipeWrite nat

record open_file =
  of_path :: string
  of_flags :: u64
  of_offset :: u64
  of_is_open :: bool
  of_kind :: file_kind

definition of_new :: "string \<Rightarrow> u64 \<Rightarrow> open_file" where
  "of_new path flags = \<lparr>of_path = path, of_flags = flags, of_offset = 0, of_is_open = True, of_kind = Regular\<rparr>"

definition of_new_pipe_read :: "nat \<Rightarrow> open_file" where
  "of_new_pipe_read pipe_id =
     \<lparr>of_path = ''[pipe]'', of_flags = O_RDONLY, of_offset = 0, of_is_open = True, of_kind = PipeRead pipe_id\<rparr>"

definition of_new_pipe_write :: "nat \<Rightarrow> open_file" where
  "of_new_pipe_write pipe_id =
     \<lparr>of_path = ''[pipe]'', of_flags = O_WRONLY, of_offset = 0, of_is_open = True, of_kind = PipeWrite pipe_id\<rparr>"

record fd_table =
  fdt_files :: "open_file option list"

definition fdt_new :: fd_table where "fdt_new = \<lparr>fdt_files = []\<rparr>"

text \<open>\<open>self.files[fd]\<close>, read and written.\<close>

definition fdt_at :: "fd_table \<Rightarrow> nat \<Rightarrow> open_file option outcome" where
  "fdt_at t fd = (if fd < length (fdt_files t) then Done (fdt_files t ! fd) else Panic)"

definition fdt_put :: "fd_table \<Rightarrow> nat \<Rightarrow> open_file option \<Rightarrow> fd_table outcome" where
  "fdt_put t fd s =
     (if fd < length (fdt_files t) then Done (t\<lparr>fdt_files := (fdt_files t)[fd := s]\<rparr>) else Panic)"

text \<open>\<open>Vec::resize_with\<close> truncates or pads with \<open>None\<close>.\<close>

definition fdt_init :: "fd_table \<Rightarrow> fd_table outcome" where
  "fdt_init t =
     (let t1 = t\<lparr>fdt_files := take MAX_OPEN_FILES (fdt_files t)
                   @ replicate (MAX_OPEN_FILES - length (fdt_files t)) None\<rparr> in
      obind (fdt_put t1 STDIN (Some (of_new ''/dev/stdin'' O_RDONLY))) (\<lambda>t2.
      obind (fdt_put t2 STDOUT (Some (of_new ''/dev/stdout'' O_WRONLY))) (\<lambda>t3.
      fdt_put t3 STDERR (Some (of_new ''/dev/stderr'' O_WRONLY)))))"

definition fdt_with_stdio :: "fd_table outcome" where
  "fdt_with_stdio = fdt_init \<lparr>fdt_files = []\<rparr>"

definition of_clone :: "open_file \<Rightarrow> open_file" where
  "of_clone f = \<lparr>of_path = of_path f, of_flags = of_flags f, of_offset = of_offset f,
     of_is_open = of_is_open f, of_kind = of_kind f\<rparr>"

definition clone_table :: "fd_table \<Rightarrow> fd_table" where
  "clone_table t = \<lparr>fdt_files = map (map_option of_clone) (fdt_files t)\<rparr>"

text \<open>
  The scan \<open>for fd in 3..MAX_OPEN_FILES\<close> that \<open>open\<close>, \<open>dup\<close>, \<open>open_pipe_read\<close> and
  \<open>open_pipe_write\<close> share: the first empty slot takes the entry.
\<close>

fun fdt_scan :: "fd_table \<Rightarrow> open_file \<Rightarrow> nat list \<Rightarrow> (nat option \<times> fd_table) outcome" where
  "fdt_scan t f [] = Done (None, t)"
| "fdt_scan t f (fd # fds) =
     obind (fdt_at t fd) (\<lambda>s.
       if s = None then obind (fdt_put t fd (Some f)) (\<lambda>t'. Done (Some fd, t'))
       else fdt_scan t f fds)"

definition fdt_install :: "fd_table \<Rightarrow> open_file \<Rightarrow> (nat option \<times> fd_table) outcome" where
  "fdt_install t f = fdt_scan t f [3..<MAX_OPEN_FILES]"

definition fdt_open :: "fd_table \<Rightarrow> string \<Rightarrow> u64 \<Rightarrow> (nat option \<times> fd_table) outcome" where
  "fdt_open t path flags = fdt_install t (of_new path flags)"

definition close_with_pipe_cleanup :: "fd_table \<Rightarrow> pipe_table \<Rightarrow> nat \<Rightarrow> (fd_table \<times> pipe_table) outcome" where
  "close_with_pipe_cleanup t pt fd =
     (if MAX_OPEN_FILES \<le> fd then Done (t, pt)
      else obind (fdt_at t fd) (\<lambda>s. case s of
          None \<Rightarrow> Done (t, pt)
        | Some file \<Rightarrow>
            obind (fdt_put t fd None) (\<lambda>t'. Done (t',
              case of_kind file of
                PipeRead i \<Rightarrow> pipe_close_read pt i
              | PipeWrite i \<Rightarrow> pipe_close_write pt i
              | Regular \<Rightarrow> pt))))"

definition fdt_close :: "fd_table \<Rightarrow> pipe_table \<Rightarrow> nat \<Rightarrow> (bool \<times> fd_table \<times> pipe_table) outcome" where
  "fdt_close t pt fd =
     (if fd < 3 \<or> MAX_OPEN_FILES \<le> fd then Done (False, t, pt)
      else obind (fdt_at t fd) (\<lambda>s.
        if s \<noteq> None then obind (close_with_pipe_cleanup t pt fd) (\<lambda>(t', pt'). Done (True, t', pt'))
        else Done (False, t, pt)))"

definition fdt_get :: "fd_table \<Rightarrow> nat \<Rightarrow> open_file option outcome" where
  "fdt_get t fd = (if fd < MAX_OPEN_FILES then fdt_at t fd else Done None)"

definition fdt_is_valid :: "fd_table \<Rightarrow> nat \<Rightarrow> bool outcome" where
  "fdt_is_valid t fd =
     (if MAX_OPEN_FILES \<le> fd then Done False
      else obind (fdt_at t fd) (\<lambda>s. Done (case s of None \<Rightarrow> False | Some f \<Rightarrow> of_is_open f)))"

text \<open>The entry \<open>dup\<close> and \<open>dup2\<close> build from the old one: the same file, marked open.\<close>

definition of_dup :: "open_file \<Rightarrow> open_file" where
  "of_dup f = \<lparr>of_path = of_path f, of_flags = of_flags f, of_offset = of_offset f,
     of_is_open = True, of_kind = of_kind f\<rparr>"

definition fdt_dup :: "fd_table \<Rightarrow> nat \<Rightarrow> (nat option \<times> fd_table) outcome" where
  "fdt_dup t old_fd =
     obind (fdt_is_valid t old_fd) (\<lambda>v.
       if \<not> v then Done (None, t)
       else obind (fdt_at t old_fd) (\<lambda>s. case s of
           None \<Rightarrow> Panic
         | Some f \<Rightarrow> fdt_install t (of_dup f)))"

definition fdt_dup2 :: "fd_table \<Rightarrow> pipe_table \<Rightarrow> nat \<Rightarrow> nat \<Rightarrow> (nat option \<times> fd_table \<times> pipe_table) outcome" where
  "fdt_dup2 t pt old_fd new_fd =
     obind (fdt_is_valid t old_fd) (\<lambda>v.
       if \<not> v \<or> MAX_OPEN_FILES \<le> new_fd then Done (None, t, pt)
       else if old_fd = new_fd then Done (Some new_fd, t, pt)
       else obind (close_with_pipe_cleanup t pt new_fd) (\<lambda>(t1, pt1).
         obind (fdt_at t1 old_fd) (\<lambda>s. case s of
             None \<Rightarrow> Panic
           | Some f \<Rightarrow> obind (fdt_put t1 new_fd (Some (of_dup f))) (\<lambda>t2. Done (Some new_fd, t2, pt1)))))"

definition open_pipe_read :: "fd_table \<Rightarrow> nat \<Rightarrow> (nat option \<times> fd_table) outcome" where
  "open_pipe_read t pipe_id = fdt_install t (of_new_pipe_read pipe_id)"

definition open_pipe_write :: "fd_table \<Rightarrow> nat \<Rightarrow> (nat option \<times> fd_table) outcome" where
  "open_pipe_write t pipe_id = fdt_install t (of_new_pipe_write pipe_id)"

text \<open>
  \<open>lseek\<close>. The offset is an \<open>isize\<close>; negating its least value overflows, and so may the
  additions, with the effect the build profile gives it.
\<close>

definition neg_isize :: "profile \<Rightarrow> u64 \<Rightarrow> u64 outcome" where
  "neg_isize pf off = (if pf = Dev \<and> sint off = - (2 ^ 63) then Panic else Done (- off))"

definition checked_sub :: "u64 \<Rightarrow> u64 \<Rightarrow> u64 option" where
  "checked_sub a b = (if b \<le> a then Some (a - b) else None)"

definition seek_from :: "profile \<Rightarrow> u64 \<Rightarrow> u64 \<Rightarrow> u64 option outcome" where
  "seek_from pf base off =
     (if sint off < 0 then obind (neg_isize pf off) (\<lambda>m. Done (checked_sub base m))
      else obind (add_checked pf base off) (\<lambda>r. Done (Some r)))"

definition fdt_lseek :: "profile \<Rightarrow> fd_table \<Rightarrow> nat \<Rightarrow> u64 \<Rightarrow> u64 \<Rightarrow> u64 \<Rightarrow> (u64 option \<times> fd_table) outcome" where
  "fdt_lseek pf t fd off whence file_size =
     obind (fdt_at t fd) (\<lambda>s. case s of
         None \<Rightarrow> Done (None, t)
       | Some file \<Rightarrow>
           obind (if whence = 0 then Done (if sint off < 0 then None else Some off)
                  else if whence = 1 then seek_from pf (of_offset file) off
                  else if whence = 2 then seek_from pf file_size off
                  else Done None) (\<lambda>r. case r of
               None \<Rightarrow> Done (None, t)
             | Some n \<Rightarrow> obind (fdt_put t fd (Some (file\<lparr>of_offset := n\<rparr>))) (\<lambda>t'. Done (Some n, t'))))"

section \<open>The tables of the kernel and of every process\<close>

record fd_state =
  KERNEL_FD_TABLE :: fd_table
  PROCESS_FD_TABLES :: "nat \<rightharpoonup> fd_table"
  PIPE_TABLE :: pipe_table

definition filedesc_init :: "fd_state \<Rightarrow> fd_state outcome" where
  "filedesc_init s = obind (fdt_init (KERNEL_FD_TABLE s)) (\<lambda>t. Done (s\<lparr>KERNEL_FD_TABLE := t\<rparr>))"

definition register_process :: "nat \<Rightarrow> fd_table \<Rightarrow> fd_state \<Rightarrow> fd_state" where
  "register_process pid t s = s\<lparr>PROCESS_FD_TABLES := (PROCESS_FD_TABLES s)(pid \<mapsto> t)\<rparr>"

definition unregister_process :: "nat \<Rightarrow> fd_state \<Rightarrow> fd_state" where
  "unregister_process pid s = s\<lparr>PROCESS_FD_TABLES := (PROCESS_FD_TABLES s)(pid := None)\<rparr>"

definition clone_process_fds :: "nat \<Rightarrow> nat \<Rightarrow> fd_state \<Rightarrow> fd_state" where
  "clone_process_fds parent_pid child_pid s =
     (case PROCESS_FD_TABLES s parent_pid of
        None \<Rightarrow> s
      | Some t \<Rightarrow> s\<lparr>PROCESS_FD_TABLES := (PROCESS_FD_TABLES s)(child_pid \<mapsto> clone_table t)\<rparr>)"

text \<open>
  \<open>with_fd_table\<close> and \<open>get_fd_table\<close> select the table of the current process if it has one and
  the kernel's table otherwise; the closure works on that table (and on the pipe table).
\<close>

definition current_table :: "nat option \<Rightarrow> fd_state \<Rightarrow> fd_table" where
  "current_table cur s =
     (case cur of None \<Rightarrow> KERNEL_FD_TABLE s
      | Some pid \<Rightarrow> (case PROCESS_FD_TABLES s pid of None \<Rightarrow> KERNEL_FD_TABLE s | Some t \<Rightarrow> t))"

definition store_current :: "nat option \<Rightarrow> fd_table \<Rightarrow> fd_state \<Rightarrow> fd_state" where
  "store_current cur t s =
     (case cur of None \<Rightarrow> s\<lparr>KERNEL_FD_TABLE := t\<rparr>
      | Some pid \<Rightarrow> (case PROCESS_FD_TABLES s pid of
            None \<Rightarrow> s\<lparr>KERNEL_FD_TABLE := t\<rparr>
          | Some _ \<Rightarrow> s\<lparr>PROCESS_FD_TABLES := (PROCESS_FD_TABLES s)(pid \<mapsto> t)\<rparr>))"

definition with_fd_table ::
  "nat option \<Rightarrow> (fd_table \<Rightarrow> pipe_table \<Rightarrow> ('r \<times> fd_table \<times> pipe_table) outcome) \<Rightarrow> fd_state \<Rightarrow> ('r \<times> fd_state) outcome" where
  "with_fd_table cur f s =
     obind (f (current_table cur s) (PIPE_TABLE s)) (\<lambda>(r, t, pt).
       Done (r, store_current cur t (s\<lparr>PIPE_TABLE := pt\<rparr>)))"

section \<open>Well-formed tables\<close>

text \<open>
  After \<open>init\<close> a table has 256 slots, the three standard streams are present, and every entry is
  marked open. \<open>fdt_slot\<close> reads a table as a partial map.
\<close>

definition fdt_invar :: "fd_table \<Rightarrow> bool" where
  "fdt_invar t \<longleftrightarrow> length (fdt_files t) = MAX_OPEN_FILES
     \<and> (\<forall>fd < 3. fdt_files t ! fd \<noteq> None) \<and> (\<forall>f. Some f \<in> set (fdt_files t) \<longrightarrow> of_is_open f)"

definition fdt_slot :: "fd_table \<Rightarrow> nat \<Rightarrow> open_file option" where
  "fdt_slot t fd = (if fd < MAX_OPEN_FILES then fdt_files t ! fd else None)"

lemma three_le_max [simp]: "3 \<le> MAX_OPEN_FILES" "fd < 3 \<Longrightarrow> fd < MAX_OPEN_FILES"
  by (simp_all add: MAX_OPEN_FILES_def)

lemma fdt_invar_length [simp]: "fdt_invar t \<Longrightarrow> length (fdt_files t) = MAX_OPEN_FILES"
  by (simp add: fdt_invar_def)

lemma fdt_at_slot [simp]: "fdt_invar t \<Longrightarrow> fd < MAX_OPEN_FILES \<Longrightarrow> fdt_at t fd = Done (fdt_slot t fd)"
  by (simp add: fdt_at_def fdt_slot_def)

lemma fdt_slot_open: "fdt_invar t \<Longrightarrow> fdt_slot t fd = Some f \<Longrightarrow> of_is_open f"
  by (auto simp: fdt_slot_def fdt_invar_def split: if_splits) (metis nth_mem)

lemma fdt_slot_stdio: "fdt_invar t \<Longrightarrow> fd < 3 \<Longrightarrow> fdt_slot t fd \<noteq> None"
  by (simp add: fdt_slot_def fdt_invar_def)

lemma fdt_slot_range: "fdt_slot t fd = Some f \<Longrightarrow> fd < MAX_OPEN_FILES"
  by (simp add: fdt_slot_def split: if_splits)

lemma fdt_put_spec:
  assumes "fdt_invar t" and "fd < MAX_OPEN_FILES"
    and "s = None \<Longrightarrow> 3 \<le> fd" and "\<And>f. s = Some f \<Longrightarrow> of_is_open f"
  shows "\<exists>t'. fdt_put t fd s = Done t' \<and> fdt_invar t' \<and> fdt_slot t' = (fdt_slot t)(fd := s)"
  using assms
  by (cases s) (auto simp: fdt_put_def fdt_invar_def fdt_slot_def fun_eq_iff nth_list_update
      dest!: set_update_subset_insert [THEN subsetD])

lemma fdt_is_valid_slot [simp]:
  "fdt_invar t \<Longrightarrow> fdt_is_valid t fd = Done (fdt_slot t fd \<noteq> None)"
  by (auto simp: fdt_is_valid_def split: option.split dest: fdt_slot_open) (simp add: fdt_slot_def)

lemma three_updates:
  "x \<in> set (xs[0 := a, Suc 0 := b, 2 := c]) \<Longrightarrow> x \<in> {a, b, c} \<union> set xs"
  by (auto dest!: set_update_subset_insert [THEN subsetD])

lemma three_updates_nth:
  "3 \<le> length xs \<Longrightarrow> fd < 3 \<Longrightarrow> xs[0 := Some a, Suc 0 := Some b, 2 := Some c] ! fd \<noteq> None"
  by (auto simp: nth_list_update less_Suc_eq numeral_3_eq_3 numeral_2_eq_2 simp del: length_greater_0_conv)

lemma fdt_init_invar:
  assumes "\<And>f. Some f \<in> set (fdt_files t) \<Longrightarrow> of_is_open f"
  shows "\<exists>t'. fdt_init t = Done t' \<and> fdt_invar t'"
proof -
  define fs where "fs = take MAX_OPEN_FILES (fdt_files t) @ replicate (MAX_OPEN_FILES - length (fdt_files t)) None"
  let ?gs = "fs[0 := Some (of_new ''/dev/stdin'' O_RDONLY), Suc 0 := Some (of_new ''/dev/stdout'' O_WRONLY),
    2 := Some (of_new ''/dev/stderr'' O_WRONLY)]"
  have len: "length fs = MAX_OPEN_FILES" by (simp add: fs_def)
  then have three: "0 < length fs" "Suc 0 < length fs" "2 < length fs" "3 \<le> length fs"
    by (simp_all add: MAX_OPEN_FILES_def)
  have "\<forall>f. Some f \<in> set fs \<longrightarrow> of_is_open f"
    using assms by (auto simp: fs_def dest: in_set_takeD)
  then have "of_is_open f" if "Some f \<in> set ?gs" for f
    using three_updates [OF that] by (auto simp: of_new_def)
  moreover have "fdt_init t = Done (t\<lparr>fdt_files := ?gs\<rparr>)"
    using three by (simp add: fdt_init_def fdt_put_def flip: fs_def)
  moreover have "\<forall>fd < 3. ?gs ! fd \<noteq> None" using three_updates_nth [OF three(4)] by blast
  ultimately show ?thesis using len by (simp add: fdt_invar_def)
qed

lemma fdt_with_stdio_invar: "\<exists>t. fdt_with_stdio = Done t \<and> fdt_invar t"
  unfolding fdt_with_stdio_def by (rule fdt_init_invar) simp

lemma fdt_clone_id [simp]: "clone_table t = t"
proof -
  have "of_clone = id" by (simp add: fun_eq_iff of_clone_def)
  then show ?thesis by (simp add: clone_table_def option.map_id0)
qed

section \<open>Allocation of descriptors\<close>

lemma fdt_scan_find:
  "fdt_invar t \<Longrightarrow> \<forall>fd \<in> set fds. fd < MAX_OPEN_FILES \<Longrightarrow> fdt_scan t f fds =
     (case find (\<lambda>fd. fdt_slot t fd = None) fds of
        None \<Rightarrow> Done (None, t)
      | Some fd \<Rightarrow> obind (fdt_put t fd (Some f)) (\<lambda>t'. Done (Some fd, t')))"
  by (induction fds) auto

definition fdt_free :: "fd_table \<Rightarrow> nat option" where
  "fdt_free t = find (\<lambda>fd. fdt_slot t fd = None) [3..<MAX_OPEN_FILES]"

lemma fdt_free_None: "fdt_free t = None \<longleftrightarrow> (\<forall>fd. 3 \<le> fd \<and> fd < MAX_OPEN_FILES \<longrightarrow> fdt_slot t fd \<noteq> None)"
  by (auto simp: fdt_free_def find_None_iff)

lemma fdt_free_Some:
  assumes "fdt_free t = Some fd"
  shows "3 \<le> fd \<and> fd < MAX_OPEN_FILES \<and> fdt_slot t fd = None \<and> (\<forall>j. 3 \<le> j \<and> j < fd \<longrightarrow> fdt_slot t j \<noteq> None)"
proof -
  from assms obtain i where i: "i < MAX_OPEN_FILES - 3" "fd = 3 + i" "fdt_slot t fd = None"
      and before: "\<forall>j < i. fdt_slot t (3 + j) \<noteq> None"
    by (auto simp: fdt_free_def find_Some_iff)
  have "fdt_slot t j \<noteq> None" if "3 \<le> j" "j < fd" for j
    using before [rule_format, of "j - 3"] that i by simp
  with i show ?thesis by auto
qed

lemma fdt_install_spec:
  assumes "fdt_invar t" and "of_is_open f"
  shows "\<exists>t'. fdt_install t f = Done (fdt_free t, t') \<and> fdt_invar t'
    \<and> fdt_slot t' = (case fdt_free t of None \<Rightarrow> fdt_slot t | Some fd \<Rightarrow> (fdt_slot t)(fd \<mapsto> f))"
proof (cases "fdt_free t")
  case None
  then show ?thesis using assms by (auto simp: fdt_install_def fdt_scan_find fdt_free_def)
next
  case (Some fd)
  then obtain t' where "fdt_put t fd (Some f) = Done t'" "fdt_invar t'" "fdt_slot t' = (fdt_slot t)(fd \<mapsto> f)"
    using fdt_put_spec [of t fd "Some f"] assms fdt_free_Some by blast
  then show ?thesis using Some assms by (auto simp: fdt_install_def fdt_scan_find fdt_free_def)
qed

text \<open>Descriptor tables and the pipe table hand out slots by the same contract.\<close>

definition fdt_alloc :: "fd_table \<Rightarrow> open_file \<Rightarrow> nat option \<times> fd_table" where
  "fdt_alloc t f = (case fdt_install t f of Done r \<Rightarrow> r | _ \<Rightarrow> (None, t))"

lemma fdt_alloc_spec:
  assumes "fdt_invar t" and "of_is_open f"
  shows "fst (fdt_alloc t f) = fdt_free t" and "fdt_invar (snd (fdt_alloc t f))"
    and "fdt_free t = Some fd \<Longrightarrow> fdt_slot (snd (fdt_alloc t f)) = (fdt_slot t)(fd \<mapsto> f)"
  using fdt_install_spec [OF assms] by (auto simp: fdt_alloc_def)

lemma fdt_alloc_failed: "fdt_invar t \<Longrightarrow> fdt_alloc t f = (None, t') \<Longrightarrow> t' = t"
  by (auto simp: fdt_alloc_def fdt_install_def fdt_scan_find obind_eq_Done_iff
      split: outcome.splits option.splits)

interpretation fd_slots: slot_allocator fdt_slot fdt_alloc 3 MAX_OPEN_FILES fdt_invar of_is_open
proof unfold_locales
  fix s and v :: open_file assume s: "fdt_invar s" "of_is_open v"
  show "(fst (fdt_alloc s v) = None) \<longleftrightarrow> (\<forall>i. 3 \<le> i \<and> i < MAX_OPEN_FILES \<longrightarrow> fdt_slot s i \<noteq> None)"
    using fdt_alloc_spec(1) [OF s] fdt_free_None by simp
next
  fix s s' and v :: open_file assume "fdt_invar s" "of_is_open v" "fdt_alloc s v = (None, s')"
  then show "s' = s" by (rule_tac fdt_alloc_failed)
next
  fix s i s' and v :: open_file assume s: "fdt_invar s" "of_is_open v" and a: "fdt_alloc s v = (Some i, s')"
  have free: "fdt_free s = Some i" using fdt_alloc_spec(1) [OF s] a by simp
  show "3 \<le> i \<and> i < MAX_OPEN_FILES \<and> fdt_slot s i = None \<and> (\<forall>j. 3 \<le> j \<and> j < i \<longrightarrow> fdt_slot s j \<noteq> None)"
    using fdt_free_Some [OF free] .
  show "fdt_slot s' = (fdt_slot s)(i \<mapsto> v)" using fdt_alloc_spec(3) [OF s free] a by simp
  show "fdt_invar s'" using fdt_alloc_spec(2) [OF s] a by simp
qed

section \<open>The abstract descriptor table\<close>

text \<open>
  Abstractly the state is a partial map of open files beside the partial map of pipes.
\<close>

datatype fd_call = FOpen string u64 | FPipeRead nat | FPipeWrite nat | FClose nat | FDup nat | FDup2 nat nat

datatype fd_reply = RFd "nat option" | RClosed bool

fun fd_step :: "fd_call \<Rightarrow> fd_table \<times> pipe_table \<Rightarrow> (fd_reply \<times> fd_table \<times> pipe_table) outcome" where
  "fd_step (FOpen path flags) (t, pt) = obind (fdt_open t path flags) (\<lambda>(r, t'). Done (RFd r, t', pt))"
| "fd_step (FPipeRead i) (t, pt) = obind (open_pipe_read t i) (\<lambda>(r, t'). Done (RFd r, t', pt))"
| "fd_step (FPipeWrite i) (t, pt) = obind (open_pipe_write t i) (\<lambda>(r, t'). Done (RFd r, t', pt))"
| "fd_step (FClose fd) (t, pt) = obind (fdt_close t pt fd) (\<lambda>(r, t', pt'). Done (RClosed r, t', pt'))"
| "fd_step (FDup fd) (t, pt) = obind (fdt_dup t fd) (\<lambda>(r, t'). Done (RFd r, t', pt))"
| "fd_step (FDup2 fd fd') (t, pt) = obind (fdt_dup2 t pt fd fd') (\<lambda>(r, t', pt'). Done (RFd r, t', pt'))"

type_synonym afds = "(nat \<Rightarrow> open_file option) \<times> (nat \<Rightarrow> apipe option)"

definition fd_abs :: "fd_table \<times> pipe_table \<Rightarrow> afds" where
  "fd_abs = map_prod fdt_slot pt_abs"

definition afree :: "(nat \<Rightarrow> open_file option) \<Rightarrow> nat option" where
  "afree m = find (\<lambda>fd. m fd = None) [3..<MAX_OPEN_FILES]"

definition ainstall :: "open_file \<Rightarrow> afds \<Rightarrow> fd_reply \<times> afds" where
  "ainstall f = (\<lambda>(m, pm). (RFd (afree m), case afree m of None \<Rightarrow> m | Some fd \<Rightarrow> m(fd \<mapsto> f), pm))"

definition arelease :: "file_kind \<Rightarrow> (nat \<Rightarrow> apipe option) \<Rightarrow> nat \<Rightarrow> apipe option" where
  "arelease k pm = (case k of
       Regular \<Rightarrow> pm
     | PipeRead i \<Rightarrow> pm(i := Option.bind (pm i) (aclose True False))
     | PipeWrite i \<Rightarrow> pm(i := Option.bind (pm i) (aclose False True)))"

definition aclear :: "nat \<Rightarrow> afds \<Rightarrow> afds" where
  "aclear fd = (\<lambda>(m, pm). case m fd of None \<Rightarrow> (m, pm) | Some f \<Rightarrow> (m(fd := None), arelease (of_kind f) pm))"

fun afd_step :: "fd_call \<Rightarrow> afds \<Rightarrow> fd_reply \<times> afds" where
  "afd_step (FOpen path flags) s = ainstall (of_new path flags) s"
| "afd_step (FPipeRead i) s = ainstall (of_new_pipe_read i) s"
| "afd_step (FPipeWrite i) s = ainstall (of_new_pipe_write i) s"
| "afd_step (FClose fd) s =
     (if fd < 3 \<or> fst s fd = None then (RClosed False, s) else (RClosed True, aclear fd s))"
| "afd_step (FDup fd) s =
     (case fst s fd of None \<Rightarrow> (RFd None, s) | Some f \<Rightarrow> ainstall (of_dup f) s)"
| "afd_step (FDup2 fd fd') s =
     (case fst s fd of
        None \<Rightarrow> (RFd None, s)
      | Some f \<Rightarrow>
          if MAX_OPEN_FILES \<le> fd' then (RFd None, s)
          else if fd = fd' then (RFd (Some fd'), s)
          else (case aclear fd' s of (m, pm) \<Rightarrow> (RFd (Some fd'), m(fd' \<mapsto> of_dup f), pm)))"

definition fds_invar :: "fd_table \<times> pipe_table \<Rightarrow> bool" where
  "fds_invar = (\<lambda>(t, pt). fdt_invar t \<and> pt_invar pt)"

text \<open>One call is simulated: it returns, with the abstract reply, state and invariant.\<close>

definition fd_simulated :: "(fd_reply \<times> fd_table \<times> pipe_table) outcome \<Rightarrow> fd_reply \<times> afds \<Rightarrow> bool" where
  "fd_simulated c a \<longleftrightarrow> (\<exists>s'. c = Done (fst a, s') \<and> fds_invar s' \<and> fd_abs s' = snd a)"

lemma install_simulated:
  assumes "fds_invar (t, pt)" and "of_is_open f"
  shows "fd_simulated (obind (fdt_install t f) (\<lambda>(r, t'). Done (RFd r, t', pt))) (ainstall f (fd_abs (t, pt)))"
  using fdt_install_spec [of t f] assms
  by (auto simp: fd_simulated_def ainstall_def fds_invar_def fd_abs_def afree_def fdt_free_def split: option.splits)

lemma arelease_spec:
  fixes k :: file_kind
  assumes "pt_invar pt"
  defines "pt' \<equiv> (case k of PipeRead i \<Rightarrow> pipe_close_read pt i | PipeWrite i \<Rightarrow> pipe_close_write pt i | Regular \<Rightarrow> pt)"
  shows "pt_invar pt' \<and> pt_abs pt' = arelease k (pt_abs pt)"
  unfolding pt'_def
  using close_read_refines [OF assms(1)] close_write_refines [OF assms(1)] assms(1)
  by (cases k) (simp_all add: arelease_def)

lemma cleanup_spec:
  assumes "fds_invar (t, pt)" and "3 \<le> fd" and "fdt_slot t fd = Some f"
  shows "\<exists>s'. close_with_pipe_cleanup t pt fd = Done s' \<and> fds_invar s' \<and> fd_abs s' = aclear fd (fd_abs (t, pt))"
proof -
  have fd: "fd < MAX_OPEN_FILES" using fdt_slot_range assms(3) .
  then obtain t' where "fdt_put t fd None = Done t'" "fdt_invar t'" "fdt_slot t' = (fdt_slot t)(fd := None)"
    using fdt_put_spec [of t fd None] assms by (auto simp: fds_invar_def)
  with fd assms arelease_spec [of pt "of_kind f"] show ?thesis
    by (simp add: close_with_pipe_cleanup_def fds_invar_def fd_abs_def aclear_def)
qed

lemma close_simulated:
  "fds_invar s \<Longrightarrow> fd_simulated (fd_step (FClose fd) s) (afd_step (FClose fd) (fd_abs s))"
proof (cases s)
  case (Pair t pt)
  assume inv: "fds_invar s"
  then have t: "fdt_invar t" "fds_invar (t, pt)" using Pair by (auto simp: fds_invar_def)
  consider "fd < 3 \<or> MAX_OPEN_FILES \<le> fd \<or> fdt_slot t fd = None" | f where "3 \<le> fd" "fd < MAX_OPEN_FILES" "fdt_slot t fd = Some f"
    by fastforce
  then show ?thesis
  proof cases
    case 1
    then have "fd < 3 \<or> fdt_slot t fd = None" by (auto simp: fdt_slot_def)
    with 1 t Pair show ?thesis by (auto simp: fd_simulated_def fdt_close_def fd_abs_def)
  next
    case 2
    from cleanup_spec [OF t(2) 2(1,3)] 2 t Pair show ?thesis
      by (auto simp: fd_simulated_def fdt_close_def fd_abs_def)
  qed
qed

text \<open>
  \<open>dup2\<close> empties the target slot before it fills it again, so the table is briefly without a
  standard stream when the target is one; the two writes together are a single one.
\<close>

lemma cleanup_then_put:
  assumes "fdt_invar t" and "new < MAX_OPEN_FILES" and "close_with_pipe_cleanup t pt new = Done (t1, pt1)"
  shows "fdt_put t1 new x = fdt_put t new x" and "fd \<noteq> new \<Longrightarrow> fdt_at t1 fd = fdt_at t fd"
  using assms
  by (auto simp: close_with_pipe_cleanup_def fdt_put_def fdt_at_def split: option.splits)

lemma cleanup_pipes:
  assumes "fds_invar (t, pt)" and "new < MAX_OPEN_FILES"
  shows "\<exists>t1 pt1. close_with_pipe_cleanup t pt new = Done (t1, pt1) \<and> pt_invar pt1
    \<and> pt_abs pt1 = snd (aclear new (fd_abs (t, pt)))"
  using assms arelease_spec [of pt]
  by (auto simp: close_with_pipe_cleanup_def fds_invar_def fd_abs_def aclear_def fdt_put_def split: option.splits)

lemma dup2_simulated:
  "fds_invar s \<Longrightarrow> fd_simulated (fd_step (FDup2 old new) s) (afd_step (FDup2 old new) (fd_abs s))"
proof (cases s)
  case (Pair t pt)
  assume inv: "fds_invar s"
  then have t: "fdt_invar t" "fds_invar (t, pt)" using Pair by (auto simp: fds_invar_def)
  consider "fdt_slot t old = None \<or> MAX_OPEN_FILES \<le> new \<or> old = new"
    | f where "fdt_slot t old = Some f" "new < MAX_OPEN_FILES" "old \<noteq> new"
    by fastforce
  then show ?thesis
  proof cases
    case 1
    then show ?thesis using t Pair
      by (auto simp: fd_simulated_def fdt_dup2_def fd_abs_def split: option.split)
  next
    case 2
    obtain t1 pt1 where c: "close_with_pipe_cleanup t pt new = Done (t1, pt1)" "pt_invar pt1"
        "pt_abs pt1 = snd (aclear new (fd_abs (t, pt)))"
      using cleanup_pipes [OF t(2) 2(2)] by blast
    note same = cleanup_then_put [OF t(1) 2(2) c(1)]
    obtain t2 where "fdt_put t new (Some (of_dup f)) = Done t2" "fdt_invar t2"
        "fdt_slot t2 = (fdt_slot t)(new \<mapsto> of_dup f)"
      using fdt_put_spec [OF t(1) 2(2), of "Some (of_dup f)"] by (auto simp: of_dup_def)
    moreover have "(fst (aclear new (fd_abs (t, pt))))(new \<mapsto> of_dup f) = (fdt_slot t)(new \<mapsto> of_dup f)"
      by (auto simp: aclear_def fd_abs_def split: option.split)
    ultimately show ?thesis
      using 2 c t Pair same fdt_slot_range [OF 2(1)]
      by (auto simp: fd_simulated_def fdt_dup2_def fds_invar_def fd_abs_def case_prod_unfold)
  qed
qed

lemma fd_step_refines:
  assumes "fds_invar s"
  shows "fd_simulated (fd_step c s) (afd_step c (fd_abs s))"
proof (cases s)
  case (Pair t pt)
  have inv: "fds_invar (t, pt)" "fdt_invar t" using assms Pair by (auto simp: fds_invar_def)
  have dup: "fd_simulated (fd_step (FDup fd) s) (afd_step (FDup fd) (fd_abs s))" for fd
    using install_simulated [OF inv(1), of "of_dup f" for f] inv assms Pair fdt_slot_range [of t fd]
    by (cases "fdt_slot t fd") (auto simp: fdt_dup_def fd_abs_def fd_simulated_def of_dup_def)
  note install = install_simulated [OF inv(1)]
  show ?thesis
  proof (cases c)
    case (FClose fd)
    then show ?thesis using close_simulated [OF assms] by (simp only:)
  next
    case (FDup2 fd fd')
    then show ?thesis using dup2_simulated [OF assms] by (simp only:)
  next
    case (FDup fd)
    then show ?thesis using dup by (simp only:)
  qed (use Pair install in \<open>simp_all add: fdt_open_def open_pipe_read_def open_pipe_write_def
      of_new_def of_new_pipe_read_def of_new_pipe_write_def\<close>)
qed

fun fd_run :: "fd_call list \<Rightarrow> fd_table \<times> pipe_table \<Rightarrow> (fd_reply list \<times> fd_table \<times> pipe_table) outcome" where
  "fd_run [] s = Done ([], s)"
| "fd_run (c # cs) s = obind (fd_step c s) (\<lambda>(r, s'). obind (fd_run cs s') (\<lambda>(rs, s''). Done (r # rs, s'')))"

fun afd_run :: "fd_call list \<Rightarrow> afds \<Rightarrow> fd_reply list \<times> afds" where
  "afd_run [] s = ([], s)"
| "afd_run (c # cs) s = (case afd_step c s of (r, s') \<Rightarrow> case afd_run cs s' of (rs, s'') \<Rightarrow> (r # rs, s''))"

section \<open>Properties\<close>

text \<open>
  C3: from any well-formed descriptor table and pipe table, every sequence of open, close,
  dup, dup2 and pipe-end installations returns without an index panic, keeps both tables
  well-formed (256 slots, standard streams present, entries open) and gives the replies and the
  final contents of the abstract table, in which open and dup take the lowest free number from
  3, close refuses the standard streams, and dup2 releases its target first.
\<close>
theorem fd_run_refines:
  assumes "fds_invar s"
  shows "\<exists>s'. fd_run cs s = Done (fst (afd_run cs (fd_abs s)), s')
    \<and> fds_invar s' \<and> fd_abs s' = snd (afd_run cs (fd_abs s))"
  using assms
proof (induction cs arbitrary: s)
  case (Cons c cs)
  obtain s1 where 1: "fd_step c s = Done (fst (afd_step c (fd_abs s)), s1)" "fds_invar s1"
      "fd_abs s1 = snd (afd_step c (fd_abs s))"
    using fd_step_refines [OF Cons.prems, of c] unfolding fd_simulated_def by blast
  with Cons.IH [OF 1(2)] show ?case by (auto simp: case_prod_unfold)
qed simp

lemma empty_fds:
  assumes "fdt_with_stdio = Done t"
  shows "fds_invar (t, pt_new)"
proof -
  have "fdt_invar t" using fdt_with_stdio_invar assms by (metis outcome.inject)
  then show ?thesis by (simp add: fds_invar_def pt_invar_def pt_new_def)
qed

theorem fd_run_refines_witness:
  "\<exists>t. fdt_with_stdio = Done t \<and> fds_invar (t, pt_new)
     \<and> (\<exists>s'. fd_run [FClose 1, FClose 300] (t, pt_new) = Done ([RClosed False, RClosed False], s') \<and> fds_invar s')"
proof -
  obtain t where t: "fdt_with_stdio = Done t" using fdt_with_stdio_invar by blast
  have "fst (afd_run [FClose 1, FClose 300] (fd_abs (t, pt_new))) = [RClosed False, RClosed False]"
    by (simp add: fd_abs_def fdt_slot_def MAX_OPEN_FILES_def)
  with fd_run_refines [OF empty_fds [OF t], of "[FClose 1, FClose 300]"] t empty_fds show ?thesis by auto
qed

text \<open>
  Pipe ends are not reference counted. Duplicating the descriptor of a pipe's write end
  and closing the duplicate closes the write end of the pipe itself, although the original
  descriptor is still open and still refers to it.
\<close>
theorem dup_close_closes_pipe:
  assumes inv: "fdt_invar t" "pt_invar pt" and fd: "fdt_slot t fd = Some f" "of_kind f = PipeWrite i"
    and pipe: "pt_abs pt i = Some (bs, True, True)"
    and dup: "fdt_dup t fd = Done (Some fd', t1)"
  shows "\<exists>t2 pt2. fdt_close t1 pt fd' = Done (True, t2, pt2)
    \<and> fdt_slot t2 fd = Some f \<and> pipe_write_closed pt2 i"
proof -
  have fds: "fds_invar (t, pt)" using inv by (simp add: fds_invar_def)
  have "fd_simulated (fd_step (FDup fd) (t, pt)) (afd_step (FDup fd) (fd_abs (t, pt)))"
    by (rule fd_step_refines [OF fds])
  then have t1: "fds_invar (t1, pt)" "afree (fdt_slot t) = Some fd'" "fdt_slot t1 = (fdt_slot t)(fd' \<mapsto> of_dup f)"
    using dup fd by (auto simp: fd_simulated_def fd_abs_def ainstall_def split: option.splits)
  have fd': "3 \<le> fd'" "fdt_slot t fd' = None"
    using fdt_free_Some [of t fd'] t1(2) by (auto simp: fdt_free_def afree_def)
  have "fd_simulated (fd_step (FClose fd') (t1, pt)) (afd_step (FClose fd') (fd_abs (t1, pt)))"
    by (rule fd_step_refines [OF t1(1)])
  then obtain t2 pt2 where c: "fdt_close t1 pt fd' = Done (True, t2, pt2)"
      "fdt_slot t2 = (fdt_slot t1)(fd' := None)" "pt_abs pt2 = (pt_abs pt)(i \<mapsto> (bs, True, False))"
    using fd' t1(3) fd(2) pipe
    by (auto simp: fd_simulated_def fd_abs_def aclear_def arelease_def of_dup_def aclose_def obind_eq_Done_iff)
  from c(3) have "pt_abs pt2 i = Some (bs, True, False)" by simp
  then have "pipe_write_closed pt2 i"
    by (auto simp: pt_abs_def p_abs_def pipe_write_closed_def p_write_closed_def)
  moreover have "fdt_slot t2 fd = Some f" using c(2) t1(3) fd(1) fd'(2) by (auto simp: fun_eq_iff)
  ultimately show ?thesis using c(1) by blast
qed

theorem dup_close_closes_pipe_witness:
  "\<exists>t2 pt2. fdt_close \<lparr>fdt_files = [Some (of_new ''/dev/stdin'' O_RDONLY), Some (of_new ''/dev/stdout'' O_WRONLY),
       Some (of_new ''/dev/stderr'' O_WRONLY), Some (of_new_pipe_write 0), Some (of_new_pipe_write 0)] @ replicate 251 None\<rparr>
       (snd (pt_create pt_new)) 4 = Done (True, t2, pt2)
     \<and> fdt_slot t2 3 = Some (of_new_pipe_write 0) \<and> pipe_write_closed pt2 0"
proof -
  let ?fs = "[Some (of_new ''/dev/stdin'' O_RDONLY), Some (of_new ''/dev/stdout'' O_WRONLY),
    Some (of_new ''/dev/stderr'' O_WRONLY), Some (of_new_pipe_write 0)]"
  let ?t = "\<lparr>fdt_files = ?fs @ replicate 252 None\<rparr>"
  let ?pt = "snd (pt_create pt_new)"
  have t: "fdt_invar ?t"
    by (auto simp: fdt_invar_def MAX_OPEN_FILES_def less_Suc_eq numeral_3_eq_3 of_new_def of_new_pipe_write_def)
  have pt: "pt_invar ?pt" "pt_abs ?pt 0 = Some ([], True, True)"
    using pt_create_spec [of pt_new]
    by (auto simp: pt_create_def pt_new_def pt_invar_def MAX_PIPES_def pipe_new_invar pt_abs_def pt_get_def)
  have dup: "fdt_dup ?t 3 = Done (Some 4, \<lparr>fdt_files = ?fs @ Some (of_new_pipe_write 0) # replicate 251 None\<rparr>)"
    by code_simp
  have slot: "fdt_slot ?t 3 = Some (of_new_pipe_write 0)"
    by (simp add: fdt_slot_def MAX_OPEN_FILES_def)
  show ?thesis
    using dup_close_closes_pipe [OF t pt(1) slot _ pt(2) dup] by (simp add: of_new_pipe_write_def)
qed

text \<open>Both relative seeks add a signed offset to an unsigned base.\<close>

lemma uint_word_of_int_small: "0 \<le> n \<Longrightarrow> n < 2 ^ 64 \<Longrightarrow> uint (word_of_int n :: u64) = n"
  by (simp add: uint_word_of_int)

lemma uint_minus_neg: "sint (off :: u64) < 0 \<Longrightarrow> uint (- off) = - sint off"
  using uint_word_of_int_small [of "- sint off"] sint_greater_eq [of off] by simp

lemma uint_nonneg_sint: "0 \<le> sint (off :: u64) \<Longrightarrow> uint off = sint off"
  using uint_word_of_int_small [of "sint off"] sint_less [of off] by simp

lemma add_checked_int:
  "add_checked pf a b = (if pf = Dev \<and> 2 ^ 64 \<le> uint a + uint (b :: u64) then Panic else Done (a + b))"
proof -
  have "2 ^ 64 \<le> unat a + unat b \<longleftrightarrow> int (2 ^ 64) \<le> int (unat a + unat b)" by (simp only: of_nat_le_iff)
  then show ?thesis by (simp add: add_checked_def)
qed

lemma seek_from_int:
  assumes "pf = Dev \<Longrightarrow> sint off \<noteq> - (2 ^ 63)"
  shows "seek_from pf base off =
    (let n = uint base + sint off in
     if n < 0 then Done None else if n < 2 ^ 64 \<or> pf = Release then Done (Some (word_of_int n)) else Panic)"
proof (cases "sint off < 0")
  case True
  have "base - - off = word_of_int (uint base + sint off)" by simp
  moreover have "uint base < 2 ^ 64" using uint_lt2p [of base] by simp
  ultimately show ?thesis using True assms uint_minus_neg [OF True]
    by (auto simp: seek_from_def neg_isize_def checked_sub_def word_le_def Let_def)
next
  case False
  then have "uint off = sint off" using uint_nonneg_sint by simp
  moreover have "base + off = word_of_int (uint base + sint off)" by simp
  moreover have "0 \<le> uint base" by (rule unsigned_greater_eq)
  with False have "\<not> uint base + sint off < 0" by linarith
  ultimately show ?thesis using False
    by (cases pf) (auto simp: seek_from_def add_checked_int Let_def)
qed

text \<open>
  On an open descriptor and the three documented whence values, lseek moves the
  offset to base + offset computed over the integers (base 0, the current offset or the file
  size): a negative target is refused and changes nothing, a representable target is stored and
  returned, and a target of 2^64 or more panics in the dev profile and wraps in the release
  profile. The only excluded argument is the least isize in the dev profile, whose negation
  panics.
\<close>
theorem fdt_lseek_exact:
  fixes whence fsize :: u64
  assumes "fdt_invar t" and "fdt_slot t fd = Some f" and "whence \<in> {0, 1, 2}"
    and "pf = Dev \<Longrightarrow> sint off \<noteq> - (2 ^ 63)"
  defines "n \<equiv> (if whence = 0 then 0 else if whence = 1 then uint (of_offset f) else uint fsize) + sint off"
  shows "fdt_lseek pf t fd off whence fsize =
    (if n < 0 then Done (None, t)
     else if n < 2 ^ 64 \<or> pf = Release then
       Done (Some (word_of_int n), t\<lparr>fdt_files := (fdt_files t)[fd := Some (f\<lparr>of_offset := word_of_int n\<rparr>)]\<rparr>)
     else Panic)"
proof -
  have fd: "fd < MAX_OPEN_FILES" using fdt_slot_range assms(2) .
  have "sint off < 2 ^ 64" using sint_less [of off] by simp
  then have "(if whence = 0 then Done (if sint off < 0 then None else Some off)
      else if whence = 1 then seek_from pf (of_offset f) off
      else if whence = 2 then seek_from pf fsize off else Done None)
    = (if n < 0 then Done None else if n < 2 ^ 64 \<or> pf = Release then Done (Some (word_of_int n)) else Panic)"
    using assms(3) by (auto simp: n_def seek_from_int [OF assms(4)] Let_def)
  then show ?thesis using assms(1,2) fd
    by (simp add: fdt_lseek_def fdt_put_def)
qed

theorem fdt_lseek_exact_witness:
  "fdt_lseek Dev \<lparr>fdt_files = replicate 3 (Some (of_new ''f'' 0)) @ replicate 253 None\<rparr> 2 (- 4) 2 10
   = Done (Some 6, \<lparr>fdt_files = (replicate 3 (Some (of_new ''f'' 0)) @ replicate 253 None)
       [2 := Some ((of_new ''f'' 0)\<lparr>of_offset := 6\<rparr>)]\<rparr>)"
proof -
  let ?t = "\<lparr>fdt_files = replicate 3 (Some (of_new ''f'' 0)) @ replicate 253 None\<rparr>"
  have t: "fdt_invar ?t"
    by (auto simp: fdt_invar_def MAX_OPEN_FILES_def less_Suc_eq numeral_3_eq_3 of_new_def)
  have slot: "fdt_slot ?t 2 = Some (of_new ''f'' 0)"
    by (simp add: fdt_slot_def MAX_OPEN_FILES_def numeral_3_eq_3)
  show ?thesis using fdt_lseek_exact [OF t slot, of 2 Dev "- 4" 10] by simp
qed

end
