(* ===== verification/KernelStacks.thy ===== *)
theory KernelStacks
  imports Prelude
begin

text \<open>
  The pool of per-process kernel stacks and the saved CPU contexts
  (\<^verbatim>\<open>src/gdt.rs\<close>, \<open>KernelStackPool\<close>; \<^verbatim>\<open>src/process/context.rs\<close>). A stack slot is a guard page that
  stays unmapped followed by four mapped pages. Mapping the pages of a slot goes through the
  page-table crate and the frame allocator; its result (mapped, refused, or a panic) is an
  argument of the allocation.
\<close>

section \<open>Saved contexts\<close>

record cpu_context =
  cx_r15 :: u64
  cx_r14 :: u64
  cx_r13 :: u64
  cx_r12 :: u64
  cx_rbx :: u64
  cx_rbp :: u64
  cx_rip :: u64
  cx_rsp :: u64
  cx_rflags :: u64

definition context_new :: "u64 \<Rightarrow> u64 \<Rightarrow> cpu_context" where
  "context_new entry_point stack_pointer =
     \<lparr>cx_r15 = 0, cx_r14 = 0, cx_r13 = 0, cx_r12 = 0, cx_rbx = 0, cx_rbp = 0,
      cx_rip = entry_point, cx_rsp = stack_pointer, cx_rflags = 0x200\<rparr>"

definition context_default :: cpu_context where
  "context_default =
     \<lparr>cx_r15 = 0, cx_r14 = 0, cx_r13 = 0, cx_r12 = 0, cx_rbx = 0, cx_rbp = 0,
      cx_rip = 0, cx_rsp = 0, cx_rflags = 0x200\<rparr>"

record trap_frame =
  tf_r15 :: u64
  tf_r14 :: u64
  tf_r13 :: u64
  tf_r12 :: u64
  tf_r11 :: u64
  tf_r10 :: u64
  tf_r9 :: u64
  tf_r8 :: u64
  tf_rbp :: u64
  tf_rdi :: u64
  tf_rsi :: u64
  tf_rdx :: u64
  tf_rcx :: u64
  tf_rbx :: u64
  tf_rax :: u64
  tf_rip :: u64
  tf_cs :: u64
  tf_rflags :: u64
  tf_rsp :: u64
  tf_ss :: u64

definition trap_new_user :: "u64 \<Rightarrow> u64 \<Rightarrow> u64 \<Rightarrow> u64 \<Rightarrow> trap_frame" where
  "trap_new_user entry user_stack_top user_cs user_ss =
     \<lparr>tf_r15 = 0, tf_r14 = 0, tf_r13 = 0, tf_r12 = 0, tf_r11 = 0, tf_r10 = 0,
      tf_r9 = 0, tf_r8 = 0, tf_rbp = 0, tf_rdi = 0, tf_rsi = 0, tf_rdx = 0,
      tf_rcx = 0, tf_rbx = 0, tf_rax = 0,
      tf_rip = entry, tf_cs = user_cs, tf_rflags = 0x202, tf_rsp = user_stack_top, tf_ss = user_ss\<rparr>"

definition trap_empty :: trap_frame where
  "trap_empty =
     \<lparr>tf_r15 = 0, tf_r14 = 0, tf_r13 = 0, tf_r12 = 0, tf_r11 = 0, tf_r10 = 0,
      tf_r9 = 0, tf_r8 = 0, tf_rbp = 0, tf_rdi = 0, tf_rsi = 0, tf_rdx = 0,
      tf_rcx = 0, tf_rbx = 0, tf_rax = 0,
      tf_rip = 0, tf_cs = 0, tf_rflags = 0x202, tf_rsp = 0, tf_ss = 0\<rparr>"

definition trap_is_user :: "trap_frame \<Rightarrow> bool" where
  "trap_is_user tf \<longleftrightarrow> tf_cs tf AND 3 = 3"

section \<open>The stack pool\<close>

definition KERNEL_STACK_SIZE :: nat where "KERNEL_STACK_SIZE = 4096 * 4"
definition STACK_PAGES :: nat where "STACK_PAGES = KERNEL_STACK_SIZE div 4096"
definition MAX_PROCESSES :: nat where "MAX_PROCESSES = 64"
definition KSTACK_VIRT_BASE :: u64 where "KSTACK_VIRT_BASE = 0x555555550000"
definition PAGES_PER_SLOT :: nat where "PAGES_PER_SLOT = 1 + STACK_PAGES"

record stack_pool =
  in_use :: "bool list"

definition pool_new :: stack_pool where "pool_new = \<lparr>in_use = replicate MAX_PROCESSES False\<rparr>"

definition slot_guard_addr :: "nat \<Rightarrow> u64" where
  "slot_guard_addr slot = KSTACK_VIRT_BASE + of_nat slot * of_nat PAGES_PER_SLOT * 4096"

definition slot_stack_bottom :: "nat \<Rightarrow> u64" where
  "slot_stack_bottom slot = slot_guard_addr slot + 4096"

definition slot_stack_top :: "nat \<Rightarrow> u64" where
  "slot_stack_top slot = slot_stack_bottom slot + of_nat KERNEL_STACK_SIZE"

text \<open>
  \<open>allocate\<close> takes the first free slot and maps its pages; \<open>map_pages\<close> is the result of
  \<open>map_stack_pages\<close>.
\<close>

fun pool_scan :: "(nat \<Rightarrow> bool outcome) \<Rightarrow> stack_pool \<Rightarrow> nat list \<Rightarrow> ((u64 \<times> u64 \<times> nat) option \<times> stack_pool) outcome" where
  "pool_scan map_pages pool [] = Done (None, pool)"
| "pool_scan map_pages pool (i # is) =
     (if i < length (in_use pool) then
        (if \<not> in_use pool ! i then
           obind (map_pages i) (\<lambda>mapped.
             if \<not> mapped then Done (None, pool)
             else Done (Some (slot_stack_bottom i, slot_stack_top i, i), pool\<lparr>in_use := (in_use pool)[i := True]\<rparr>))
         else pool_scan map_pages pool is)
      else Panic)"

definition pool_allocate :: "(nat \<Rightarrow> bool outcome) \<Rightarrow> stack_pool \<Rightarrow> ((u64 \<times> u64 \<times> nat) option \<times> stack_pool) outcome" where
  "pool_allocate map_pages pool = pool_scan map_pages pool [0..<MAX_PROCESSES]"

definition pool_free :: "nat \<Rightarrow> stack_pool \<Rightarrow> stack_pool" where
  "pool_free slot pool =
     (if slot < MAX_PROCESSES \<and> in_use pool ! slot
      then pool\<lparr>in_use := (in_use pool)[slot := False]\<rparr> else pool)"

text \<open>The global pool is created on first use.\<close>

definition the_pool :: "stack_pool option \<Rightarrow> stack_pool" where
  "the_pool g = (case g of None \<Rightarrow> pool_new | Some p \<Rightarrow> p)"

definition allocate_kernel_stack ::
  "(nat \<Rightarrow> bool outcome) \<Rightarrow> stack_pool option \<Rightarrow> ((u64 \<times> nat) option \<times> stack_pool option) outcome" where
  "allocate_kernel_stack map_pages g =
     obind (pool_allocate map_pages (the_pool g)) (\<lambda>(r, pool).
       Done (map_option (\<lambda>(bottom, top, slot). (top, slot)) r, Some pool))"

definition free_kernel_stack :: "nat \<Rightarrow> stack_pool option \<Rightarrow> stack_pool option" where
  "free_kernel_stack slot g = Some (pool_free slot (the_pool g))"

definition kernel_stack_top :: "nat \<Rightarrow> u64" where
  "kernel_stack_top slot = slot_stack_top slot"

definition is_guard_page_address :: "u64 \<Rightarrow> bool" where
  "is_guard_page_address addr =
     (if addr < KSTACK_VIRT_BASE then False
      else
        let offset = addr - KSTACK_VIRT_BASE;
            slot_size = of_nat PAGES_PER_SLOT * 4096;
            total_region = slot_size * of_nat MAX_PROCESSES
        in if total_region \<le> offset then False else offset mod slot_size < 4096)"

section \<open>Layout of the slots\<close>

definition slot_base :: "nat \<Rightarrow> nat" where "slot_base slot = 0x555555550000 + slot * 20480"

lemmas kstack_consts = KERNEL_STACK_SIZE_def STACK_PAGES_def MAX_PROCESSES_def KSTACK_VIRT_BASE_def PAGES_PER_SLOT_def

lemma unat_slot_addrs:
  assumes "slot < MAX_PROCESSES"
  shows "unat (slot_guard_addr slot) = slot_base slot"
    and "unat (slot_stack_bottom slot) = slot_base slot + 4096"
    and "unat (slot_stack_top slot) = slot_base slot + 20480"
proof -
  have lt: "slot < 64" using assms by (simp add: kstack_consts)
  have g: "slot_guard_addr slot = of_nat (slot_base slot)"
    by (simp add: slot_guard_addr_def slot_base_def kstack_consts)
  moreover have "slot_stack_bottom slot = of_nat (slot_base slot + 4096)"
    by (simp add: slot_stack_bottom_def g)
  moreover have "slot_stack_top slot = of_nat (slot_base slot + 20480)"
    by (simp add: slot_stack_top_def slot_stack_bottom_def g kstack_consts)
  ultimately show "unat (slot_guard_addr slot) = slot_base slot"
      "unat (slot_stack_bottom slot) = slot_base slot + 4096"
      "unat (slot_stack_top slot) = slot_base slot + 20480"
    using lt by (simp_all only: unat_of_nat) (simp_all add: slot_base_def)
qed

lemma guard_page_unat:
  "is_guard_page_address a \<longleftrightarrow>
     0x555555550000 \<le> unat a \<and> unat a - 0x555555550000 < 20480 * 64 \<and> (unat a - 0x555555550000) mod 20480 < 4096"
proof (cases "a < 0x555555550000")
  case True
  then have "unat a < 0x555555550000" by (simp add: word_less_nat_alt)
  with True show ?thesis by (simp add: is_guard_page_address_def kstack_consts)
next
  case False
  then have le: "(0x555555550000 :: u64) \<le> a" by simp
  then have "unat (a - 0x555555550000) = unat a - 0x555555550000" by (subst unat_sub) simp_all
  with le show ?thesis
    by (simp add: is_guard_page_address_def kstack_consts word_le_nat_alt word_less_nat_alt unat_mod not_le Let_def)
qed

section \<open>Allocation\<close>

definition pool_invar :: "stack_pool \<Rightarrow> bool" where
  "pool_invar pool \<longleftrightarrow> length (in_use pool) = MAX_PROCESSES"

definition pool_taken :: "stack_pool \<Rightarrow> nat set" where
  "pool_taken pool = {i. i < MAX_PROCESSES \<and> in_use pool ! i}"

lemma pool_new_spec [simp]: "pool_invar pool_new" "pool_taken pool_new = {}"
  by (auto simp: pool_invar_def pool_new_def pool_taken_def)

lemma pool_scan_find:
  "pool_invar pool \<Longrightarrow> \<forall>i \<in> set is. i < MAX_PROCESSES \<Longrightarrow> pool_scan mp pool is =
     (case find (\<lambda>i. \<not> in_use pool ! i) is of
        None \<Rightarrow> Done (None, pool)
      | Some i \<Rightarrow> obind (mp i) (\<lambda>m. if \<not> m then Done (None, pool)
          else Done (Some (slot_stack_bottom i, slot_stack_top i, i), pool\<lparr>in_use := (in_use pool)[i := True]\<rparr>)))"
  by (induction "is") (auto simp: pool_invar_def)

definition pool_first :: "stack_pool \<Rightarrow> nat option" where
  "pool_first pool = find (\<lambda>i. \<not> in_use pool ! i) [0..<MAX_PROCESSES]"

lemma pool_first_Some:
  assumes "pool_first pool = Some i"
  shows "i < MAX_PROCESSES \<and> i \<notin> pool_taken pool \<and> (\<forall>j < i. j \<in> pool_taken pool)"
  using assms by (auto simp: pool_first_def find_Some_iff pool_taken_def)

lemma pool_first_None: "pool_first pool = None \<longleftrightarrow> {..<MAX_PROCESSES} \<subseteq> pool_taken pool"
  by (auto simp: pool_first_def find_None_iff pool_taken_def)

lemma pool_allocate_first:
  "pool_invar pool \<Longrightarrow> pool_allocate mp pool =
     (case pool_first pool of
        None \<Rightarrow> Done (None, pool)
      | Some i \<Rightarrow> obind (mp i) (\<lambda>m. if \<not> m then Done (None, pool)
          else Done (Some (slot_stack_bottom i, slot_stack_top i, i), pool\<lparr>in_use := (in_use pool)[i := True]\<rparr>)))"
  unfolding pool_allocate_def pool_first_def by (rule pool_scan_find) auto

lemma pool_take_slot:
  "pool_invar pool \<Longrightarrow> i < MAX_PROCESSES \<Longrightarrow> pool_invar (pool\<lparr>in_use := (in_use pool)[i := True]\<rparr>)
     \<and> pool_taken (pool\<lparr>in_use := (in_use pool)[i := True]\<rparr>) = insert i (pool_taken pool)"
  by (auto simp: pool_invar_def pool_taken_def nth_list_update)

lemma pool_allocate_SomeD:
  assumes "pool_invar pool" and "pool_allocate mp pool = Done (Some (b, t, i), pool')"
  shows "pool_invar pool' \<and> i < MAX_PROCESSES \<and> i \<notin> pool_taken pool \<and> pool_taken pool' = insert i (pool_taken pool)
    \<and> t = slot_stack_top i"
  using assms pool_take_slot [OF assms(1), of i] pool_first_Some [of pool i]
  by (auto simp: pool_allocate_first obind_eq_Done_iff split: option.splits if_splits)

lemma pool_allocate_NoneD: "pool_invar pool \<Longrightarrow> pool_allocate mp pool = Done (None, pool') \<Longrightarrow> pool' = pool"
  by (auto simp: pool_allocate_first obind_eq_Done_iff split: option.splits if_splits)

lemma pool_free_spec:
  "pool_invar pool \<Longrightarrow> pool_invar (pool_free i pool) \<and> pool_taken (pool_free i pool) = pool_taken pool - {i}"
  by (auto simp: pool_free_def pool_invar_def pool_taken_def nth_list_update)

text \<open>The pool hands out slots by the contract of a slot table when mapping succeeds.\<close>

definition pool_slot :: "stack_pool \<Rightarrow> nat \<Rightarrow> unit option" where
  "pool_slot pool i = (if i \<in> pool_taken pool then Some () else None)"

definition pool_alloc :: "stack_pool \<Rightarrow> unit \<Rightarrow> nat option \<times> stack_pool" where
  "pool_alloc pool u =
     (case pool_allocate (\<lambda>_. Done True) pool of Done (r, pool') \<Rightarrow> (map_option (snd \<circ> snd) r, pool') | _ \<Rightarrow> (None, pool))"

interpretation stack_slots: slot_allocator pool_slot pool_alloc 0 MAX_PROCESSES pool_invar "\<lambda>_. True"
proof unfold_locales
  fix s s' :: stack_pool and v :: unit and i
  assume s: "pool_invar s"
  have alloc: "pool_alloc s u = (case pool_first s of None \<Rightarrow> (None, s)
      | Some i \<Rightarrow> (Some i, s\<lparr>in_use := (in_use s)[i := True]\<rparr>))" for u
    using s by (auto simp: pool_alloc_def pool_allocate_first split: option.split)
  show "(fst (pool_alloc s v) = None) \<longleftrightarrow> (\<forall>i. 0 \<le> i \<and> i < MAX_PROCESSES \<longrightarrow> pool_slot s i \<noteq> None)"
    using pool_first_None [of s] by (auto simp: alloc pool_slot_def split: option.splits)
  show "s' = s" if "pool_alloc s v = (None, s')" using that by (auto simp: alloc split: option.splits)
  assume a: "pool_alloc s v = (Some i, s')"
  then have i: "pool_first s = Some i" and s': "s' = s\<lparr>in_use := (in_use s)[i := True]\<rparr>"
    by (auto simp: alloc split: option.splits)
  show "0 \<le> i \<and> i < MAX_PROCESSES \<and> pool_slot s i = None \<and> (\<forall>j. 0 \<le> j \<and> j < i \<longrightarrow> pool_slot s j \<noteq> None)"
    using pool_first_Some [OF i] by (auto simp: pool_slot_def)
  show "pool_slot s' = (pool_slot s)(i \<mapsto> v)" "pool_invar s'"
    using pool_take_slot [OF s, of i] pool_first_Some [OF i] by (auto simp: s' pool_slot_def fun_eq_iff)
qed

section \<open>Properties\<close>

text \<open>
  The guard-page test of the page-fault handler is exact: an address is reported as
  a guard page iff it lies between the guard address and the stack bottom of one of the 64
  slots, and no address of any slot's stack is reported.
\<close>
theorem guard_page_exact:
  "(is_guard_page_address a \<longleftrightarrow> (\<exists>slot < MAX_PROCESSES. slot_guard_addr slot \<le> a \<and> a < slot_stack_bottom slot))
   \<and> (\<forall>slot < MAX_PROCESSES. slot_stack_bottom slot \<le> a \<and> a < slot_stack_top slot \<longrightarrow> \<not> is_guard_page_address a)"
proof -
  let ?o = "unat a - 0x555555550000"
  have div: "?o = 20480 * (?o div 20480) + ?o mod 20480" by simp
  have slot: "slot < 64 \<Longrightarrow> unat (slot_guard_addr slot) = slot_base slot" 
    "slot < 64 \<Longrightarrow> unat (slot_stack_bottom slot) = slot_base slot + 4096"
    "slot < 64 \<Longrightarrow> unat (slot_stack_top slot) = slot_base slot + 20480" for slot
    using unat_slot_addrs [of slot] by (simp_all add: MAX_PROCESSES_def)
  have inside: "?o div 20480 = slot \<and> ?o mod 20480 = unat a - slot_base slot"
    if "slot_base slot \<le> unat a" "unat a < slot_base slot + 20480" for slot
  proof -
    define r where "r = unat a - slot_base slot"
    with that have "?o = r + slot * 20480" "r < 20480" by (simp_all add: slot_base_def)
    then show ?thesis by (simp add: r_def [symmetric])
  qed
  have "is_guard_page_address a \<longleftrightarrow> (\<exists>slot < 64. slot_base slot \<le> unat a \<and> unat a < slot_base slot + 4096)"
  proof
    assume "is_guard_page_address a"
    then have g: "0x555555550000 \<le> unat a" "?o < 20480 * 64" "?o mod 20480 < 4096"
      by (simp_all add: guard_page_unat)
    then have "?o div 20480 < 64" by (simp add: less_mult_imp_div_less mult.commute)
    moreover have "slot_base (?o div 20480) \<le> unat a" "unat a < slot_base (?o div 20480) + 4096"
      using g div unfolding slot_base_def by linarith+
    ultimately show "\<exists>slot < 64. slot_base slot \<le> unat a \<and> unat a < slot_base slot + 4096" by blast
  next
    assume "\<exists>slot < 64. slot_base slot \<le> unat a \<and> unat a < slot_base slot + 4096"
    then obtain slot where slot: "slot < 64" "slot_base slot \<le> unat a" "unat a < slot_base slot + 4096" by blast
    have "slot_base slot \<le> 0x555555550000 + 63 * 20480" "0x555555550000 \<le> slot_base slot"
      using slot(1) by (simp_all add: slot_base_def)
    with slot have "?o < 20480 * 64" "0x555555550000 \<le> unat a" by linarith+
    moreover have "?o mod 20480 < 4096" using inside [of slot] slot by auto
    ultimately show "is_guard_page_address a" by (simp add: guard_page_unat)
  qed
  moreover have "\<not> is_guard_page_address a"
    if "slot < 64" "slot_base slot + 4096 \<le> unat a" "unat a < slot_base slot + 20480" for slot
  proof -
    have "?o mod 20480 = unat a - slot_base slot" using inside [of slot] that by simp
    with that have "\<not> ?o mod 20480 < 4096" by linarith
    then show ?thesis by (simp add: guard_page_unat)
  qed
  ultimately show ?thesis
    by (auto simp: word_le_nat_alt word_less_nat_alt slot MAX_PROCESSES_def)
qed

theorem guard_page_exact_witness:
  "(0::nat) < MAX_PROCESSES \<and> slot_stack_bottom 0 \<le> 0x555555551000 \<and> (0x555555551000 :: u64) < slot_stack_top 0
   \<and> \<not> is_guard_page_address 0x555555551000"
proof -
  have "(0::nat) < MAX_PROCESSES" "slot_stack_bottom 0 \<le> 0x555555551000" "(0x555555551000 :: u64) < slot_stack_top 0"
    by (simp_all add: kstack_consts slot_stack_bottom_def slot_stack_top_def slot_guard_addr_def)
  with guard_page_exact [of "0x555555551000"] show ?thesis by blast
qed

end
