(* ===== verification/Process.thy ===== *)
theory Process
  imports FileDesc KernelStacks
begin

text \<open>
  Processes (\<^verbatim>\<open>src/process/mod.rs\<close>): the process control block, signals and the process manager
  with fork, exec, exit, wait, kill and signal delivery. The operations reach into the pool of
  kernel stacks and the registry of descriptor tables, so all three are one state. What comes
  from the hardware side (the address of a heap stack, the result of building page tables, the
  segment selectors, mapping a kernel stack) is an argument. Pids count up from 1 and are
  natural numbers.
\<close>

type_synonym i32 = "32 word"
type_synonym i8 = "8 word"

section \<open>Control blocks\<close>

datatype process_state = Ready | Running | Blocked | Waiting | Zombie | Terminated

definition state_as_str :: "process_state \<Rightarrow> string" where
  "state_as_str s = (case s of Ready \<Rightarrow> ''READY'' | Running \<Rightarrow> ''RUNNING'' | Blocked \<Rightarrow> ''BLOCKED''
     | Waiting \<Rightarrow> ''WAITING'' | Zombie \<Rightarrow> ''ZOMBIE'' | Terminated \<Rightarrow> ''DEAD'')"

record process =
  pr_pid :: nat
  pr_parent_pid :: "nat option"
  pr_state :: process_state
  pr_context :: cpu_context
  pr_stack :: "u8 list"
  pr_exit_code :: "i32 option"
  pr_user_stack_addr :: "u64 option"
  pr_user_stack_size :: "u64 option"
  pr_entry_point :: "u64 option"
  pr_nice :: i8
  pr_pending_signals :: u64
  pr_signal_blocked :: u64
  pr_trap_frame :: trap_frame
  pr_has_trap_frame :: bool
  pr_is_user :: bool
  pr_kernel_stack_slot :: "nat option"
  pr_kernel_stack_top :: u64
  pr_cr3 :: u64
  pr_cwd :: string
  pr_pgid :: nat
  pr_sid :: nat
  pr_sigactions :: "u64 list"
  pr_cap_effective :: u64
  pr_cap_permitted :: u64
  pr_vruntime :: u64
  pr_fs_base :: u64
  pr_gs_base :: u64

text \<open>What the hardware side answers to one operation.\<close>

record hardware =
  hw_stack_ptr :: u64
  hw_map_pages :: "nat \<Rightarrow> bool outcome"
  hw_pagetable :: "u64 option"
  hw_user_cs :: u64
  hw_user_ss :: u64

definition process_new :: "hardware \<Rightarrow> nat \<Rightarrow> u64 \<Rightarrow> nat \<Rightarrow> process" where
  "process_new hw pid entry_point stack_size =
     \<lparr>pr_pid = pid, pr_parent_pid = None, pr_state = Ready,
      pr_context = context_new entry_point (hw_stack_ptr hw + of_nat stack_size),
      pr_stack = replicate stack_size 0, pr_exit_code = None,
      pr_user_stack_addr = None, pr_user_stack_size = None, pr_entry_point = Some entry_point,
      pr_nice = 0, pr_pending_signals = 0, pr_signal_blocked = 0,
      pr_trap_frame = trap_empty, pr_has_trap_frame = False, pr_is_user = False,
      pr_kernel_stack_slot = None, pr_kernel_stack_top = 0, pr_cr3 = 0, pr_cwd = ''/'',
      pr_pgid = pid, pr_sid = pid, pr_sigactions = replicate 32 0,
      pr_cap_effective = - 1, pr_cap_permitted = - 1, pr_vruntime = 0, pr_fs_base = 0, pr_gs_base = 0\<rparr>"

definition process_new_user ::
  "hardware \<Rightarrow> nat \<Rightarrow> nat option \<Rightarrow> u64 \<Rightarrow> u64 \<Rightarrow> stack_pool option \<Rightarrow> (process \<times> stack_pool option) outcome" where
  "process_new_user hw pid parent_pid entry_point user_stack_top pool =
     obind (allocate_kernel_stack (hw_map_pages hw) pool) (\<lambda>(r, pool'). case r of
         None \<Rightarrow> Panic
       | Some (kstack_top, kstack_slot) \<Rightarrow>
           Done (\<lparr>pr_pid = pid, pr_parent_pid = parent_pid, pr_state = Ready,
             pr_context = context_default, pr_stack = [], pr_exit_code = None,
             pr_user_stack_addr = Some user_stack_top, pr_user_stack_size = None,
             pr_entry_point = Some entry_point,
             pr_nice = 0, pr_pending_signals = 0, pr_signal_blocked = 0,
             pr_trap_frame = trap_new_user entry_point user_stack_top (hw_user_cs hw) (hw_user_ss hw),
             pr_has_trap_frame = True, pr_is_user = True,
             pr_kernel_stack_slot = Some kstack_slot, pr_kernel_stack_top = kstack_top,
             pr_cr3 = (case hw_pagetable hw of None \<Rightarrow> 0 | Some c \<Rightarrow> c), pr_cwd = ''/'',
             pr_pgid = pid, pr_sid = pid, pr_sigactions = replicate 32 0,
             pr_cap_effective = - 1, pr_cap_permitted = - 1, pr_vruntime = 0, pr_fs_base = 0, pr_gs_base = 0\<rparr>,
             pool'))"

text \<open>
  \<open>Process::clone\<close>. Marking the pages of both address spaces copy-on-write and the TLB flush do
  not touch the control blocks.
\<close>

definition child_stack :: "hardware \<Rightarrow> process \<Rightarrow> stack_pool option \<Rightarrow> ((u64 \<times> nat option) \<times> stack_pool option) outcome" where
  "child_stack hw p pool =
     (if pr_is_user p
      then obind (allocate_kernel_stack (hw_map_pages hw) pool) (\<lambda>(r, pool').
             Done (case r of Some (kt, slot) \<Rightarrow> (kt, Some slot) | None \<Rightarrow> (0, None), pool'))
      else Done ((0, None), pool))"

definition process_clone :: "hardware \<Rightarrow> process \<Rightarrow> nat \<Rightarrow> stack_pool option \<Rightarrow> (process \<times> stack_pool option) outcome" where
  "process_clone hw p new_pid pool =
     obind (child_stack hw p pool) (\<lambda>((kstack_top, kstack_slot), pool').
     let child_cr3 = (if pr_is_user p \<and> pr_cr3 p \<noteq> 0
                      then (case hw_pagetable hw of Some c \<Rightarrow> c | None \<Rightarrow> 0) else 0)
     in Done (\<lparr>pr_pid = new_pid, pr_parent_pid = Some (pr_pid p), pr_state = Ready,
          pr_context = pr_context p, pr_stack = pr_stack p, pr_exit_code = None,
          pr_user_stack_addr = pr_user_stack_addr p, pr_user_stack_size = pr_user_stack_size p,
          pr_entry_point = pr_entry_point p, pr_nice = pr_nice p, pr_pending_signals = 0,
          pr_signal_blocked = pr_signal_blocked p, pr_trap_frame = pr_trap_frame p,
          pr_has_trap_frame = pr_has_trap_frame p, pr_is_user = pr_is_user p,
          pr_kernel_stack_slot = kstack_slot, pr_kernel_stack_top = kstack_top, pr_cr3 = child_cr3,
          pr_cwd = pr_cwd p, pr_pgid = pr_pgid p, pr_sid = pr_sid p, pr_sigactions = pr_sigactions p,
          pr_cap_effective = pr_cap_effective p, pr_cap_permitted = pr_cap_permitted p,
          pr_vruntime = pr_vruntime p, pr_fs_base = pr_fs_base p, pr_gs_base = pr_gs_base p\<rparr>, pool'))"

section \<open>Signals\<close>

abbreviation (input) SIGKILL :: nat where "SIGKILL \<equiv> 9"
abbreviation (input) SIGCHLD :: nat where "SIGCHLD \<equiv> 17"
abbreviation (input) SIGCONT :: nat where "SIGCONT \<equiv> 18"
abbreviation (input) SIGSTOP :: nat where "SIGSTOP \<equiv> 19"
abbreviation (input) SIGTSTP :: nat where "SIGTSTP \<equiv> 20"

definition signal_is_valid :: "nat \<Rightarrow> bool" where
  "signal_is_valid sig \<longleftrightarrow> 1 \<le> sig \<and> sig \<le> 31"

datatype default_action = Terminate | Ignore | Stop | Continue

definition signal_default_action :: "nat \<Rightarrow> default_action" where
  "signal_default_action sig =
     (if sig = SIGCHLD then Ignore else if sig = SIGCONT then Continue
      else if sig = SIGSTOP \<or> sig = SIGTSTP then Stop else Terminate)"

section \<open>The process manager\<close>

record kernel =
  k_processes :: "process list"
  k_current_pid :: "nat option"
  k_next_pid :: nat
  k_stacks :: "stack_pool option"
  k_fds :: fd_state

definition get_process :: "kernel \<Rightarrow> nat \<Rightarrow> process option" where
  "get_process k pid = find (\<lambda>p. pr_pid p = pid) (k_processes k)"

text \<open>Assignments through \<open>get_process_mut\<close>: the first process with the pid is changed.\<close>

definition modify_process :: "nat \<Rightarrow> (process \<Rightarrow> process) \<Rightarrow> kernel \<Rightarrow> kernel" where
  "modify_process pid f k = k\<lparr>k_processes := update_first (\<lambda>p. pr_pid p = pid) f (k_processes k)\<rparr>"

definition current_process :: "kernel \<Rightarrow> process option" where
  "current_process k = (case k_current_pid k of None \<Rightarrow> None | Some pid \<Rightarrow> get_process k pid)"

definition create_process :: "hardware \<Rightarrow> u64 \<Rightarrow> nat \<Rightarrow> kernel \<Rightarrow> (nat \<times> kernel) outcome" where
  "create_process hw entry_point stack_size k =
     (let pid = k_next_pid k; k1 = k\<lparr>k_next_pid := k_next_pid k + 1\<rparr>;
          k2 = k1\<lparr>k_processes := k_processes k1 @ [process_new hw pid entry_point stack_size]\<rparr>
      in obind fdt_with_stdio (\<lambda>t. Done (pid, k2\<lparr>k_fds := register_process pid t (k_fds k2)\<rparr>)))"

definition create_user_process :: "hardware \<Rightarrow> u64 \<Rightarrow> u64 \<Rightarrow> nat option \<Rightarrow> kernel \<Rightarrow> (nat \<times> kernel) outcome" where
  "create_user_process hw entry_point user_stack_top parent_pid k =
     (let pid = k_next_pid k; k1 = k\<lparr>k_next_pid := k_next_pid k + 1\<rparr>
      in obind (process_new_user hw pid parent_pid entry_point user_stack_top (k_stacks k1)) (\<lambda>(p, pool).
         let k2 = k1\<lparr>k_stacks := pool, k_processes := k_processes k1 @ [p]\<rparr>
         in obind fdt_with_stdio (\<lambda>t. Done (pid, k2\<lparr>k_fds := register_process pid t (k_fds k2)\<rparr>))))"

definition set_current :: "nat \<Rightarrow> kernel \<Rightarrow> kernel" where
  "set_current pid k =
     (case get_process k pid of
        None \<Rightarrow> k
      | Some _ \<Rightarrow> (modify_process pid (\<lambda>p. p\<lparr>pr_state := Running\<rparr>) k)\<lparr>k_current_pid := Some pid\<rparr>)"

definition ready_processes :: "kernel \<Rightarrow> nat list" where
  "ready_processes k = map pr_pid (filter (\<lambda>p. pr_state p = Ready) (k_processes k))"

text \<open>
  The block \<open>process.state = ..; if let Some(slot) = process.kernel_stack_slot.take() { free_kernel_stack(slot) }\<close>
  that every ending of a process shares.
\<close>

definition end_process :: "nat \<Rightarrow> process_state \<Rightarrow> i32 option \<Rightarrow> kernel \<Rightarrow> kernel" where
  "end_process pid st code k =
     (case get_process k pid of
        None \<Rightarrow> k
      | Some p \<Rightarrow>
          (modify_process pid (\<lambda>p. p\<lparr>pr_state := st,
              pr_exit_code := (case code of None \<Rightarrow> pr_exit_code p | Some c \<Rightarrow> Some c),
              pr_kernel_stack_slot := None\<rparr>) k)
          \<lparr>k_stacks := (case pr_kernel_stack_slot p of None \<Rightarrow> k_stacks k | Some slot \<Rightarrow> free_kernel_stack slot (k_stacks k))\<rparr>)"

definition clear_current :: "nat \<Rightarrow> kernel \<Rightarrow> kernel" where
  "clear_current pid k = (if k_current_pid k = Some pid then k\<lparr>k_current_pid := None\<rparr> else k)"

definition terminate_process :: "nat \<Rightarrow> kernel \<Rightarrow> kernel" where
  "terminate_process pid k = clear_current pid (end_process pid Terminated None k)"

definition send_signal :: "nat \<Rightarrow> nat \<Rightarrow> kernel \<Rightarrow> (string + unit) \<times> kernel" where
  "send_signal pid sig k =
     (if \<not> signal_is_valid sig then (Inl ''invalid signal number'', k)
      else case get_process k pid of
          None \<Rightarrow> (Inl ''process not found'', k)
        | Some p \<Rightarrow>
            if sig = 0 then (Inr (), k)
            else if pr_state p = Terminated then (Inl ''process already terminated'', k)
            else if sig = SIGKILL \<or> sig = SIGSTOP then
              (Inr (), (case signal_default_action sig of
                  Terminate \<Rightarrow> clear_current pid (end_process pid Terminated (Some (128 + of_nat sig)) k)
                | Stop \<Rightarrow> modify_process pid (\<lambda>p. p\<lparr>pr_state := Blocked\<rparr>) k
                | _ \<Rightarrow> k))
            else (Inr (), modify_process pid (\<lambda>p. p\<lparr>pr_pending_signals := pr_pending_signals p OR bit_mask sig\<rparr>) k))"

text \<open>One deliverable signal; the flag says that the process was terminated and the loop stops.\<close>

definition deliver_one :: "nat \<Rightarrow> nat \<Rightarrow> kernel \<Rightarrow> bool \<times> kernel" where
  "deliver_one pid sig k =
     (let k1 = modify_process pid (\<lambda>p. p\<lparr>pr_pending_signals := pr_pending_signals p AND NOT (bit_mask sig)\<rparr>) k
      in case signal_default_action sig of
          Terminate \<Rightarrow> (True, clear_current pid (end_process pid Terminated (Some (128 + of_nat sig)) k1))
        | Stop \<Rightarrow> (False, modify_process pid (\<lambda>p. p\<lparr>pr_state := Blocked\<rparr>) k1)
        | Continue \<Rightarrow> (False, modify_process pid (\<lambda>p. if pr_state p = Blocked then p\<lparr>pr_state := Ready\<rparr> else p) k1)
        | Ignore \<Rightarrow> (False, k1))"

fun deliver_loop :: "nat \<Rightarrow> u64 \<Rightarrow> nat list \<Rightarrow> kernel \<Rightarrow> bool \<times> kernel" where
  "deliver_loop pid deliverable [] k = (False, k)"
| "deliver_loop pid deliverable (sig # sigs) k =
     (if deliverable AND bit_mask sig \<noteq> 0 then
        (case deliver_one pid sig k of
           (True, k') \<Rightarrow> (True, k')
         | (False, k') \<Rightarrow> deliver_loop pid deliverable sigs k')
      else deliver_loop pid deliverable sigs k)"

definition deliver_pending_signals :: "nat \<Rightarrow> kernel \<Rightarrow> bool \<times> kernel" where
  "deliver_pending_signals pid k =
     (case get_process k pid of
        None \<Rightarrow> (False, k)
      | Some p \<Rightarrow>
          let deliverable = pr_pending_signals p AND NOT (pr_signal_blocked p) in
          if deliverable = 0 then (False, k) else deliver_loop pid deliverable [1..<32] k)"

definition fork :: "hardware \<Rightarrow> nat \<Rightarrow> kernel \<Rightarrow> ((string + nat) \<times> kernel) outcome" where
  "fork hw parent_pid k =
     (let child_pid = k_next_pid k; k1 = k\<lparr>k_next_pid := k_next_pid k + 1\<rparr>
      in case get_process k1 parent_pid of
          None \<Rightarrow> Done (Inl ''Parent process not found'', k1)
        | Some parent \<Rightarrow>
            obind (process_clone hw parent child_pid (k_stacks k1)) (\<lambda>(child, pool).
              Done (Inr child_pid, k1\<lparr>k_stacks := pool, k_processes := k_processes k1 @ [child],
                k_fds := clone_process_fds parent_pid child_pid (k_fds k1)\<rparr>)))"

definition exec :: "nat \<Rightarrow> u64 \<Rightarrow> u64 \<Rightarrow> u64 \<Rightarrow> kernel \<Rightarrow> (string + unit) \<times> kernel" where
  "exec pid entry_point stack_addr stack_size k =
     (case get_process k pid of
        None \<Rightarrow> (Inl ''Process not found'', k)
      | Some _ \<Rightarrow> (Inr (), modify_process pid (\<lambda>p. p\<lparr>pr_entry_point := Some entry_point,
          pr_user_stack_addr := Some stack_addr, pr_user_stack_size := Some stack_size,
          pr_context := context_default, pr_state := Ready\<rparr>) k))"

definition exit_process :: "nat \<Rightarrow> i32 \<Rightarrow> kernel \<Rightarrow> kernel" where
  "exit_process pid exit_code k =
     (let parent_pid = (case get_process k pid of None \<Rightarrow> None | Some p \<Rightarrow> pr_parent_pid p);
          k1 = end_process pid Zombie (Some exit_code) k;
          k2 = (case parent_pid of None \<Rightarrow> k1
                | Some pp \<Rightarrow> modify_process pp (\<lambda>p. if pr_state p = Waiting then p\<lparr>pr_state := Ready\<rparr> else p) k1)
      in clear_current pid k2)"

definition wait :: "nat \<Rightarrow> kernel \<Rightarrow> (nat \<times> i32) option \<times> kernel" where
  "wait parent_pid k =
     (case find (\<lambda>p. pr_parent_pid p = Some parent_pid \<and> pr_state p = Zombie) (k_processes k) of
        Some child \<Rightarrow>
          (Some (pr_pid child, case pr_exit_code child of Some c \<Rightarrow> c | None \<Rightarrow> - 1),
           k\<lparr>k_processes := filter (\<lambda>p. pr_pid p \<noteq> pr_pid child) (k_processes k),
             k_fds := unregister_process (pr_pid child) (k_fds k)\<rparr>)
      | None \<Rightarrow>
          let has_children = list_ex (\<lambda>p. pr_parent_pid p = Some parent_pid \<and> pr_state p \<noteq> Terminated) (k_processes k)
          in (None, if has_children then modify_process parent_pid (\<lambda>p. p\<lparr>pr_state := Waiting\<rparr>) k else k))"

definition is_dead :: "process \<Rightarrow> bool" where
  "is_dead p \<longleftrightarrow> pr_state p = Terminated \<or> pr_state p = Zombie"

definition cleanup_dead_processes :: "kernel \<Rightarrow> kernel" where
  "cleanup_dead_processes k =
     (let dead_pids = map pr_pid (filter is_dead (k_processes k))
      in k\<lparr>k_fds := fold unregister_process dead_pids (k_fds k),
           k_processes := filter (\<lambda>p. \<not> is_dead p) (k_processes k), k_current_pid := None\<rparr>)"

definition get_children :: "nat \<Rightarrow> kernel \<Rightarrow> nat list" where
  "get_children parent_pid k = map pr_pid (filter (\<lambda>p. pr_parent_pid p = Some parent_pid) (k_processes k))"

section \<open>The working directory\<close>

definition current_cwd :: "kernel \<Rightarrow> string \<Rightarrow> string" where
  "current_cwd k shell_cwd =
     (case current_process k of
        Some p \<Rightarrow> if pr_cwd p \<noteq> [] then pr_cwd p else if shell_cwd \<noteq> [] then shell_cwd else ''/''
      | None \<Rightarrow> if shell_cwd \<noteq> [] then shell_cwd else ''/'')"

definition set_current_cwd :: "string \<Rightarrow> kernel \<times> string \<Rightarrow> kernel \<times> string" where
  "set_current_cwd path = (\<lambda>(k, shell_cwd).
     (case current_process k of
        Some p \<Rightarrow> (modify_process (pr_pid p) (\<lambda>p. p\<lparr>pr_cwd := path\<rparr>) k, shell_cwd)
      | None \<Rightarrow> (k, path)))"

section \<open>Lookup and update\<close>

definition kernel_boot :: "fd_state \<Rightarrow> kernel" where
  "kernel_boot fds = \<lparr>k_processes = [], k_current_pid = None, k_next_pid = 1, k_stacks = None, k_fds = fds\<rparr>"

lemma modify_process_simps [simp]:
  "k_current_pid (modify_process pid f k) = k_current_pid k"
  "k_next_pid (modify_process pid f k) = k_next_pid k"
  "k_stacks (modify_process pid f k) = k_stacks k"
  "k_fds (modify_process pid f k) = k_fds k"
  "k_processes (modify_process pid f k) = update_first (\<lambda>p. pr_pid p = pid) f (k_processes k)"
  by (simp_all add: modify_process_def)

lemma clear_current_simps [simp]:
  "k_processes (clear_current pid k) = k_processes k"
  "k_next_pid (clear_current pid k) = k_next_pid k"
  "k_stacks (clear_current pid k) = k_stacks k"
  "k_fds (clear_current pid k) = k_fds k"
  by (simp_all add: clear_current_def)

lemma get_clear_current [simp]: "get_process (clear_current pid k) = get_process k"
  by (simp add: get_process_def fun_eq_iff)

lemma get_modify_process:
  assumes "\<And>p. pr_pid (f p) = pr_pid p"
  shows "get_process (modify_process pid f k) q =
    (if q = pid then map_option f (get_process k pid) else get_process k q)"
  using assms by (auto simp: get_process_def find_update_first_same intro!: find_update_first_other)

lemma get_process_pid: "get_process k pid = Some p \<Longrightarrow> pr_pid p = pid \<and> p \<in> set (k_processes k)"
  by (auto simp: get_process_def dest: find_SomeD)

section \<open>The invariant of the process table\<close>

text \<open>
  Pids are distinct and below the next pid; a kernel-stack slot is in use exactly when some
  process holds it, no two processes hold the same slot, and dead processes hold none.
\<close>

definition held_slots :: "process list \<Rightarrow> nat list" where
  "held_slots ps = List.map_filter pr_kernel_stack_slot ps"

definition k_invar :: "kernel \<Rightarrow> bool" where
  "k_invar k \<longleftrightarrow> distinct (map pr_pid (k_processes k)) \<and> (\<forall>p \<in> set (k_processes k). pr_pid p < k_next_pid k)
     \<and> pool_invar (the_pool (k_stacks k)) \<and> distinct (held_slots (k_processes k))
     \<and> set (held_slots (k_processes k)) = pool_taken (the_pool (k_stacks k))
     \<and> (\<forall>p \<in> set (k_processes k). is_dead p \<longrightarrow> pr_kernel_stack_slot p = None)"

lemma held_slots_simps [simp]:
  "held_slots [] = []"
  "held_slots (p # ps) = (case pr_kernel_stack_slot p of None \<Rightarrow> held_slots ps | Some s \<Rightarrow> s # held_slots ps)"
  "held_slots (ps @ qs) = held_slots ps @ held_slots qs"
  by (simp_all add: held_slots_def map_filter_def split: option.split)

lemma set_held_slots: "set (held_slots ps) = {s. \<exists>p \<in> set ps. pr_kernel_stack_slot p = Some s}"
  by (induction ps) (auto split: option.split)

lemma kernel_boot_invar: "k_invar (kernel_boot fds)"
  by (simp add: k_invar_def kernel_boot_def the_pool_def)

text \<open>Updates that leave pid and slot alone and do not make a process die keep the invariant.\<close>

lemma held_slots_update:
  "(\<And>p. pr_kernel_stack_slot (f p) = pr_kernel_stack_slot p) \<Longrightarrow> held_slots (update_first P f ps) = held_slots ps"
  by (induction ps) (auto split: option.split)

lemma modify_invar:
  assumes "k_invar k" and "\<And>p. pr_pid (f p) = pr_pid p" "\<And>p. pr_kernel_stack_slot (f p) = pr_kernel_stack_slot p"
    and "\<And>p. is_dead (f p) \<Longrightarrow> is_dead p"
  shows "k_invar (modify_process pid f k)"
  using assms
  by (auto simp: k_invar_def map_update_first held_slots_update dest!: in_set_update_first)

lemma held_slots_release:
  assumes "distinct (held_slots ps)" and "distinct (map pr_pid ps)" and "find (\<lambda>p. pr_pid p = pid) ps = Some p"
    and "\<And>p. pr_kernel_stack_slot (f p) = None"
  shows "distinct (held_slots (update_first (\<lambda>p. pr_pid p = pid) f ps))
    \<and> set (held_slots (update_first (\<lambda>p. pr_pid p = pid) f ps)) = set (held_slots ps) - set_option (pr_kernel_stack_slot p)"
  using assms by (induction ps) (auto simp: set_held_slots dest!: find_SomeD split: option.splits if_splits)

lemma end_process_invar:
  assumes inv: "k_invar k"
  shows "k_invar (end_process pid st code k)"
proof (cases "get_process k pid")
  case None
  with inv show ?thesis by (simp add: end_process_def)
next
  case (Some p)
  define f where "f = (\<lambda>p :: process. p\<lparr>pr_state := st,
    pr_exit_code := (case code of None \<Rightarrow> pr_exit_code p | Some c \<Rightarrow> Some c), pr_kernel_stack_slot := None\<rparr>)"
  have f: "pr_pid (f q) = pr_pid q" "pr_kernel_stack_slot (f q) = None" for q by (simp_all add: f_def)
  let ?ps = "update_first (\<lambda>p. pr_pid p = pid) f (k_processes k)"
  have rel: "distinct (held_slots ?ps)"
    "set (held_slots ?ps) = set (held_slots (k_processes k)) - set_option (pr_kernel_stack_slot p)"
    using held_slots_release [where f = f, OF _ _ _ f(2)] inv Some by (auto simp: k_invar_def get_process_def)
  have taken: "pool_invar (the_pool s) \<and> pool_taken (the_pool s) = pool_taken (the_pool (k_stacks k)) - set_option (pr_kernel_stack_slot p)"
    if "s = (case pr_kernel_stack_slot p of None \<Rightarrow> k_stacks k | Some slot \<Rightarrow> free_kernel_stack slot (k_stacks k))" for s
    using inv pool_free_spec that
    by (auto simp: k_invar_def free_kernel_stack_def the_pool_def split: option.splits)
  have "end_process pid st code k = (modify_process pid f k)
      \<lparr>k_stacks := (case pr_kernel_stack_slot p of None \<Rightarrow> k_stacks k | Some slot \<Rightarrow> free_kernel_stack slot (k_stacks k))\<rparr>"
    using Some by (simp add: end_process_def f_def)
  then show ?thesis
    using inv rel taken [OF refl] f unfolding k_invar_def
    by (auto simp: map_update_first dest!: in_set_update_first)
qed

lemma clear_current_invar: "k_invar k \<Longrightarrow> k_invar (clear_current pid k)"
  by (simp add: k_invar_def)

lemma held_slots_filter:
  "(\<And>p. p \<in> set ps \<Longrightarrow> \<not> Q p \<Longrightarrow> pr_kernel_stack_slot p = None) \<Longrightarrow> held_slots (filter Q ps) = held_slots ps"
  by (induction ps) (auto split: option.split)

lemma distinct_pid_eq:
  "distinct (map pr_pid ps) \<Longrightarrow> p \<in> set ps \<Longrightarrow> q \<in> set ps \<Longrightarrow> pr_pid p = pr_pid q \<Longrightarrow> p = q"
  by (auto simp: distinct_map inj_on_def)

lemma allocate_stackD:
  assumes "pool_invar (the_pool g)" and "allocate_kernel_stack mp g = Done (r, g')"
  shows "pool_invar (the_pool g') \<and>
    (case r of None \<Rightarrow> pool_taken (the_pool g') = pool_taken (the_pool g)
     | Some (t, slot) \<Rightarrow> slot \<notin> pool_taken (the_pool g) \<and> t = slot_stack_top slot
         \<and> pool_taken (the_pool g') = insert slot (pool_taken (the_pool g)))"
proof -
  obtain a pool where a: "pool_allocate mp (the_pool g) = Done (a, pool)"
      and r: "r = map_option (\<lambda>(bottom, top, slot). (top, slot)) a" "the_pool g' = pool"
    using assms(2) by (auto simp: allocate_kernel_stack_def obind_eq_Done_iff the_pool_def)
  show ?thesis
  proof (cases a)
    case None
    with a have "pool = the_pool g" using pool_allocate_NoneD [OF assms(1)] by blast
    with None r assms(1) show ?thesis by simp
  next
    case (Some q)
    obtain b t i where "q = (b, t, i)" by (cases q)
    with Some a pool_allocate_SomeD [OF assms(1)] r show ?thesis by fastforce
  qed
qed

text \<open>A new live process with the next pid, owning its freshly allocated slot if any.\<close>

lemma push_invar:
  assumes inv: "k_invar k" and p: "pr_pid p = k_next_pid k" "\<not> is_dead p"
    and pool: "pool_invar (the_pool g)" "set_option (pr_kernel_stack_slot p) \<inter> pool_taken (the_pool (k_stacks k)) = {}"
      "pool_taken (the_pool g) = pool_taken (the_pool (k_stacks k)) \<union> set_option (pr_kernel_stack_slot p)"
  shows "k_invar (k\<lparr>k_next_pid := k_next_pid k + 1, k_stacks := g, k_processes := k_processes k @ [p], k_fds := fds\<rparr>)"
  using assms by (auto simp: k_invar_def less_Suc_eq split: option.splits)

lemma create_process_invar:
  assumes "k_invar k" and "create_process hw e n k = Done (pid, k')"
  shows "k_invar k'"
proof -
  obtain t where "k' = k\<lparr>k_next_pid := k_next_pid k + 1, k_stacks := k_stacks k,
      k_processes := k_processes k @ [process_new hw (k_next_pid k) e n], k_fds := register_process (k_next_pid k) t (k_fds k)\<rparr>"
    using assms(2) by (auto simp: create_process_def Let_def obind_eq_Done_iff)
  with push_invar [OF assms(1), of "process_new hw (k_next_pid k) e n" "k_stacks k"] assms(1) show ?thesis
    by (auto simp: process_new_def is_dead_def k_invar_def)
qed

lemma new_user_spec:
  assumes "pool_invar (the_pool g)" and "process_new_user hw pid pp e u g = Done (p, g')"
  shows "pr_pid p = pid \<and> \<not> is_dead p \<and> pool_invar (the_pool g') \<and> set_option (pr_kernel_stack_slot p) \<inter> pool_taken (the_pool g) = {}
    \<and> pool_taken (the_pool g') = pool_taken (the_pool g) \<union> set_option (pr_kernel_stack_slot p)"
proof -
  obtain kt slot where a: "allocate_kernel_stack (hw_map_pages hw) g = Done (Some (kt, slot), g')"
      and p: "pr_pid p = pid" "pr_state p = Ready" "pr_kernel_stack_slot p = Some slot"
    using assms(2) by (auto simp: process_new_user_def obind_eq_Done_iff split: option.splits prod.splits)
  from allocate_stackD [OF assms(1) a] p show ?thesis by (simp add: is_dead_def)
qed

lemma create_user_process_invar:
  assumes "k_invar k" and "create_user_process hw e u pp k = Done (pid, k')"
  shows "k_invar k'"
proof -
  obtain p g t where n: "process_new_user hw (k_next_pid k) pp e u (k_stacks k) = Done (p, g)"
      and "k' = k\<lparr>k_next_pid := k_next_pid k + 1, k_stacks := g, k_processes := k_processes k @ [p],
        k_fds := register_process (k_next_pid k) t (k_fds k)\<rparr>"
    using assms(2) by (auto simp: create_user_process_def Let_def obind_eq_Done_iff)
  with push_invar [OF assms(1), of p g] new_user_spec [OF _ n] assms(1) show ?thesis by (auto simp: k_invar_def)
qed

lemma child_stack_spec:
  assumes "pool_invar (the_pool g)" and "child_stack hw parent g = Done ((kt, ks), g')"
  shows "pool_invar (the_pool g') \<and> set_option ks \<inter> pool_taken (the_pool g) = {}
    \<and> pool_taken (the_pool g') = pool_taken (the_pool g) \<union> set_option ks"
proof (cases "pr_is_user parent")
  case True
  then obtain r where a: "allocate_kernel_stack (hw_map_pages hw) g = Done (r, g')"
      and "(kt, ks) = (case r of Some (kt, slot) \<Rightarrow> (kt, Some slot) | None \<Rightarrow> (0, None))"
    using assms(2) by (auto simp: child_stack_def obind_eq_Done_iff)
  with allocate_stackD [OF assms(1) a] show ?thesis by (cases r) auto
next
  case False
  with assms show ?thesis by (auto simp: child_stack_def)
qed

lemma clone_spec:
  assumes "pool_invar (the_pool g)" and "process_clone hw parent pid g = Done (p, g')"
  shows "pr_pid p = pid \<and> \<not> is_dead p \<and> pr_parent_pid p = Some (pr_pid parent) \<and> pool_invar (the_pool g')
    \<and> set_option (pr_kernel_stack_slot p) \<inter> pool_taken (the_pool g) = {}
    \<and> pool_taken (the_pool g') = pool_taken (the_pool g) \<union> set_option (pr_kernel_stack_slot p)"
proof -
  obtain kt ks where c: "child_stack hw parent g = Done ((kt, ks), g')"
      and p: "pr_pid p = pid" "pr_state p = Ready" "pr_kernel_stack_slot p = ks" "pr_parent_pid p = Some (pr_pid parent)"
    using assms(2) by (auto simp: process_clone_def obind_eq_Done_iff Let_def)
  from child_stack_spec [OF assms(1) c] p show ?thesis by (simp add: is_dead_def)
qed

lemma fork_invar:
  assumes inv: "k_invar k" and f: "fork hw pp k = Done (r, k')"
  shows "k_invar k'"
proof (cases "get_process k pp")
  case None
  then have "k' = k\<lparr>k_next_pid := k_next_pid k + 1\<rparr>" using f by (auto simp: fork_def Let_def get_process_def)
  then show ?thesis using inv by (auto simp: k_invar_def less_Suc_eq)
next
  case (Some parent)
  then obtain p g where c: "process_clone hw parent (k_next_pid k) (k_stacks k) = Done (p, g)"
      and "k' = k\<lparr>k_next_pid := k_next_pid k + 1, k_stacks := g, k_processes := k_processes k @ [p],
        k_fds := clone_process_fds pp (k_next_pid k) (k_fds k)\<rparr>"
    using f by (auto simp: fork_def Let_def get_process_def obind_eq_Done_iff)
  with push_invar [OF inv, of p g] clone_spec [OF _ c] inv show ?thesis by (auto simp: k_invar_def)
qed

lemma wait_invar:
  assumes inv: "k_invar k"
  shows "k_invar (snd (wait pp k))"
proof (cases "find (\<lambda>p. pr_parent_pid p = Some pp \<and> pr_state p = Zombie) (k_processes k)")
  case (Some c)
  then have c: "c \<in> set (k_processes k)" "pr_state c = Zombie" by (auto dest: find_SomeD)
  have "held_slots (filter (\<lambda>p. pr_pid p \<noteq> pr_pid c) (k_processes k)) = held_slots (k_processes k)"
  proof (rule held_slots_filter)
    fix p assume "p \<in> set (k_processes k)" "\<not> pr_pid p \<noteq> pr_pid c"
    then have "p = c" using inv c distinct_pid_eq by (auto simp: k_invar_def)
    with inv c show "pr_kernel_stack_slot p = None" by (auto simp: k_invar_def is_dead_def)
  qed
  with Some inv show ?thesis by (auto simp: wait_def k_invar_def distinct_map_filter)
next
  case None
  then show ?thesis using inv by (auto simp: wait_def Let_def is_dead_def intro!: modify_invar)
qed

lemma cleanup_invar:
  assumes inv: "k_invar k"
  shows "k_invar (cleanup_dead_processes k)"
proof -
  have "held_slots (filter (\<lambda>p. \<not> is_dead p) (k_processes k)) = held_slots (k_processes k)"
    by (rule held_slots_filter) (use inv in \<open>auto simp: k_invar_def\<close>)
  with inv show ?thesis by (auto simp: cleanup_dead_processes_def k_invar_def distinct_map_filter Let_def)
qed

lemma set_current_invar: "k_invar k \<Longrightarrow> k_invar (set_current pid k)"
  using modify_invar [of k "\<lambda>p. p\<lparr>pr_state := Running\<rparr>" pid]
  by (auto simp: set_current_def is_dead_def k_invar_def split: option.split)

lemma exec_invar: "k_invar k \<Longrightarrow> k_invar (snd (exec pid e a n k))"
  by (auto simp: exec_def is_dead_def intro!: modify_invar split: option.split)

lemma terminate_invar: "k_invar k \<Longrightarrow> k_invar (terminate_process pid k)"
  by (simp add: terminate_process_def clear_current_invar end_process_invar)

lemma send_signal_invar: "k_invar k \<Longrightarrow> k_invar (snd (send_signal pid sig k))"
  by (auto simp: send_signal_def is_dead_def clear_current_invar end_process_invar
      intro!: modify_invar split: option.split default_action.split)

lemma exit_invar: "k_invar k \<Longrightarrow> k_invar (exit_process pid code k)"
  by (auto simp: exit_process_def is_dead_def end_process_invar Let_def
      intro!: modify_invar clear_current_invar split: option.split if_splits)

lemma deliver_one_invar: "k_invar k \<Longrightarrow> k_invar (snd (deliver_one pid sig k))"
  by (auto simp: deliver_one_def is_dead_def Let_def
      intro!: modify_invar clear_current_invar end_process_invar split: default_action.split if_splits)

lemma deliver_loop_invar: "k_invar k \<Longrightarrow> k_invar (snd (deliver_loop pid d sigs k))"
proof (induction sigs arbitrary: k)
  case (Cons sig sigs)
  with deliver_one_invar [of k pid sig] show ?case
    by (auto split: prod.splits bool.splits)
qed simp

lemma deliver_invar: "k_invar k \<Longrightarrow> k_invar (snd (deliver_pending_signals pid k))"
  by (auto simp: deliver_pending_signals_def Let_def deliver_loop_invar split: option.split)

text \<open>Every state the process manager can reach after boot.\<close>

inductive k_reach :: "kernel \<Rightarrow> bool" where
  k_boot: "k_reach (kernel_boot fds)"
| k_create: "k_reach k \<Longrightarrow> create_process hw e n k = Done (pid, k') \<Longrightarrow> k_reach k'"
| k_create_user: "k_reach k \<Longrightarrow> create_user_process hw e u pp k = Done (pid, k') \<Longrightarrow> k_reach k'"
| k_set_current: "k_reach k \<Longrightarrow> k_reach (set_current pid k)"
| k_terminate: "k_reach k \<Longrightarrow> k_reach (terminate_process pid k)"
| k_signal: "k_reach k \<Longrightarrow> k_reach (snd (send_signal pid sig k))"
| k_deliver: "k_reach k \<Longrightarrow> k_reach (snd (deliver_pending_signals pid k))"
| k_fork: "k_reach k \<Longrightarrow> fork hw pp k = Done (r, k') \<Longrightarrow> k_reach k'"
| k_exec: "k_reach k \<Longrightarrow> k_reach (snd (exec pid e2 a sz k))"
| k_exit: "k_reach k \<Longrightarrow> k_reach (exit_process pid code k)"
| k_wait: "k_reach k \<Longrightarrow> k_reach (snd (wait pid k))"
| k_cleanup: "k_reach k \<Longrightarrow> k_reach (cleanup_dead_processes k)"

lemma k_reach_invar: "k_reach k \<Longrightarrow> k_invar k"
  by (induction rule: k_reach.induct)
    (blast intro: kernel_boot_invar create_process_invar create_user_process_invar set_current_invar terminate_invar
      send_signal_invar deliver_invar fork_invar exec_invar exit_invar wait_invar cleanup_invar)+

end
