(* ===== verification/Capability.thy ===== *)
theory Capability
  imports Process Users
begin

text \<open>
  Capabilities (\<^verbatim>\<open>src/capability.rs\<close>): the capability names and numbers, the bit set of granted
  capabilities, the table of initial sets per uid, and the checks that consult the running
  process. Names are ASCII strings, for which \<open>to_lowercase\<close> only changes the letters A to Z.
\<close>

section \<open>Capabilities\<close>

datatype capability = Chown | DacOverride | DacReadSearch | Fowner | Fsetid | Kill | Setgid | Setuid
  | Setpcap | NetBindService | NetAdmin | NetRaw | SysModule | SysAdmin | SysBoot | SysNice
  | SysResource | SysTime | Mknod | Audit

definition cap_num :: "capability \<Rightarrow> nat" where
  "cap_num c = (case c of
     Chown \<Rightarrow> 0 | DacOverride \<Rightarrow> 1 | DacReadSearch \<Rightarrow> 2 | Fowner \<Rightarrow> 3 | Fsetid \<Rightarrow> 4 | Kill \<Rightarrow> 5
   | Setgid \<Rightarrow> 6 | Setuid \<Rightarrow> 7 | Setpcap \<Rightarrow> 8 | NetBindService \<Rightarrow> 10 | NetAdmin \<Rightarrow> 12 | NetRaw \<Rightarrow> 13
   | SysModule \<Rightarrow> 16 | SysAdmin \<Rightarrow> 21 | SysBoot \<Rightarrow> 22 | SysNice \<Rightarrow> 23 | SysResource \<Rightarrow> 24 | SysTime \<Rightarrow> 25
   | Mknod \<Rightarrow> 27 | Audit \<Rightarrow> 30)"

definition to_lower :: "char \<Rightarrow> char" where
  "to_lower c = (if of_char c \<ge> (65 :: nat) \<and> of_char c \<le> (90 :: nat) then char_of (of_char c + 32 :: nat) else c)"

definition to_lowercase :: "string \<Rightarrow> string" where "to_lowercase s = map to_lower s"

definition cap_keyword :: "string \<Rightarrow> capability option" where
  "cap_keyword s = map_of
     [(''chown'', Chown), (''dac_override'', DacOverride), (''dac_read_search'', DacReadSearch),
      (''fowner'', Fowner), (''fsetid'', Fsetid), (''kill'', Kill), (''setgid'', Setgid),
      (''setuid'', Setuid), (''setpcap'', Setpcap), (''net_bind_service'', NetBindService),
      (''net_raw'', NetRaw), (''net_admin'', NetAdmin), (''sys_module'', SysModule),
      (''sys_admin'', SysAdmin), (''sys_boot'', SysBoot), (''sys_nice'', SysNice),
      (''sys_resource'', SysResource), (''sys_time'', SysTime), (''mknod'', Mknod),
      (''audit_write'', Audit)] s"

definition cap_parse :: "string \<Rightarrow> capability option" where
  "cap_parse s =
     (let lc = to_lowercase s;
          stripped = (case strip_prefix ''cap_'' lc of Some r \<Rightarrow> r | None \<Rightarrow> lc)
      in cap_keyword stripped)"

definition cap_name :: "capability \<Rightarrow> string" where
  "cap_name c = (case c of
     Chown \<Rightarrow> ''CAP_CHOWN'' | DacOverride \<Rightarrow> ''CAP_DAC_OVERRIDE'' | DacReadSearch \<Rightarrow> ''CAP_DAC_READ_SEARCH''
   | Fowner \<Rightarrow> ''CAP_FOWNER'' | Fsetid \<Rightarrow> ''CAP_FSETID'' | Kill \<Rightarrow> ''CAP_KILL'' | Setgid \<Rightarrow> ''CAP_SETGID''
   | Setuid \<Rightarrow> ''CAP_SETUID'' | Setpcap \<Rightarrow> ''CAP_SETPCAP'' | NetBindService \<Rightarrow> ''CAP_NET_BIND_SERVICE''
   | NetRaw \<Rightarrow> ''CAP_NET_RAW'' | NetAdmin \<Rightarrow> ''CAP_NET_ADMIN'' | SysModule \<Rightarrow> ''CAP_SYS_MODULE''
   | SysAdmin \<Rightarrow> ''CAP_SYS_ADMIN'' | SysBoot \<Rightarrow> ''CAP_SYS_BOOT'' | SysNice \<Rightarrow> ''CAP_SYS_NICE''
   | SysResource \<Rightarrow> ''CAP_SYS_RESOURCE'' | SysTime \<Rightarrow> ''CAP_SYS_TIME'' | Mknod \<Rightarrow> ''CAP_MKNOD''
   | Audit \<Rightarrow> ''CAP_AUDIT_WRITE'')"

definition cap_all :: "capability list" where
  "cap_all = [Chown, DacOverride, DacReadSearch, Fowner, Fsetid, Kill, Setgid, Setuid, Setpcap,
     NetBindService, NetRaw, NetAdmin, SysModule, SysAdmin, SysBoot, SysNice, SysResource, SysTime,
     Mknod, Audit]"

section \<open>Sets of capabilities\<close>

record cap_set =
  cs_bits :: u64

definition cs_empty :: cap_set where "cs_empty = \<lparr>cs_bits = 0\<rparr>"
definition cs_full :: cap_set where "cs_full = \<lparr>cs_bits = - 1\<rparr>"
definition cs_has :: "cap_set \<Rightarrow> capability \<Rightarrow> bool" where
  "cs_has s c \<longleftrightarrow> cs_bits s AND push_bit (cap_num c) 1 \<noteq> 0"
definition cs_grant :: "capability \<Rightarrow> cap_set \<Rightarrow> cap_set" where
  "cs_grant c s = s\<lparr>cs_bits := cs_bits s OR push_bit (cap_num c) 1\<rparr>"
definition cs_revoke :: "capability \<Rightarrow> cap_set \<Rightarrow> cap_set" where
  "cs_revoke c s = s\<lparr>cs_bits := cs_bits s AND NOT (push_bit (cap_num c) 1)\<rparr>"
definition cs_from_raw :: "u64 \<Rightarrow> cap_set" where "cs_from_raw b = \<lparr>cs_bits = b\<rparr>"

section \<open>Initial sets per uid\<close>

record cap_table =
  ct_by_uid :: "u32 \<rightharpoonup> cap_set"

definition ct_new :: cap_table where "ct_new = \<lparr>ct_by_uid = (\<lambda>_. None)\<rparr>"

definition ct_install_defaults :: "cap_table \<Rightarrow> cap_table" where
  "ct_install_defaults t = t\<lparr>ct_by_uid := (ct_by_uid t)(0 \<mapsto> cs_full)\<rparr>"

definition ct_for_uid :: "cap_table \<Rightarrow> u32 \<Rightarrow> cap_set" where
  "ct_for_uid t uid =
     (if uid = 0 then cs_full else case ct_by_uid t uid of Some s \<Rightarrow> s | None \<Rightarrow> cs_empty)"

definition ct_entry :: "cap_table \<Rightarrow> u32 \<Rightarrow> cap_set" where
  "ct_entry t uid = (case ct_by_uid t uid of Some s \<Rightarrow> s | None \<Rightarrow> cs_empty)"

definition ct_grant :: "u32 \<Rightarrow> capability \<Rightarrow> cap_table \<Rightarrow> cap_table" where
  "ct_grant uid c t = t\<lparr>ct_by_uid := (ct_by_uid t)(uid \<mapsto> cs_grant c (ct_entry t uid))\<rparr>"

definition ct_revoke :: "u32 \<Rightarrow> capability \<Rightarrow> cap_table \<Rightarrow> cap_table" where
  "ct_revoke uid c t = t\<lparr>ct_by_uid := (ct_by_uid t)(uid \<mapsto> cs_revoke c (ct_entry t uid))\<rparr>"

section \<open>Checks on the running process\<close>

text \<open>\<open>current_process_mut\<close> followed by an assignment.\<close>

definition modify_current :: "(process \<Rightarrow> process) \<Rightarrow> kernel \<Rightarrow> kernel" where
  "modify_current f k = (case current_process k of None \<Rightarrow> k | Some p \<Rightarrow> modify_process (pr_pid p) f k)"

definition reseed_for_uid :: "cap_table \<Rightarrow> u32 \<Rightarrow> kernel \<Rightarrow> kernel" where
  "reseed_for_uid t uid k =
     (let seed = ct_for_uid t uid in
      modify_current (\<lambda>p. p\<lparr>pr_cap_effective := cs_bits seed, pr_cap_permitted := cs_bits seed\<rparr>) k)"

definition current_effective :: "cap_table \<Rightarrow> credentials \<Rightarrow> kernel \<Rightarrow> cap_set" where
  "current_effective t creds k =
     (case current_process k of
        Some p \<Rightarrow> cs_from_raw (pr_cap_effective p)
      | None \<Rightarrow> ct_for_uid t (c_euid creds))"

definition current_has :: "cap_table \<Rightarrow> credentials \<Rightarrow> kernel \<Rightarrow> capability \<Rightarrow> bool" where
  "current_has t creds k c = cs_has (current_effective t creds k) c"

definition cap_check :: "cap_table \<Rightarrow> credentials \<Rightarrow> kernel \<Rightarrow> capability \<Rightarrow> bool" where
  "cap_check t creds k c = (if c_euid creds = 0 then True else current_has t creds k c)"

definition drop_self :: "capability \<Rightarrow> kernel \<Rightarrow> kernel" where
  "drop_self c k =
     modify_current (\<lambda>p.
       let eff = cs_revoke c (cs_from_raw (pr_cap_effective p));
           perm = cs_revoke c (cs_from_raw (pr_cap_permitted p))
       in p\<lparr>pr_cap_effective := cs_bits eff, pr_cap_permitted := cs_bits perm\<rparr>) k"

section \<open>The bit set is a set\<close>

locale set_interface =
  fixes isin :: "'s \<Rightarrow> 'a \<Rightarrow> bool"
    and add :: "'a \<Rightarrow> 's \<Rightarrow> 's"
    and del :: "'a \<Rightarrow> 's \<Rightarrow> 's"
  assumes isin_add: "isin (add x s) y \<longleftrightarrow> y = x \<or> isin s y"
    and isin_del: "isin (del x s) y \<longleftrightarrow> y \<noteq> x \<and> isin s y"
begin

definition members :: "'s \<Rightarrow> 'a set" where "members s = {x. isin s x}"

lemma members_add: "members (add x s) = insert x (members s)"
  by (auto simp: members_def isin_add)

lemma members_del: "members (del x s) = members s - {x}"
  by (auto simp: members_def isin_del)

lemma members_fold_add: "members (fold add xs s) = set xs \<union> members s"
  by (induction xs arbitrary: s) (auto simp: members_add)

lemma members_fold_del: "members (fold del xs s) = members s - set xs"
  by (induction xs arbitrary: s) (auto simp: members_del)

end

lemma cap_num_less: "cap_num c < 64"
  by (cases c) (simp_all add: cap_num_def)

lemma cap_num_inj [simp]: "cap_num c = cap_num d \<longleftrightarrow> c = d"
  by (cases c; cases d) (simp_all add: cap_num_def)

lemma cs_has_bit: "cs_has s c \<longleftrightarrow> bit (cs_bits s) (cap_num c)"
  using and_bit_mask_nonzero [of "cs_bits s" "cap_num c"] by (simp add: cs_has_def bit_mask_def)

interpretation caps: set_interface cs_has cs_grant cs_revoke
proof unfold_locales
  fix c d s
  show "cs_has (cs_grant c s) d \<longleftrightarrow> d = c \<or> cs_has s d"
    using bit_set_mask [of "cap_num c" "cs_bits s" "cap_num d"] cap_num_less [of c]
    by (auto simp: cs_has_bit cs_grant_def bit_mask_def)
  show "cs_has (cs_revoke c s) d \<longleftrightarrow> d \<noteq> c \<and> cs_has s d"
    using bit_clear_mask [of "cs_bits s" "cap_num c" "cap_num d"]
    by (auto simp: cs_has_bit cs_revoke_def bit_mask_def)
qed

lemma cs_has_full [simp]: "cs_has cs_full c"
  by (simp add: cs_has_bit cs_full_def cap_num_less)

lemma cs_has_empty [simp]: "\<not> cs_has cs_empty c"
  by (simp add: cs_has_bit cs_empty_def)

lemma current_modify:
  assumes "\<And>p. pr_pid (f p) = pr_pid p"
  shows "current_process (modify_current f k) = map_option f (current_process k)"
proof (cases "current_process k")
  case (Some p)
  then have "k_current_pid k = Some (pr_pid p)" "get_process k (pr_pid p) = Some p"
    by (auto simp: current_process_def split: option.splits dest: get_process_pid)
  with Some assms show ?thesis
    by (simp add: modify_current_def current_process_def get_modify_process)
qed (simp add: modify_current_def)

lemma drop_self_effective:
  "current_process k = Some p \<Longrightarrow> \<exists>q. current_process (drop_self c k) = Some q
     \<and> cs_from_raw (pr_cap_effective q) = cs_revoke c (cs_from_raw (pr_cap_effective p))
     \<and> cs_from_raw (pr_cap_permitted q) = cs_revoke c (cs_from_raw (pr_cap_permitted p))"
  unfolding drop_self_def by (subst current_modify) (simp_all add: Let_def cs_from_raw_def cs_revoke_def)

lemma fold_drop_self_effective:
  "current_process k = Some p \<Longrightarrow> \<exists>q. current_process (fold drop_self cs k) = Some q
     \<and> cs_from_raw (pr_cap_effective q) = fold cs_revoke cs (cs_from_raw (pr_cap_effective p))"
proof (induction cs arbitrary: k p)
  case (Cons c cs)
  obtain q where "current_process (drop_self c k) = Some q"
      "cs_from_raw (pr_cap_effective q) = cs_revoke c (cs_from_raw (pr_cap_effective p))"
    using drop_self_effective [OF Cons.prems] by blast
  with Cons.IH [of "drop_self c k" q] show ?case by simp
qed simp

section \<open>Properties\<close>

text \<open>
  Every capability name that name() prints, in upper or lower case, is parsed back
  to the same capability.
\<close>
theorem cap_parse_name:
  "cap_parse (cap_name c) = Some c \<and> cap_parse (to_lowercase (cap_name c)) = Some c"
  by (cases c) (simp_all, code_simp+)

text \<open>
  C38: for a session whose effective uid is not root, once the running process has been
  reseeded for a uid and has dropped a list of capabilities, a privileged operation is allowed
  exactly when the uid's initial set has the capability and it was not dropped; nothing but a
  reseed brings a dropped capability back.
\<close>
theorem reseed_then_drop:
  assumes "current_process k = Some p" and "c_euid creds \<noteq> 0"
  shows "cap_check t creds (fold drop_self cs (reseed_for_uid t uid k)) c
    \<longleftrightarrow> cs_has (ct_for_uid t uid) c \<and> c \<notin> set cs"
proof -
  let ?f = "\<lambda>p :: process. p\<lparr>pr_cap_effective := cs_bits (ct_for_uid t uid), pr_cap_permitted := cs_bits (ct_for_uid t uid)\<rparr>"
  have "current_process (reseed_for_uid t uid k) = Some (?f p)"
    unfolding reseed_for_uid_def Let_def by (subst current_modify) (simp_all add: assms(1))
  moreover have "cs_from_raw (cs_bits s) = s" for s by (simp add: cs_from_raw_def)
  ultimately obtain q where q: "current_process (fold drop_self cs (reseed_for_uid t uid k)) = Some q"
      "cs_from_raw (pr_cap_effective q) = fold cs_revoke cs (ct_for_uid t uid)"
    using fold_drop_self_effective [of _ "?f p" cs] by fastforce
  have "cs_has (fold cs_revoke cs (ct_for_uid t uid)) c \<longleftrightarrow> cs_has (ct_for_uid t uid) c \<and> c \<notin> set cs"
    using caps.members_fold_del [of cs "ct_for_uid t uid"] unfolding caps.members_def by blast
  with q assms(2) show ?thesis by (simp add: cap_check_def current_has_def current_effective_def)
qed

theorem reseed_then_drop_witness:
  "\<exists>k creds. c_euid creds \<noteq> 0 \<and> cap_check ct_new creds (fold drop_self [Kill] (reseed_for_uid ct_new 0 k)) Chown
     \<and> \<not> cap_check ct_new creds (fold drop_self [Kill] (reseed_for_uid ct_new 0 k)) Kill"
proof -
  let ?hw = "\<lparr>hw_stack_ptr = 0, hw_map_pages = (\<lambda>_. Done True), hw_pagetable = None, hw_user_cs = 0, hw_user_ss = 0\<rparr>"
  let ?p = "process_new ?hw 1 0 0"
  let ?k = "(kernel_boot undefined)\<lparr>k_processes := [?p], k_current_pid := Some 1\<rparr>"
  let ?creds = "credentials_default\<lparr>c_euid := 1000\<rparr>"
  have p: "current_process ?k = Some ?p" by (simp add: current_process_def get_process_def process_new_def)
  have e: "c_euid ?creds \<noteq> 0" by simp
  have "cap_check ct_new ?creds (fold drop_self [Kill] (reseed_for_uid ct_new 0 ?k)) c \<longleftrightarrow> c \<noteq> Kill" for c
    using reseed_then_drop [OF p e, of ct_new "[Kill]" 0 c] by (simp add: ct_for_uid_def)
  then have "cap_check ct_new ?creds (fold drop_self [Kill] (reseed_for_uid ct_new 0 ?k)) Chown
      \<and> \<not> cap_check ct_new ?creds (fold drop_self [Kill] (reseed_for_uid ct_new 0 ?k)) Kill" by simp
  with e show ?thesis by blast
qed

end
