(* ===== verification/ProcessProtocol.thy ===== *)
theory ProcessProtocol
  imports Process
begin

text \<open>
  What the operations of the process manager do together: the fork, exit and wait protocol,
  the effect of SIGKILL on a waiting parent, and the delivery of pending signals. The theorems
  rest on the invariant of the process table proved in theory \<open>Process\<close>.
\<close>

section \<open>Fork, exit and wait\<close>

lemma update_first_append:
  "update_first P f (xs @ ys) = (if \<exists>x \<in> set xs. P x then update_first P f xs @ ys else xs @ update_first P f ys)"
  by (induction xs) auto

lemma find_append_last: "(\<And>x. x \<in> set xs \<Longrightarrow> \<not> P x) \<Longrightarrow> P y \<Longrightarrow> find P (xs @ [y]) = Some y"
  by (induction xs) auto

lemma exit_forked_processes:
  assumes ps: "k_processes k = ps @ [c]" and fresh: "\<forall>p \<in> set ps. pr_pid p \<noteq> pr_pid c"
    and parent: "pr_parent_pid c = Some pp" "\<exists>p \<in> set ps. pr_pid p = pp"
  shows "k_processes (exit_process (pr_pid c) code k) =
    update_first (\<lambda>p. pr_pid p = pp) (\<lambda>p. if pr_state p = Waiting then p\<lparr>pr_state := Ready\<rparr> else p) ps
    @ [c\<lparr>pr_state := Zombie, pr_exit_code := Some code, pr_kernel_stack_slot := None\<rparr>]"
proof -
  have get: "get_process k (pr_pid c) = Some c"
    unfolding get_process_def ps by (rule find_append_last) (use fresh in auto)
  have none: "\<not> (\<exists>p \<in> set ps. pr_pid p = pr_pid c)" using fresh by auto
  show ?thesis
    by (simp add: exit_process_def end_process_def get parent ps Let_def update_first_append none)
qed

section \<open>Signal delivery\<close>

definition fatal :: "u64 \<Rightarrow> nat \<Rightarrow> bool" where
  "fatal d sig \<longleftrightarrow> bit d sig \<and> signal_default_action sig = Terminate"

lemma get_end_process:
  "get_process (end_process pid st code k) q =
     (if q = pid then map_option (\<lambda>p. p\<lparr>pr_state := st,
        pr_exit_code := (case code of None \<Rightarrow> pr_exit_code p | Some c \<Rightarrow> Some c), pr_kernel_stack_slot := None\<rparr>) (get_process k pid)
      else get_process k q)"
proof -
  have "get_process (k\<lparr>k_stacks := g\<rparr>) = get_process k" for k g by (simp add: get_process_def fun_eq_iff)
  then show ?thesis
    by (auto simp: end_process_def get_modify_process split: option.split)
qed

lemma deliver_one_get:
  assumes "get_process k pid = Some p" and "deliver_one pid sig k = (b, k')"
  shows "b = (signal_default_action sig = Terminate) \<and> (\<forall>q. q \<noteq> pid \<longrightarrow> get_process k' q = get_process k q)
    \<and> (\<exists>p'. get_process k' pid = Some p' \<and> pr_pending_signals p' = pr_pending_signals p AND NOT (bit_mask sig)
         \<and> (b \<longrightarrow> pr_state p' = Terminated \<and> pr_exit_code p' = Some (128 + of_nat sig) \<and> pr_kernel_stack_slot p' = None))"
  using assms
  by (cases "signal_default_action sig")
    (auto simp: deliver_one_def Let_def get_modify_process get_end_process)

lemma deliver_loop_get:
  assumes "get_process k pid = Some p" and "deliver_loop pid d sigs k = (b, k')"
  shows "b = (find (fatal d) sigs \<noteq> None) \<and> (\<forall>q. q \<noteq> pid \<longrightarrow> get_process k' q = get_process k q)
    \<and> (\<exists>p'. get_process k' pid = Some p' \<and> (\<forall>s. \<not> bit d s \<longrightarrow> bit (pr_pending_signals p') s = bit (pr_pending_signals p) s)
         \<and> (\<forall>sig. find (fatal d) sigs = Some sig \<longrightarrow>
              pr_state p' = Terminated \<and> pr_exit_code p' = Some (128 + of_nat sig) \<and> pr_kernel_stack_slot p' = None))"
  using assms
proof (induction sigs arbitrary: k p)
  case (Cons sig sigs)
  show ?case
  proof (cases "bit d sig")
    case False
    then show ?thesis using Cons.IH [OF Cons.prems(1)] Cons.prems(2) by (simp add: and_bit_mask_nonzero fatal_def)
  next
    case True
    obtain b1 k1 where 1: "deliver_one pid sig k = (b1, k1)" by fastforce
    obtain p1 where p1: "get_process k1 pid = Some p1" "pr_pending_signals p1 = pr_pending_signals p AND NOT (bit_mask sig)"
      using deliver_one_get [OF Cons.prems(1) 1] by blast
    note one = deliver_one_get [OF Cons.prems(1) 1]
    show ?thesis
    proof (cases b1)
      case T: True
      with 1 True Cons.prems(2) have "b" "k' = k1" by (auto simp: and_bit_mask_nonzero)
      with one T True p1 show ?thesis by (auto simp: fatal_def bit_clear_mask)
    next
      case F: False
      with 1 True Cons.prems(2) have rest: "deliver_loop pid d sigs k1 = (b, k')" by (simp add: and_bit_mask_nonzero)
      from Cons.IH [OF p1(1) rest] one F True p1(2) show ?thesis
        by (auto simp: fatal_def bit_clear_mask)
    qed
  qed
qed simp

section \<open>Properties\<close>

text \<open>
  C2: in every state the process manager can reach after boot, through any sequence of
  process creation, fork, exec, signals and their delivery, exit, wait and cleanup: pids are
  unique and below the next one, a kernel-stack slot is marked in use exactly when a process
  holds it (none leaks), no two processes share a slot, and dead processes hold none.
\<close>
theorem process_table_sound:
  assumes "k_reach k"
  shows "distinct (map pr_pid (k_processes k)) \<and> (\<forall>p \<in> set (k_processes k). pr_pid p < k_next_pid k)
    \<and> distinct (held_slots (k_processes k)) \<and> set (held_slots (k_processes k)) = pool_taken (the_pool (k_stacks k))
    \<and> (\<forall>p \<in> set (k_processes k). is_dead p \<longrightarrow> pr_kernel_stack_slot p = None)"
  using k_reach_invar [OF assms] by (simp add: k_invar_def)

definition example_hw :: hardware where
  "example_hw = \<lparr>hw_stack_ptr = 0, hw_map_pages = (\<lambda>_. Done True), hw_pagetable = Some 0x1000, hw_user_cs = 0x2b, hw_user_ss = 0x33\<rparr>"

text \<open>A kernel with one user process, which the witnesses start from.\<close>

lemma one_user_process:
  "\<exists>k. create_user_process example_hw 0x400000 0x7000 None (kernel_boot fds) = Done (1, k) \<and> k_reach k
     \<and> (\<exists>p. k_processes k = [p] \<and> pr_pid p = 1 \<and> pr_parent_pid p = None \<and> pr_state p = Ready
          \<and> pr_kernel_stack_slot p = Some 0 \<and> pr_is_user p)"
proof -
  obtain t where t: "fdt_with_stdio = Done t" using fdt_with_stdio_invar by blast
  have "pool_allocate (\<lambda>_. Done True) pool_new
      = Done (Some (slot_stack_bottom 0, slot_stack_top 0, 0), pool_new\<lparr>in_use := (in_use pool_new)[0 := True]\<rparr>)"
    unfolding pool_allocate_def by (simp add: MAX_PROCESSES_def upt_conv_Cons pool_new_def)
  then have "\<exists>k. create_user_process example_hw 0x400000 0x7000 None (kernel_boot fds) = Done (1, k)
     \<and> (\<exists>p. k_processes k = [p] \<and> pr_pid p = 1 \<and> pr_parent_pid p = None \<and> pr_state p = Ready
          \<and> pr_kernel_stack_slot p = Some 0 \<and> pr_is_user p)"
    by (simp add: create_user_process_def process_new_user_def allocate_kernel_stack_def the_pool_def
        kernel_boot_def example_hw_def t Let_def)
  then show ?thesis using k_create_user [OF k_boot] by blast
qed

theorem process_table_sound_witness:
  "\<exists>k. k_reach k \<and> held_slots (k_processes k) = [0] \<and> pool_taken (the_pool (k_stacks k)) = {0}"
proof -
  obtain k where k: "k_reach k" "held_slots (k_processes k) = [0]"
    using one_user_process [of undefined] by auto
  with process_table_sound [OF k(1)] show ?thesis by (intro exI [of _ k]) auto
qed

text \<open>
  C8: the fork, exit and wait protocol. If a process with no unreaped child forks and the
  child exits with a code, the parent's wait returns exactly the child's pid and that code; the
  child and its descriptor table are gone afterwards and every other process is still there.
\<close>
theorem fork_exit_wait:
  assumes inv: "k_invar k" and parent: "get_process k pp = Some parent"
    and no_zombie: "\<forall>p \<in> set (k_processes k). \<not> (pr_parent_pid p = Some pp \<and> pr_state p = Zombie)"
    and fork: "fork hw pp k = Done (Inr c, k1)"
  shows "\<exists>k3. wait pp (exit_process c code k1) = (Some (c, code), k3)
    \<and> map pr_pid (k_processes k3) = map pr_pid (k_processes k) \<and> get_process k3 c = None
    \<and> PROCESS_FD_TABLES (k_fds k3) c = None"
proof -
  obtain child g where cl: "process_clone hw parent (k_next_pid k) (k_stacks k) = Done (child, g)"
      and k1: "k_processes k1 = k_processes k @ [child]" and c: "c = k_next_pid k"
    using fork parent by (auto simp: fork_def Let_def get_process_def obind_eq_Done_iff)
  have child: "pr_pid child = c" "pr_parent_pid child = Some pp"
    using clone_spec [OF _ cl] inv parent get_process_pid [OF parent] c by (auto simp: k_invar_def)
  have old: "\<forall>p \<in> set (k_processes k). pr_pid p \<noteq> c" using inv c by (auto simp: k_invar_def)
  have pp: "\<exists>p \<in> set (k_processes k). pr_pid p = pp" using get_process_pid [OF parent] by blast
  define g where "g = (\<lambda>p :: process. if pr_state p = Waiting then p\<lparr>pr_state := Ready\<rparr> else p)"
  define z where "z = child\<lparr>pr_state := Zombie, pr_exit_code := Some code, pr_kernel_stack_slot := None\<rparr>"
  let ?ps = "update_first (\<lambda>p. pr_pid p = pp) g (k_processes k)"
  have k2: "k_processes (exit_process c code k1) = ?ps @ [z]"
    using exit_forked_processes [OF k1 _ child(2) pp] old child(1) by (simp add: g_def z_def)
  have pids: "map pr_pid ?ps = map pr_pid (k_processes k)" by (rule map_update_first) (simp add: g_def)
  have nz: "\<not> (pr_parent_pid p = Some pp \<and> pr_state p = Zombie)" if "p \<in> set ?ps" for p
    using in_set_update_first [OF that] no_zombie by (auto simp: g_def split: if_splits)
  have z: "pr_pid z = c" "pr_exit_code z = Some code" "pr_parent_pid z = Some pp" "pr_state z = Zombie"
    using child by (simp_all add: z_def)
  have find: "find (\<lambda>p. pr_parent_pid p = Some pp \<and> pr_state p = Zombie) (?ps @ [z]) = Some z"
    by (rule find_append_last) (use nz z in auto)
  have "c \<notin> set (map pr_pid ?ps)" using old unfolding pids by auto
  then have others: "\<forall>p \<in> set ?ps. pr_pid p \<noteq> c" by auto
  then have kept: "filter (\<lambda>p. pr_pid p \<noteq> c) (?ps @ [z]) = ?ps" using z(1) by (simp add: filter_id_conv)
  let ?k2 = "exit_process c code k1"
  let ?k3 = "?k2\<lparr>k_processes := ?ps, k_fds := unregister_process c (k_fds ?k2)\<rparr>"
  have "wait pp ?k2 = (Some (c, code), ?k3)"
    unfolding wait_def k2 find using z kept by simp
  moreover have "get_process ?k3 c = None" using others by (simp add: get_process_def find_None_iff)
  moreover have "PROCESS_FD_TABLES (k_fds ?k3) c = None" by (simp add: unregister_process_def)
  ultimately show ?thesis using pids by (intro exI [of _ ?k3]) simp
qed

theorem fork_exit_wait_witness:
  "\<exists>k k1 k3. fork example_hw 1 k = Done (Inr 2, k1) \<and> wait 1 (exit_process 2 7 k1) = (Some (2, 7), k3)"
proof -
  obtain k p where k: "create_user_process example_hw 0x400000 0x7000 None (kernel_boot undefined) = Done (1, k)" "k_reach k"
      "k_processes k = [p]" "pr_pid p = 1" "pr_parent_pid p = None" "pr_state p = Ready" "pr_kernel_stack_slot p = Some 0"
    using one_user_process [of undefined] by blast
  have np: "k_next_pid k = 2"
    using k(1) by (auto simp: create_user_process_def Let_def obind_eq_Done_iff kernel_boot_def)
  have get: "get_process k 1 = Some p" using k by (simp add: get_process_def)
  have "pool_invar (the_pool (k_stacks k))" using k_reach_invar [OF k(2)] by (simp add: k_invar_def)
  then have "\<exists>r g. child_stack example_hw p (k_stacks k) = Done (r, g)"
    by (auto simp: child_stack_def allocate_kernel_stack_def pool_allocate_first example_hw_def split: option.split)
  then have "\<exists>c g. process_clone example_hw p 2 (k_stacks k) = Done (c, g)"
    by (auto simp: process_clone_def Let_def)
  then obtain k1 where f: "fork example_hw 1 k = Done (Inr 2, k1)"
    using get np by (auto simp: fork_def Let_def get_process_def)
  from fork_exit_wait [OF k_reach_invar [OF k(2)] get _ f, of 7] k(3,5) f show ?thesis by auto
qed

text \<open>
  C40: SIGKILL strands a waiting parent. If a parent waits and its only child is killed with
  SIGKILL, the parent stays in the state Waiting (only exit wakes it) and a further wait
  reports no child and leaves everything unchanged: the exit status is never collected.
\<close>
theorem sigkill_strands_parent:
  assumes "get_process k pp = Some parent" and "pr_state parent = Waiting"
    and "get_process k c = Some child" and "pr_parent_pid child = Some pp" and "c \<noteq> pp" and "\<not> is_dead child"
    and "\<forall>p \<in> set (k_processes k). pr_parent_pid p = Some pp \<longrightarrow> p = child" and "distinct (map pr_pid (k_processes k))"
  shows "\<exists>k'. send_signal c SIGKILL k = (Inr (), k') \<and> get_process k' pp = Some parent \<and> wait pp k' = (None, k')"
proof -
  let ?f = "\<lambda>p :: process. p\<lparr>pr_state := Terminated, pr_exit_code := Some (128 + 9), pr_kernel_stack_slot := None\<rparr>"
  define k' where "k' = clear_current c (end_process c Terminated (Some (128 + 9)) k)"
  have send: "send_signal c SIGKILL k = (Inr (), k')"
    using assms(3,6) by (simp add: send_signal_def signal_is_valid_def signal_default_action_def is_dead_def k'_def)
  have get: "get_process k' pp = Some parent" using assms(1,5) by (simp add: k'_def get_end_process)
  have c: "pr_pid child = c" using get_process_pid [OF assms(3)] by simp
  have ps: "k_processes k' = update_first (\<lambda>p. pr_pid p = c) ?f (k_processes k)"
    using assms(3) by (simp add: k'_def end_process_def)
  have dead: "pr_state p = Terminated" if "p \<in> set (k_processes k')" "pr_parent_pid p = Some pp" for p
  proof (rule ccontr)
    assume alive: "pr_state p \<noteq> Terminated"
    with that ps have "p \<in> set (k_processes k)" by (auto dest!: in_set_update_first)
    with that assms(7) have p: "p = child" by simp
    have "get_process k' c = Some (?f child)" using assms(3) by (simp add: k'_def get_end_process)
    then have f: "?f child \<in> set (k_processes k')" using get_process_pid by blast
    have "distinct (map pr_pid (k_processes k'))" using assms(8) by (simp add: ps map_update_first)
    then have "p = ?f child" using that(1) f by (rule distinct_pid_eq) (simp add: p)
    with alive show False by simp
  qed
  then have "find (\<lambda>p. pr_parent_pid p = Some pp \<and> pr_state p = Zombie) (k_processes k') = None"
    by (auto simp: find_None_iff)
  moreover have "\<not> list_ex (\<lambda>p. pr_parent_pid p = Some pp \<and> pr_state p \<noteq> Terminated) (k_processes k')"
    using dead by (auto simp: list_ex_iff)
  ultimately have "wait pp k' = (None, k')" by (simp add: wait_def)
  with send get show ?thesis by blast
qed

text \<open>
  C35: signal delivery. Delivering the pending signals of a process reports termination
  exactly when an unblocked pending signal has the default action to terminate, and then the
  process is Terminated with exit code 128 plus the lowest such signal and holds no kernel
  stack; blocked signals stay pending, and no other process changes.
\<close>
theorem deliver_pending_spec:
  assumes "get_process k pid = Some p" and "deliver_pending_signals pid k = (b, k')"
  defines "d \<equiv> pr_pending_signals p AND NOT (pr_signal_blocked p)"
  shows "b = (find (fatal d) [1..<32] \<noteq> None) \<and> (\<forall>q. q \<noteq> pid \<longrightarrow> get_process k' q = get_process k q)
    \<and> (\<exists>p'. get_process k' pid = Some p'
         \<and> (\<forall>s. bit (pr_signal_blocked p) s \<longrightarrow> bit (pr_pending_signals p') s = bit (pr_pending_signals p) s)
         \<and> (\<forall>sig. find (fatal d) [1..<32] = Some sig \<longrightarrow>
              pr_state p' = Terminated \<and> pr_exit_code p' = Some (128 + of_nat sig) \<and> pr_kernel_stack_slot p' = None))"
proof (cases "d = 0")
  case True
  then have "find (fatal d) [1..<32] = None" by (auto simp: find_None_iff fatal_def)
  moreover have "b = False" "k' = k" using assms True by (auto simp: deliver_pending_signals_def d_def Let_def)
  ultimately show ?thesis using assms(1) by simp
next
  case False
  then have "deliver_loop pid d [1..<32] k = (b, k')"
    using assms by (simp add: deliver_pending_signals_def d_def Let_def)
  from deliver_loop_get [OF assms(1) this] show ?thesis
    by (auto simp: d_def bit_and_iff bit_not_iff)
qed

theorem sigkill_strands_parent_witness:
  "\<exists>k k' parent. send_signal 2 SIGKILL k = (Inr (), k') \<and> get_process k' 1 = Some parent \<and> pr_state parent = Waiting
     \<and> wait 1 k' = (None, k')"
proof -
  let ?parent = "(process_new example_hw 1 0 0)\<lparr>pr_state := Waiting\<rparr>"
  let ?child = "(process_new example_hw 2 0 0)\<lparr>pr_parent_pid := Some 1\<rparr>"
  let ?k = "(kernel_boot undefined)\<lparr>k_processes := [?parent, ?child], k_next_pid := 3\<rparr>"
  have "\<exists>k'. send_signal 2 SIGKILL ?k = (Inr (), k') \<and> get_process k' 1 = Some ?parent \<and> wait 1 k' = (None, k')"
    by (rule sigkill_strands_parent [of _ _ _ _ ?child])
      (simp_all add: get_process_def process_new_def is_dead_def kernel_boot_def)
  moreover have "pr_state ?parent = Waiting" by simp
  ultimately show ?thesis by blast
qed

theorem deliver_pending_spec_witness:
  "\<exists>k k' p'. deliver_pending_signals 1 k = (True, k') \<and> get_process k' 1 = Some p' \<and> pr_exit_code p' = Some 130"
proof -
  let ?p = "(process_new example_hw 1 0 0)\<lparr>pr_pending_signals := 2 ^ 2 + 2 ^ 15\<rparr>"
  let ?k = "(kernel_boot undefined)\<lparr>k_processes := [?p], k_next_pid := 2\<rparr>"
  obtain b k' where d: "deliver_pending_signals 1 ?k = (b, k')" by fastforce
  have get: "get_process ?k 1 = Some ?p" by (simp add: get_process_def process_new_def)
  have "find (fatal (pr_pending_signals ?p AND NOT (pr_signal_blocked ?p))) [1..<32] = Some 2"
    by (simp add: process_new_def upt_conv_Cons fatal_def signal_default_action_def)
  with deliver_pending_spec [OF get d] d show ?thesis by auto
qed

end
