(* ===== verification/Smp.thy ===== *)
theory Smp
  imports Prelude "HOL-Library.Multiset"
begin

text \<open>
  Per-CPU run queues (\<^verbatim>\<open>src/smp.rs\<close>): a slot for each APIC id with a liveness flag, a FIFO of pids
  and a cached queue length that routing decisions read. Bringing a processor up (the
  trampoline, the handshake pages, the local APIC) is hardware work and is not modelled; every
  operation here runs to completion, since each takes one run-queue lock at most.
\<close>

section \<open>Processor slots\<close>

record cpu_state =
  cpu_apic_id :: u8
  cpu_alive :: bool
  cpu_handshake_seen :: u32
  cpu_kernel_stack_top :: u64
  cpu_heartbeat :: u64
  run_queue :: "u32 list"
  run_queue_len :: nat

abbreviation (input) MAX_CPUS :: nat where "MAX_CPUS \<equiv> 32"
abbreviation (input) USIZE_MAX :: nat where "USIZE_MAX \<equiv> 18446744073709551615"

definition cpu_new :: cpu_state where
  "cpu_new = \<lparr>cpu_apic_id = 0, cpu_alive = False, cpu_handshake_seen = 0, cpu_kernel_stack_top = 0, cpu_heartbeat = 0, run_queue = [], run_queue_len = 0\<rparr>"

definition CPUS :: "cpu_state list" where
  "CPUS = replicate MAX_CPUS cpu_new"

definition cpu_enqueue :: "u32 \<Rightarrow> cpu_state \<Rightarrow> cpu_state" where
  "cpu_enqueue pid c = (let q = run_queue c @ [pid] in c\<lparr>run_queue := q, run_queue_len := length q\<rparr>)"

definition cpu_dequeue :: "cpu_state \<Rightarrow> u32 option \<times> cpu_state" where
  "cpu_dequeue c =
     (case run_queue c of
        [] \<Rightarrow> (None, c\<lparr>run_queue_len := 0\<rparr>)
      | p # q \<Rightarrow> (Some p, c\<lparr>run_queue := q, run_queue_len := length q\<rparr>))"

definition cpu_drain :: "cpu_state \<Rightarrow> u32 list \<times> cpu_state" where
  "cpu_drain c = (run_queue c, c\<lparr>run_queue := [], run_queue_len := 0\<rparr>)"

definition init_bsp :: "bool \<Rightarrow> u8 \<Rightarrow> cpu_state list \<Rightarrow> cpu_state list" where
  "init_bsp apic_available lapic_id cpus =
     (if \<not> apic_available then cpus
      else let i = unat lapic_id in if i < MAX_CPUS then cpus[i := (cpus ! i)\<lparr>cpu_alive := True\<rparr>] else cpus)"

text \<open>\<open>cpu_state\<close> hands out a reference: the index of the slot.\<close>

definition cpu_slot :: "u8 \<Rightarrow> nat option" where
  "cpu_slot apic_id = (let idx = unat apic_id in if idx < MAX_CPUS then Some idx else None)"

definition on_cpu :: "u8 \<Rightarrow> (cpu_state \<Rightarrow> cpu_state) \<Rightarrow> cpu_state list \<Rightarrow> cpu_state list" where
  "on_cpu n f cpus = (case cpu_slot n of None \<Rightarrow> cpus | Some i \<Rightarrow> cpus[i := f (cpus ! i)])"

definition alive_cpu_count :: "cpu_state list \<Rightarrow> nat" where
  "alive_cpu_count cpus = length (filter cpu_alive cpus)"

section \<open>Routing\<close>

definition total_runnable :: "cpu_state list \<Rightarrow> nat" where
  "total_runnable cpus = sum_list (map run_queue_len (filter cpu_alive cpus))"

fun least_scan :: "nat \<Rightarrow> cpu_state list \<Rightarrow> nat \<times> nat \<Rightarrow> nat \<times> nat" where
  "least_scan i [] b = b"
| "least_scan i (c # cs) (best, best_load) =
     least_scan (Suc i) cs
       (if \<not> cpu_alive c then (best, best_load)
        else if run_queue_len c < best_load then (i, run_queue_len c) else (best, best_load))"

definition least_loaded_cpu :: "cpu_state list \<Rightarrow> u8" where
  "least_loaded_cpu cpus = of_nat (fst (least_scan 0 cpus (0, USIZE_MAX)))"

definition smp_enqueue_balanced :: "u32 \<Rightarrow> cpu_state list \<Rightarrow> u8 \<times> cpu_state list" where
  "smp_enqueue_balanced pid cpus =
     (let cpu = least_loaded_cpu cpus in (cpu, on_cpu cpu (cpu_enqueue pid) cpus))"

definition dequeue_on :: "u8 \<Rightarrow> cpu_state list \<Rightarrow> u32 option \<times> cpu_state list" where
  "dequeue_on cpu cpus =
     (case cpu_slot cpu of
        None \<Rightarrow> (None, cpus)
      | Some i \<Rightarrow> (fst (cpu_dequeue (cpus ! i)), cpus[i := snd (cpu_dequeue (cpus ! i))]))"

fun steal_scan :: "nat \<Rightarrow> nat \<Rightarrow> cpu_state list \<Rightarrow> nat option \<times> nat \<Rightarrow> nat option \<times> nat" where
  "steal_scan thief i [] b = b"
| "steal_scan thief i (c # cs) (victim, victim_load) =
     steal_scan thief (Suc i) cs
       (if i = thief then (victim, victim_load)
        else if \<not> cpu_alive c then (victim, victim_load)
        else if victim_load < run_queue_len c then (Some i, run_queue_len c) else (victim, victim_load))"

definition steal_from_peer :: "u8 \<Rightarrow> cpu_state list \<Rightarrow> u32 option \<times> cpu_state list" where
  "steal_from_peer thief cpus =
     (case fst (steal_scan (unat thief) 0 cpus (None, 1)) of
        None \<Rightarrow> (None, cpus)
      | Some i \<Rightarrow> dequeue_on (of_nat i) cpus)"

section \<open>What the scans find\<close>

text \<open>The cached length is the length of the queue.\<close>

definition cpus_coherent :: "cpu_state list \<Rightarrow> bool" where
  "cpus_coherent cpus \<longleftrightarrow> length cpus = MAX_CPUS \<and> (\<forall>c \<in> set cpus. run_queue_len c = length (run_queue c))"

lemma least_scan_spec:
  assumes "least_scan i cs (b, l) = (b', l')"
  shows "((b', l') = (b, l) \<or> (\<exists>j < length cs. b' = i + j \<and> cpu_alive (cs ! j) \<and> l' = run_queue_len (cs ! j) \<and> l' < l))
    \<and> l' \<le> l \<and> (\<forall>c \<in> set cs. cpu_alive c \<longrightarrow> l' \<le> run_queue_len c)"
  using assms
proof (induction cs arbitrary: i b l)
  case (Cons c cs)
  define b1 where "b1 = (if cpu_alive c \<and> run_queue_len c < l then i else b)"
  define l1 where "l1 = (if cpu_alive c \<and> run_queue_len c < l then run_queue_len c else l)"
  have "least_scan (Suc i) cs (b1, l1) = (b', l')" using Cons.prems by (auto simp: b1_def l1_def split: if_splits)
  note IH = Cons.IH [OF this]
  from IH consider "(b', l') = (b1, l1)"
    | j where "j < length cs" "b' = Suc i + j" "cpu_alive (cs ! j)" "l' = run_queue_len (cs ! j)" "l' < l1" by auto
  then show ?case
  proof cases
    case 1
    with IH show ?thesis by (auto simp: b1_def l1_def split: if_splits)
  next
    case (2 j)
    then have "\<exists>j' < length (c # cs). b' = i + j' \<and> cpu_alive ((c # cs) ! j') \<and> l' = run_queue_len ((c # cs) ! j') \<and> l' < l"
      by (intro exI [of _ "Suc j"]) (auto simp: l1_def split: if_splits)
    with IH show ?thesis by (auto simp: l1_def split: if_splits)
  qed
qed simp

lemma least_loaded_spec:
  assumes "length cpus = MAX_CPUS" and "\<exists>c \<in> set cpus. cpu_alive c \<and> run_queue_len c < USIZE_MAX"
  obtains i where "i < MAX_CPUS" "least_loaded_cpu cpus = of_nat i" "cpu_alive (cpus ! i)"
    "\<forall>c \<in> set cpus. cpu_alive c \<longrightarrow> run_queue_len (cpus ! i) \<le> run_queue_len c"
proof -
  obtain b l where s: "least_scan 0 cpus (0, USIZE_MAX) = (b, l)" by fastforce
  from least_scan_spec [OF s] assms
  have "\<exists>j < MAX_CPUS. b = j \<and> cpu_alive (cpus ! j) \<and> l = run_queue_len (cpus ! j)"
    "\<forall>c \<in> set cpus. cpu_alive c \<longrightarrow> l \<le> run_queue_len c" by fastforce+
  with s that show ?thesis by (auto simp: least_loaded_cpu_def)
qed

lemma cpu_slot_of_nat: "i < MAX_CPUS \<Longrightarrow> cpu_slot (of_nat i) = Some i"
  by (simp add: cpu_slot_def unat_of_nat)

lemma steal_scan_spec:
  assumes "steal_scan t i cs (v, l) = (v', l')"
  shows "((v', l') = (v, l) \<or> (\<exists>j < length cs. v' = Some (i + j) \<and> i + j \<noteq> t \<and> cpu_alive (cs ! j) \<and> l' = run_queue_len (cs ! j) \<and> l < l'))
    \<and> l \<le> l' \<and> (\<forall>j < length cs. i + j \<noteq> t \<longrightarrow> cpu_alive (cs ! j) \<longrightarrow> run_queue_len (cs ! j) \<le> l')"
  using assms
proof (induction cs arbitrary: i v l)
  case (Cons c cs)
  define hit where "hit \<longleftrightarrow> i \<noteq> t \<and> cpu_alive c \<and> l < run_queue_len c"
  define v1 where "v1 = (if hit then Some i else v)"
  define l1 where "l1 = (if hit then run_queue_len c else l)"
  have "steal_scan t (Suc i) cs (v1, l1) = (v', l')" using Cons.prems by (auto simp: hit_def v1_def l1_def split: if_splits)
  note IH = Cons.IH [OF this]
  have all: "\<forall>j < length (c # cs). i + j \<noteq> t \<longrightarrow> cpu_alive ((c # cs) ! j) \<longrightarrow> run_queue_len ((c # cs) ! j) \<le> l'"
    using IH by (auto simp: hit_def l1_def nth_Cons split: nat.split if_splits)
  have le: "l \<le> l1" by (simp add: l1_def hit_def)
  have first: "(v1, l1) = (v, l) \<or> (v1 = Some i \<and> i \<noteq> t \<and> cpu_alive c \<and> l1 = run_queue_len c \<and> l < l1)"
    by (simp add: v1_def l1_def hit_def)
  have "(v', l') = (v, l) \<or> (\<exists>j < length (c # cs). v' = Some (i + j) \<and> i + j \<noteq> t \<and> cpu_alive ((c # cs) ! j)
      \<and> l' = run_queue_len ((c # cs) ! j) \<and> l < l')"
  proof (cases "(v', l') = (v1, l1)")
    case True
    with first show ?thesis by (auto intro!: exI [of _ 0])
  next
    case False
    with IH obtain j where "j < length cs" "v' = Some (Suc i + j)" "Suc i + j \<noteq> t" "cpu_alive (cs ! j)"
      "l' = run_queue_len (cs ! j)" "l1 < l'" by blast
    with le show ?thesis by (intro disjI2 exI [of _ "Suc j"]) simp
  qed
  moreover have "l \<le> l'" using IH le by linarith
  ultimately show ?case using all by blast
qed simp

section \<open>Properties\<close>

text \<open>Live processors whose loads differ by one at most.\<close>

definition cpus_balanced :: "cpu_state list \<Rightarrow> bool" where
  "cpus_balanced cpus \<longleftrightarrow> (\<forall>c \<in> set cpus. \<forall>d \<in> set cpus. cpu_alive c \<longrightarrow> cpu_alive d \<longrightarrow>
     length (run_queue c) \<le> Suc (length (run_queue d)))"

definition all_queued :: "cpu_state list \<Rightarrow> u32 multiset" where
  "all_queued cpus = sum_list (map (\<lambda>c. mset (run_queue c)) cpus)"

lemma sum_list_update_plus:
  fixes f :: "'a \<Rightarrow> 'b::comm_monoid_add"
  shows "i < length xs \<Longrightarrow> f y = f (xs ! i) + d \<Longrightarrow> sum_list (map f (xs[i := y])) = sum_list (map f xs) + d"
proof (induction xs arbitrary: i)
  case (Cons x xs)
  then show ?case by (cases i) (auto simp: ac_simps)
qed simp

lemma enqueue_balanced_step:
  assumes "cpus_coherent cpus" and "cpus_balanced cpus" and "\<exists>c \<in> set cpus. cpu_alive c \<and> run_queue_len c < USIZE_MAX"
  shows "let cpus' = snd (smp_enqueue_balanced pid cpus) in cpus_coherent cpus' \<and> cpus_balanced cpus'
    \<and> map cpu_alive cpus' = map cpu_alive cpus \<and> all_queued cpus' = add_mset pid (all_queued cpus)"
proof -
  have len: "length cpus = MAX_CPUS" using assms(1) by (simp add: cpus_coherent_def)
  obtain i where i: "i < MAX_CPUS" "least_loaded_cpu cpus = of_nat i" "cpu_alive (cpus ! i)"
    and least: "\<forall>c \<in> set cpus. cpu_alive c \<longrightarrow> run_queue_len (cpus ! i) \<le> run_queue_len c"
    using least_loaded_spec [OF len assms(3)] by metis
  let ?c = "cpu_enqueue pid (cpus ! i)"
  have eq: "snd (smp_enqueue_balanced pid cpus) = cpus[i := ?c]"
    using i by (simp add: smp_enqueue_balanced_def on_cpu_def cpu_slot_of_nat)
  have c: "cpu_alive ?c" "run_queue ?c = run_queue (cpus ! i) @ [pid]" "run_queue_len ?c = Suc (length (run_queue (cpus ! i)))"
    using i by (simp_all add: cpu_enqueue_def)
  have coh: "\<And>c. c \<in> set cpus \<Longrightarrow> run_queue_len c = length (run_queue c)" using assms(1) by (simp add: cpus_coherent_def)
  have mem: "cpus ! i \<in> set cpus" using i len by simp
  have "cpus_coherent (cpus[i := ?c])"
    using len coh c by (auto simp: cpus_coherent_def dest!: subsetD [OF set_update_subset_insert])
  moreover have "cpus_balanced (cpus[i := ?c])"
    unfolding cpus_balanced_def
  proof (intro ballI impI)
    fix x y assume "x \<in> set (cpus[i := ?c])" "y \<in> set (cpus[i := ?c])" and a: "cpu_alive x" "cpu_alive y"
    then have xy: "x = ?c \<or> x \<in> set cpus" "y = ?c \<or> y \<in> set cpus" using set_update_subset_insert by fastforce+
    have old: "length (run_queue u) \<le> Suc (length (run_queue v))"
      if "u \<in> set cpus" "v \<in> set cpus" "cpu_alive u" "cpu_alive v" for u v
      using assms(2) that by (simp add: cpus_balanced_def)
    have low: "length (run_queue (cpus ! i)) \<le> length (run_queue v)" if "v \<in> set cpus" "cpu_alive v" for v
      using least coh mem that by simp
    show "length (run_queue x) \<le> Suc (length (run_queue y))"
      using xy old [of x "cpus ! i"] old [of x y] low [of y] mem a i(3) c(2) by auto
  qed
  moreover have "map cpu_alive (cpus[i := ?c]) = map cpu_alive cpus"
    using c i len by (simp add: map_update list_update_same_conv)
  moreover have "all_queued (cpus[i := ?c]) = all_queued cpus + {#pid#}"
    unfolding all_queued_def by (rule sum_list_update_plus) (use i len c in simp_all)
  ultimately show ?thesis by (simp add: eq Let_def)
qed

definition route_all :: "u32 list \<Rightarrow> cpu_state list \<Rightarrow> cpu_state list" where
  "route_all pids cpus = fold (\<lambda>pid cpus. snd (smp_enqueue_balanced pid cpus)) pids cpus"

lemma small_load:
  assumes "cpus_coherent cpus" and "c \<in> set cpus" and "size (all_queued cpus) < n"
  shows "run_queue_len c < n"
proof -
  have "mset (run_queue c) \<subseteq># all_queued cpus" unfolding all_queued_def using assms(2)
    by (induction cpus) (auto intro: subset_mset.add_increasing subset_mset.add_increasing2)
  then have "length (run_queue c) \<le> size (all_queued cpus)" by (metis size_mset size_mset_mono)
  with assms show ?thesis by (simp add: cpus_coherent_def)
qed



text \<open>
  Work stealing: when a processor's own queue is empty, it takes a pid only from a peer that
  queues at least two, the front of a longest queue; otherwise it gets nothing and nothing changes.
\<close>

theorem steal_spec:
  assumes "cpus_coherent cpus"
  shows "case steal_from_peer thief cpus of
      (None, cpus') \<Rightarrow> cpus' = cpus \<and> (\<forall>j < MAX_CPUS. j \<noteq> unat thief \<longrightarrow> cpu_alive (cpus ! j) \<longrightarrow> length (run_queue (cpus ! j)) \<le> 1)
    | (Some p, cpus') \<Rightarrow> (\<exists>i < MAX_CPUS. i \<noteq> unat thief \<and> cpu_alive (cpus ! i) \<and> 2 \<le> length (run_queue (cpus ! i))
        \<and> run_queue (cpus ! i) = p # run_queue (cpus' ! i) \<and> (\<forall>j. j \<noteq> i \<longrightarrow> cpus' ! j = cpus ! j)
        \<and> (\<forall>j < MAX_CPUS. j \<noteq> unat thief \<longrightarrow> cpu_alive (cpus ! j) \<longrightarrow> length (run_queue (cpus ! j)) \<le> length (run_queue (cpus ! i))))"
proof -
  have len: "length cpus = MAX_CPUS" and coh: "\<And>i. i < MAX_CPUS \<Longrightarrow> run_queue_len (cpus ! i) = length (run_queue (cpus ! i))"
    using assms by (auto simp: cpus_coherent_def)
  obtain v l where s: "steal_scan (unat thief) 0 cpus (None, 1) = (v, l)" by fastforce
  note sp = steal_scan_spec [OF s]
  show ?thesis
  proof (cases v)
    case None
    then show ?thesis using s sp coh len by (auto simp: steal_from_peer_def)
  next
    case (Some i)
    then have i: "i < MAX_CPUS" "i \<noteq> unat thief" "cpu_alive (cpus ! i)" "l = length (run_queue (cpus ! i))" "1 < l"
      using sp coh len by auto
    then obtain p q where q: "run_queue (cpus ! i) = p # q" by (cases "run_queue (cpus ! i)") auto
    have "steal_from_peer thief cpus = (Some p, cpus[i := (cpus ! i)\<lparr>run_queue := q, run_queue_len := length q\<rparr>])"
      using s Some i q by (simp add: steal_from_peer_def dequeue_on_def cpu_slot_of_nat cpu_dequeue_def)
    moreover have "\<forall>j < MAX_CPUS. j \<noteq> unat thief \<longrightarrow> cpu_alive (cpus ! j) \<longrightarrow> length (run_queue (cpus ! j)) \<le> l"
      using sp coh len by auto
    moreover have "\<forall>j. j \<noteq> i \<longrightarrow> cpus[i := (cpus ! i)\<lparr>run_queue := q, run_queue_len := length q\<rparr>] ! j = cpus ! j" by simp
    moreover have "run_queue (cpus[i := (cpus ! i)\<lparr>run_queue := q, run_queue_len := length q\<rparr>] ! i) = q"
      using i len by simp
    ultimately show ?thesis using i q by (simp only: prod.case option.case) (rule exI [of _ i], simp add: Suc_le_eq)
  qed
qed

theorem steal_spec_witness:
  "let cpus = on_cpu 0 (cpu_enqueue 9) (on_cpu 0 (cpu_enqueue 7) (init_bsp True 0 (init_bsp True 1 CPUS))) in
     cpus_coherent cpus \<and> fst (steal_from_peer 1 cpus) = Some 7
     \<and> (\<exists>i < MAX_CPUS. i \<noteq> 1 \<and> cpu_alive (cpus ! i) \<and> run_queue (cpus ! i) = 7 # run_queue (snd (steal_from_peer 1 cpus) ! i))"
proof -
  define c where "c = on_cpu 0 (cpu_enqueue 9) (on_cpu 0 (cpu_enqueue 7) (init_bsp True 0 (init_bsp True 1 CPUS)))"
  have c: "cpus_coherent c" unfolding c_def by code_simp
  have "fst (steal_from_peer 1 c) = Some 7" unfolding c_def by code_simp
  then obtain c' where s: "steal_from_peer 1 c = (Some 7, c')" by (cases "steal_from_peer 1 c") simp
  from steal_spec [OF c, of 1] obtain i where
    "i < MAX_CPUS" "i \<noteq> 1" "cpu_alive (c ! i)" "run_queue (c ! i) = 7 # run_queue (c' ! i)"
    unfolding s by auto
  then have "\<exists>i < MAX_CPUS. i \<noteq> 1 \<and> cpu_alive (c ! i) \<and> run_queue (c ! i) = 7 # run_queue (c' ! i)" by blast
  with c s show ?thesis unfolding c_def [symmetric] by (simp add: Let_def)
qed

end
