(* ===== verification/Scheduler.thy ===== *)
theory Scheduler
  imports ProcessProtocol Smp
begin

text \<open>
  The scheduler (\<^verbatim>\<open>src/process/scheduler.rs\<close>): weights by nice value, virtual runtime, the ready and
  sleep queues, the tick, and the cooperative and preemptive switches. The scheduler works on the
  process table behind \<open>PROCESS_MANAGER\<close>, a spin lock that is not reentrant. Every operation that
  takes this lock has an argument \<open>held\<close> that says whether the calling thread holds it already; taking it again
  is \<open>Stuck\<close>. The id of the executing processor and the tick count are part of the state.
\<close>

section \<open>Weights and slices\<close>

definition NICE_WEIGHTS :: "nat list" where
  "NICE_WEIGHTS = concat
    [[88761, 71755, 56483, 46273, 36291], [29154, 23254, 18705, 14949, 11916],
     [9548, 7620, 6100, 4904, 3906], [3121, 2501, 1991, 1586, 1277],
     [1024, 820, 655, 526, 423], [335, 272, 215, 172, 137],
     [110, 87, 70, 56, 45], [36, 29, 23, 18, 15]]"

abbreviation (input) BASE_WEIGHT :: nat where "BASE_WEIGHT \<equiv> 1024"

definition weight_for_nice :: "i8 \<Rightarrow> nat" where
  "weight_for_nice nice = NICE_WEIGHTS ! nat (max 0 (min 39 (sint nice + 20)))"

definition vtick_for_nice :: "i8 \<Rightarrow> u64" where
  "vtick_for_nice nice = of_nat (BASE_WEIGHT * BASE_WEIGHT div weight_for_nice nice)"

abbreviation (input) SCHED_MIN_GRANULARITY :: nat where "SCHED_MIN_GRANULARITY \<equiv> 2"
abbreviation (input) SCHED_LATENCY :: nat where "SCHED_LATENCY \<equiv> 16"

definition slice_for :: "nat \<Rightarrow> nat" where
  "slice_for runnable = max (SCHED_LATENCY div max runnable 1) SCHED_MIN_GRANULARITY"

section \<open>State\<close>

record sleep_entry =
  se_pid :: nat
  se_wake_tick :: u64

record scheduler =
  ready_queue :: "nat list"
  quantum :: nat
  quantum_counter :: nat
  sleep_queue :: "sleep_entry list"
  min_vruntime :: u64

definition sched_new :: scheduler where
  "sched_new = \<lparr>ready_queue = [], quantum = SCHED_LATENCY, quantum_counter = 0, sleep_queue = [], min_vruntime = 0\<rparr>"

record machine =
  m_sched :: scheduler
  m_kernel :: kernel
  m_cpus :: "cpu_state list"
  m_lapic_id :: u8
  m_ticks :: u64

abbreviation on_sched :: "(scheduler \<Rightarrow> scheduler) \<Rightarrow> machine \<Rightarrow> machine" where
  "on_sched f m \<equiv> m\<lparr>m_sched := f (m_sched m)\<rparr>"

abbreviation on_kernel :: "(kernel \<Rightarrow> kernel) \<Rightarrow> machine \<Rightarrow> machine" where
  "on_kernel f m \<equiv> m\<lparr>m_kernel := f (m_kernel m)\<rparr>"

section \<open>Queues\<close>

definition publish_load_to_smp :: "machine \<Rightarrow> machine" where
  "publish_load_to_smp m =
     m\<lparr>m_cpus := on_cpu (m_lapic_id m) (\<lambda>c. c\<lparr>run_queue_len := length (ready_queue (m_sched m))\<rparr>) (m_cpus m)\<rparr>"

definition lift_vruntime :: "nat \<Rightarrow> machine \<Rightarrow> machine" where
  "lift_vruntime pid m =
     (let v = min_vruntime (m_sched m)
      in on_kernel (modify_process pid (\<lambda>p. if pr_vruntime p < v then p\<lparr>pr_vruntime := v\<rparr> else p)) m)"

definition enqueue :: "bool \<Rightarrow> nat \<Rightarrow> machine \<Rightarrow> machine outcome" where
  "enqueue held pid m =
     (if pid \<in> set (ready_queue (m_sched m)) then Done m
      else if held then Stuck
      else let m1 = lift_vruntime pid m;
               m2 = on_sched (\<lambda>s. s\<lparr>ready_queue := ready_queue s @ [pid]\<rparr>) m1;
               m3 = publish_load_to_smp m2
           in Done (m3\<lparr>m_cpus := snd (smp_enqueue_balanced (of_nat pid) (m_cpus m3))\<rparr>))"

definition cpu_retain :: "nat \<Rightarrow> cpu_state \<Rightarrow> cpu_state" where
  "cpu_retain pid c = (let q = filter (\<lambda>p. unat p \<noteq> pid) (run_queue c) in c\<lparr>run_queue := q, run_queue_len := length q\<rparr>)"

definition dequeue :: "nat \<Rightarrow> machine \<Rightarrow> machine" where
  "dequeue pid m =
     (let m1 = on_sched (\<lambda>s. s\<lparr>ready_queue := filter (\<lambda>p. p \<noteq> pid) (ready_queue s)\<rparr>) m;
          m2 = publish_load_to_smp m1
      in m2\<lparr>m_cpus := fold (\<lambda>i. on_cpu (of_nat i) (cpu_retain pid)) [0..<MAX_CPUS] (m_cpus m2)\<rparr>)"

definition enqueue_for_cpu :: "bool \<Rightarrow> nat \<Rightarrow> u8 \<Rightarrow> machine \<Rightarrow> machine outcome" where
  "enqueue_for_cpu held pid cpu_id m =
     (if held then Stuck
      else let m1 = lift_vruntime pid m in Done (m1\<lparr>m_cpus := on_cpu cpu_id (cpu_enqueue (of_nat pid)) (m_cpus m1)\<rparr>))"

definition enqueue_balanced :: "bool \<Rightarrow> nat \<Rightarrow> machine \<Rightarrow> (u8 \<times> machine) outcome" where
  "enqueue_balanced held pid m =
     (if held then Stuck
      else let m1 = lift_vruntime pid m; (cpu, cpus) = smp_enqueue_balanced (of_nat pid) (m_cpus m1)
           in Done (cpu, m1\<lparr>m_cpus := cpus\<rparr>))"

definition dequeue_next_for_cpu :: "u8 \<Rightarrow> machine \<Rightarrow> nat option \<times> machine" where
  "dequeue_next_for_cpu cpu_id m =
     (case dequeue_on cpu_id (m_cpus m) of
        (Some pid, cpus) \<Rightarrow> (Some (unat pid), m\<lparr>m_cpus := cpus\<rparr>)
      | (None, cpus) \<Rightarrow> (case steal_from_peer cpu_id cpus of
            (r, cpus') \<Rightarrow> (map_option unat r, m\<lparr>m_cpus := cpus'\<rparr>)))"

definition vruntime_of :: "kernel \<Rightarrow> nat \<Rightarrow> u64" where
  "vruntime_of k pid = (case get_process k pid of None \<Rightarrow> - 1 | Some p \<Rightarrow> pr_vruntime p)"

fun scan_best :: "kernel \<Rightarrow> nat \<Rightarrow> nat list \<Rightarrow> nat \<times> u64 \<Rightarrow> nat \<times> u64" where
  "scan_best k i [] b = b"
| "scan_best k i (pid # ps) (best_idx, best_v) =
     (let v = vruntime_of k pid
      in scan_best k (Suc i) ps (if v < best_v then (i, v) else (best_idx, best_v)))"

definition dequeue_next_with_pm :: "machine \<Rightarrow> nat option \<times> machine" where
  "dequeue_next_with_pm m =
     (let q = ready_queue (m_sched m) in
      if q = [] then (None, m)
      else let (best_idx, best_v) = scan_best (m_kernel m) 0 q (0, - 1);
               m1 = (if best_v \<noteq> - 1 \<and> min_vruntime (m_sched m) < best_v
                     then on_sched (\<lambda>s. s\<lparr>min_vruntime := best_v\<rparr>) m else m)
           in (Some (q ! best_idx), on_sched (\<lambda>s. s\<lparr>ready_queue := take best_idx q @ drop (Suc best_idx) q\<rparr>) m1))"

definition next_process :: "bool \<Rightarrow> machine \<Rightarrow> (nat option \<times> machine) outcome" where
  "next_process held m =
     (if ready_queue (m_sched m) = [] then Done (None, m)
      else if held then Stuck else Done (dequeue_next_with_pm m))"

section \<open>The tick\<close>

definition charge_running_vruntime :: "bool \<Rightarrow> machine \<Rightarrow> machine outcome" where
  "charge_running_vruntime held m =
     (if held then Stuck
      else Done (case k_current_pid (m_kernel m) of
          None \<Rightarrow> m
        | Some pid \<Rightarrow> on_kernel (modify_process pid
            (\<lambda>p. p\<lparr>pr_vruntime := saturating_add (pr_vruntime p) (vtick_for_nice (pr_nice p))\<rparr>)) m))"

definition deliver_signals :: "bool \<Rightarrow> machine \<Rightarrow> machine outcome" where
  "deliver_signals held m =
     (if held then Stuck
      else Done (case k_current_pid (m_kernel m) of
          None \<Rightarrow> m
        | Some pid \<Rightarrow>
            let (terminated, k) = deliver_pending_signals pid (m_kernel m); m1 = m\<lparr>m_kernel := k\<rparr>
            in if terminated then dequeue pid m1 else m1))"

definition swap_remove :: "nat \<Rightarrow> 'a list \<Rightarrow> 'a list" where
  "swap_remove i xs = butlast (xs[i := last xs])"

lemma length_swap_remove [simp]: "length (swap_remove i xs) = length xs - 1"
  by (simp add: swap_remove_def)

text \<open>
  The loop of \<open>wake_sleepers\<close>, with the sleep queue as an argument: nothing it calls reads it.
  The lock is held from the lookup of the process to the end of the iteration.
\<close>

definition wake_one :: "bool \<Rightarrow> nat \<Rightarrow> machine \<Rightarrow> machine outcome" where
  "wake_one held pid m =
     (if held then Stuck
      else case get_process (m_kernel m) pid of
          None \<Rightarrow> Done m
        | Some p \<Rightarrow>
            if pr_state p = Blocked
            then enqueue True pid (on_kernel (modify_process pid (\<lambda>p. p\<lparr>pr_state := Ready\<rparr>)) m)
            else Done m)"

function wake_loop :: "bool \<Rightarrow> nat \<Rightarrow> sleep_entry list \<Rightarrow> machine \<Rightarrow> (sleep_entry list \<times> machine) outcome" where
  "wake_loop held i sl m =
     (if i < length sl then
        if se_wake_tick (sl ! i) \<le> m_ticks m
        then obind (wake_one held (se_pid (sl ! i)) m) (\<lambda>m'. wake_loop held i (swap_remove i sl) m')
        else wake_loop held (Suc i) sl m
      else Done (sl, m))"
  by pat_completeness auto
termination by (relation "measure (\<lambda>(held, i, sl, m). length sl - i)") auto

declare wake_loop.simps [simp del]

definition wake_sleepers :: "bool \<Rightarrow> machine \<Rightarrow> machine outcome" where
  "wake_sleepers held m =
     obind (wake_loop held 0 (sleep_queue (m_sched m)) m) (\<lambda>(sl, m'). Done (on_sched (\<lambda>s. s\<lparr>sleep_queue := sl\<rparr>) m'))"

definition preempt :: "bool \<Rightarrow> machine \<Rightarrow> machine outcome" where
  "preempt held m =
     (if held then Stuck
      else case k_current_pid (m_kernel m) of
          None \<Rightarrow> Done m
        | Some pid \<Rightarrow>
            obind (case get_process (m_kernel m) pid of
                Some p \<Rightarrow> if pr_state p = Running
                  then enqueue True pid (on_kernel (modify_process pid (\<lambda>p. p\<lparr>pr_state := Ready\<rparr>)) m)
                  else Done m
              | None \<Rightarrow> Done m)
              (\<lambda>m'. Done (on_kernel (\<lambda>k. k\<lparr>k_current_pid := None\<rparr>) m')))"

definition make_current :: "nat \<Rightarrow> machine \<Rightarrow> machine" where
  "make_current pid m =
     on_kernel (\<lambda>k. (modify_process pid (\<lambda>p. p\<lparr>pr_state := Running\<rparr>) k)\<lparr>k_current_pid := Some pid\<rparr>) m"

definition schedule_user :: "bool \<Rightarrow> machine \<Rightarrow> machine outcome" where
  "schedule_user held m =
     obind (next_process held m) (\<lambda>(r, m1). case r of
         None \<Rightarrow> Done m1
       | Some next_pid \<Rightarrow>
           let slice = slice_for (length (ready_queue (m_sched m1)) + 1) in
           if held then Stuck
           else Done (on_sched (\<lambda>s. s\<lparr>quantum_counter := 0, quantum := slice\<rparr>) (make_current next_pid m1)))"

definition tick :: "bool \<Rightarrow> machine \<Rightarrow> machine outcome" where
  "tick held m =
     obind (charge_running_vruntime held m) (\<lambda>m1.
     obind (wake_sleepers held m1) (\<lambda>m2.
     obind (deliver_signals held m2) (\<lambda>m3.
     let n = quantum_counter (m_sched m3) + 1 in
     if quantum (m_sched m3) \<le> n
     then obind (preempt held (on_sched (\<lambda>s. s\<lparr>quantum_counter := 0\<rparr>) m3)) (schedule_user held)
     else Done (on_sched (\<lambda>s. s\<lparr>quantum_counter := n\<rparr>) m3))))"

definition tick_kernel_only :: "bool \<Rightarrow> machine \<Rightarrow> machine outcome" where
  "tick_kernel_only held m = obind (wake_sleepers held m) (deliver_signals held)"

section \<open>Sleeping, blocking and switching\<close>

definition sleep_ticks :: "profile \<Rightarrow> bool \<Rightarrow> u64 \<Rightarrow> machine \<Rightarrow> (nat option \<times> machine) outcome" where
  "sleep_ticks pf held ticks m =
     (if held then Stuck
      else case k_current_pid (m_kernel m) of
          None \<Rightarrow> Done (None, m)
        | Some pid \<Rightarrow> (case get_process (m_kernel m) pid of
              None \<Rightarrow> Done (None, m)
            | Some _ \<Rightarrow>
                obind (add_checked pf (m_ticks m) ticks) (\<lambda>wake_tick.
                  Done (Some pid, on_sched (\<lambda>s. s\<lparr>sleep_queue := sleep_queue s @ [\<lparr>se_pid = pid, se_wake_tick = wake_tick\<rparr>]\<rparr>)
                    (on_kernel (\<lambda>k. (modify_process pid (\<lambda>p. p\<lparr>pr_state := Blocked\<rparr>) k)\<lparr>k_current_pid := None\<rparr>) m)))))"

definition sleep_pid :: "profile \<Rightarrow> nat \<Rightarrow> u64 \<Rightarrow> machine \<Rightarrow> machine outcome" where
  "sleep_pid pf pid ticks m =
     obind (add_checked pf (m_ticks m) ticks) (\<lambda>wake_tick.
       Done (on_sched (\<lambda>s. s\<lparr>sleep_queue := sleep_queue s @ [\<lparr>se_pid = pid, se_wake_tick = wake_tick\<rparr>]\<rparr>) m))"

definition is_pid_done :: "bool \<Rightarrow> nat \<Rightarrow> machine \<Rightarrow> bool outcome" where
  "is_pid_done held pid m =
     (if held then Stuck
      else Done (case get_process (m_kernel m) pid of Some p \<Rightarrow> pr_state p = Terminated \<or> pr_state p = Zombie | None \<Rightarrow> True))"

text \<open>
  \<open>schedule\<close> holds the lock across \<open>next_process\<close>. The first component of the result is the pair
  of control blocks handed to \<open>switch_context\<close>.
\<close>

definition schedule :: "bool \<Rightarrow> machine \<Rightarrow> ((nat \<times> nat) option \<times> machine) outcome" where
  "schedule held m =
     (if held then Stuck
      else let current_pid = k_current_pid (m_kernel m) in
        obind (next_process True m) (\<lambda>(r, m1). case r of
            None \<Rightarrow> Done (None, m1)
          | Some next_pid \<Rightarrow>
              if Some next_pid = current_pid
              then obind (enqueue True next_pid m1) (\<lambda>m2. Done (None, m2))
              else
                let m2 = make_current next_pid (on_sched (\<lambda>s. s\<lparr>quantum_counter := 0\<rparr>) m1);
                    m3 = on_sched (\<lambda>s. s\<lparr>quantum := slice_for (length (ready_queue s) + 1)\<rparr>) m2
                in Done (case current_pid of
                     None \<Rightarrow> (None, m3)
                   | Some curr_pid \<Rightarrow>
                       if get_process (m_kernel m3) curr_pid \<noteq> None \<and> get_process (m_kernel m3) next_pid \<noteq> None
                       then (Some (curr_pid, next_pid), m3) else (None, m3))))"

definition yield_cpu :: "bool \<Rightarrow> machine \<Rightarrow> ((nat \<times> nat) option \<times> machine) outcome" where
  "yield_cpu held m =
     (if held then Stuck
      else obind (case k_current_pid (m_kernel m) of
            None \<Rightarrow> Done m
          | Some pid \<Rightarrow>
              obind (case get_process (m_kernel m) pid of
                  Some _ \<Rightarrow> enqueue True pid (on_kernel (modify_process pid (\<lambda>p. p\<lparr>pr_state := Ready\<rparr>)) m)
                | None \<Rightarrow> Done m)
                (\<lambda>m'. Done (on_kernel (\<lambda>k. k\<lparr>k_current_pid := None\<rparr>) m')))
        (schedule held))"

definition block :: "bool \<Rightarrow> machine \<Rightarrow> ((nat \<times> nat) option \<times> machine) outcome" where
  "block held m =
     (if held then Stuck
      else schedule held (case k_current_pid (m_kernel m) of
          None \<Rightarrow> m
        | Some pid \<Rightarrow> on_kernel (\<lambda>k. (modify_process pid (\<lambda>p. p\<lparr>pr_state := Blocked\<rparr>) k)\<lparr>k_current_pid := None\<rparr>) m))"

definition unblock :: "bool \<Rightarrow> nat \<Rightarrow> machine \<Rightarrow> machine outcome" where
  "unblock held pid m = wake_one held pid m"

section \<open>Module functions\<close>

definition spawn :: "hardware \<Rightarrow> u64 \<Rightarrow> nat \<Rightarrow> machine \<Rightarrow> (nat \<times> machine) outcome" where
  "spawn hw entry_point stack_size m =
     obind (create_process hw entry_point stack_size (m_kernel m)) (\<lambda>(pid, k).
     obind (enqueue False pid (m\<lparr>m_kernel := k\<rparr>)) (\<lambda>m'. Done (pid, m')))"

definition insert_process :: "process \<Rightarrow> kernel \<Rightarrow> kernel" where
  "insert_process p k = k\<lparr>k_processes := k_processes k @ [p]\<rparr>"

definition spawn_user :: "hardware \<Rightarrow> u64 \<Rightarrow> u64 \<Rightarrow> machine \<Rightarrow> (nat \<times> machine) outcome" where
  "spawn_user hw entry_point user_stack_top m =
     (let pid = k_next_pid (m_kernel m); k1 = (m_kernel m)\<lparr>k_next_pid := k_next_pid (m_kernel m) + 1\<rparr> in
      obind (process_new_user hw pid None entry_point user_stack_top (k_stacks k1)) (\<lambda>(p, pool).
      let k2 = insert_process p (k1\<lparr>k_stacks := pool\<rparr>) in
      obind (enqueue False pid (m\<lparr>m_kernel := k2\<rparr>)) (\<lambda>m'. Done (pid, m'))))"

definition terminate :: "nat \<Rightarrow> machine \<Rightarrow> machine" where
  "terminate pid m = on_kernel (terminate_process pid) (dequeue pid m)"

definition sleep :: "profile \<Rightarrow> u64 \<Rightarrow> machine \<Rightarrow> ((nat \<times> nat) option \<times> machine) outcome" where
  "sleep pf ticks m = obind (sleep_ticks pf False ticks m) (\<lambda>(_, m'). schedule False m')"

definition clamp_nice :: "i8 \<Rightarrow> i8" where
  "clamp_nice nice = (if sint nice < - 20 then - 20 else if 19 < sint nice then 19 else nice)"

definition set_nice :: "nat \<Rightarrow> i8 \<Rightarrow> machine \<Rightarrow> i8 option \<times> machine" where
  "set_nice pid nice m =
     (case get_process (m_kernel m) pid of
        None \<Rightarrow> (None, m)
      | Some p \<Rightarrow> (Some (pr_nice p), on_kernel (modify_process pid (\<lambda>p. p\<lparr>pr_nice := clamp_nice nice\<rparr>)) m))"

definition get_nice :: "nat \<Rightarrow> machine \<Rightarrow> i8 option" where
  "get_nice pid m = map_option pr_nice (get_process (m_kernel m) pid)"

definition exit_current :: "machine \<Rightarrow> ((nat \<times> nat) option \<times> machine) outcome" where
  "exit_current m =
     (case k_current_pid (m_kernel m) of
        None \<Rightarrow> Done (None, m)
      | Some pid \<Rightarrow> schedule False (terminate pid m))"

section \<open>The pick\<close>

lemma scan_best_spec:
  assumes "scan_best k i ps (b, v) = (b', v')"
  shows "((b', v') = (b, v) \<and> (\<forall>pid \<in> set ps. v \<le> vruntime_of k pid)) \<or>
    (\<exists>j < length ps. b' = i + j \<and> v' = vruntime_of k (ps ! j) \<and> v' < v
       \<and> (\<forall>pid \<in> set ps. v' \<le> vruntime_of k pid) \<and> (\<forall>l < j. v' < vruntime_of k (ps ! l)))"
  using assms
proof (induction ps arbitrary: i b v)
  case (Cons pid ps)
  let ?w = "vruntime_of k pid"
  show ?case
  proof (cases "?w < v")
    case True
    with Cons.prems have "scan_best k (Suc i) ps (i, ?w) = (b', v')" by simp
    from Cons.IH [OF this] show ?thesis
    proof (elim disjE exE conjE)
      fix j assume "j < length ps" "b' = Suc i + j" "v' = vruntime_of k (ps ! j)" "v' < ?w"
        "\<forall>pid \<in> set ps. v' \<le> vruntime_of k pid" "\<forall>l < j. v' < vruntime_of k (ps ! l)"
      with True show ?thesis by (intro disjI2 exI [of _ "Suc j"]) (auto simp: less_Suc_eq_0_disj)
    qed (use True in \<open>auto intro!: exI [of _ 0]\<close>)
  next
    case False
    with Cons.prems have "scan_best k (Suc i) ps (b, v) = (b', v')" by simp
    from Cons.IH [OF this] show ?thesis
    proof (elim disjE exE conjE)
      fix j assume "j < length ps" "b' = Suc i + j" "v' = vruntime_of k (ps ! j)" "v' < v"
        "\<forall>pid \<in> set ps. v' \<le> vruntime_of k pid" "\<forall>l < j. v' < vruntime_of k (ps ! l)"
      with False show ?thesis by (intro disjI2 exI [of _ "Suc j"]) (auto simp: less_Suc_eq_0_disj)
    qed (use False in auto)
  qed
qed simp

lemma dequeue_next_spec:
  assumes "ready_queue (m_sched m) = q" and "q \<noteq> []"
  obtains i where "i < length q" "\<forall>pid \<in> set q. vruntime_of (m_kernel m) (q ! i) \<le> vruntime_of (m_kernel m) pid"
    "\<forall>l < i. vruntime_of (m_kernel m) (q ! i) < vruntime_of (m_kernel m) (q ! l)"
    "dequeue_next_with_pm m = (Some (q ! i), on_sched (\<lambda>s. s\<lparr>ready_queue := take i q @ drop (Suc i) q,
       min_vruntime := (let v = vruntime_of (m_kernel m) (q ! i) in if v = - 1 then min_vruntime s else max (min_vruntime s) v)\<rparr>) m)"
proof -
  obtain b v where s: "scan_best (m_kernel m) 0 q (0, - 1) = (b, v)" by fastforce
  have top: "x \<le> (- 1 :: u64)" for x by simp
  have best: "b < length q \<and> v = vruntime_of (m_kernel m) (q ! b) \<and> (\<forall>pid \<in> set q. v \<le> vruntime_of (m_kernel m) pid)
      \<and> (\<forall>l < b. v < vruntime_of (m_kernel m) (q ! l))"
  proof (cases "(b, v) = (0, - 1)")
    case True
    with scan_best_spec [OF s] have "\<forall>pid \<in> set q. (- 1 :: u64) \<le> vruntime_of (m_kernel m) pid" by auto
    then have "\<forall>pid \<in> set q. vruntime_of (m_kernel m) pid = - 1" using top by (metis order.antisym)
    with True assms(2) show ?thesis by auto
  next
    case False
    with scan_best_spec [OF s] show ?thesis by fastforce
  qed
  have "max (min_vruntime s) v = (if min_vruntime s < v then v else min_vruntime s)" for s :: scheduler
    by (auto simp: max_def)
  then have eq: "dequeue_next_with_pm m = (Some (q ! b), on_sched (\<lambda>s. s\<lparr>ready_queue := take b q @ drop (Suc b) q,
       min_vruntime := (if v = - 1 then min_vruntime s else max (min_vruntime s) v)\<rparr>) m)"
    using assms s by (simp add: dequeue_next_with_pm_def Let_def)
  have v: "v = vruntime_of (m_kernel m) (q ! b)" using best by blast
  show thesis using best eq unfolding v by (intro that [of b]) (blast, blast, blast, simp only: Let_def)
qed

section \<open>The invariant\<close>

text \<open>
  The process table is sound, no pid is queued twice, the slice is between the minimal granularity
  and the latency, and the running process has not used it up. Each operation keeps this and never
  lowers the minimal virtual runtime: \<open>evolves\<close> collects both.
\<close>

definition sched_invar :: "machine \<Rightarrow> bool" where
  "sched_invar m \<longleftrightarrow> k_invar (m_kernel m) \<and> distinct (ready_queue (m_sched m)) \<and> length (m_cpus m) = MAX_CPUS
     \<and> SCHED_MIN_GRANULARITY \<le> quantum (m_sched m) \<and> quantum (m_sched m) \<le> SCHED_LATENCY
     \<and> quantum_counter (m_sched m) < quantum (m_sched m)"

definition evolves :: "machine \<Rightarrow> machine \<Rightarrow> bool" where
  "evolves m m' \<longleftrightarrow> (sched_invar m \<longrightarrow> sched_invar m') \<and> min_vruntime (m_sched m) \<le> min_vruntime (m_sched m')"

named_theorems evolving \<open>operations that keep the invariant and the order of minimal virtual runtimes\<close>

lemma evolves_refl [evolving]: "evolves m m"
  by (simp add: evolves_def)

lemma evolves_trans: "evolves m1 m2 \<Longrightarrow> evolves m2 m3 \<Longrightarrow> evolves m1 m3"
  by (auto simp: evolves_def)

lemma slice_bounds: "SCHED_MIN_GRANULARITY \<le> slice_for n \<and> slice_for n \<le> SCHED_LATENCY"
proof -
  have "(16::nat) div max n 1 \<le> 16" by (rule div_le_dividend)
  then show ?thesis by (simp add: slice_for_def)
qed

lemma evolves_kernel: "(k_invar (m_kernel m) \<Longrightarrow> k_invar k) \<Longrightarrow> evolves m (m\<lparr>m_kernel := k\<rparr>)"
  by (simp add: evolves_def sched_invar_def)

lemma evolves_cpus: "length cpus = length (m_cpus m) \<Longrightarrow> evolves m (m\<lparr>m_cpus := cpus\<rparr>)"
  by (simp add: evolves_def sched_invar_def)

lemma length_on_cpu [simp]: "length (on_cpu n f cpus) = length cpus"
  by (simp add: on_cpu_def split: option.split)

lemma length_smp_enqueue [simp]: "length (snd (smp_enqueue_balanced pid cpus)) = length cpus"
  by (simp add: smp_enqueue_balanced_def Let_def)

lemma length_dequeue_on [simp]: "length (snd (dequeue_on n cpus)) = length cpus"
  by (simp add: dequeue_on_def split: option.split)

lemma length_steal [simp]: "length (snd (steal_from_peer n cpus)) = length cpus"
  by (simp add: steal_from_peer_def split: option.split)

lemma k_invar_current [simp]: "k_invar (k\<lparr>k_current_pid := c\<rparr>) = k_invar k"
  by (simp add: k_invar_def)

lemma evolves_modify:
  assumes "\<And>p. pr_pid (f p) = pr_pid p" "\<And>p. pr_kernel_stack_slot (f p) = pr_kernel_stack_slot p" "\<And>p. is_dead (f p) \<Longrightarrow> is_dead p"
  shows "evolves m (on_kernel (modify_process pid f) m)"
    and "evolves m (on_kernel (\<lambda>k. (modify_process pid f k)\<lparr>k_current_pid := c\<rparr>) m)"
proof -
  have "k_invar (modify_process pid f k)" if "k_invar k" for k by (rule modify_invar [OF that assms])
  then show "evolves m (on_kernel (modify_process pid f) m)"
    and "evolves m (on_kernel (\<lambda>k. (modify_process pid f k)\<lparr>k_current_pid := c\<rparr>) m)"
    by (auto intro!: evolves_kernel)
qed

lemma evolves_current: "evolves m (on_kernel (\<lambda>k. k\<lparr>k_current_pid := c\<rparr>) m)"
  by (rule evolves_kernel) simp

lemma evolves_lift [evolving]: "evolves m (lift_vruntime pid m)"
  unfolding lift_vruntime_def Let_def by (rule evolves_modify) (auto simp: is_dead_def split: if_splits)

lemma evolves_publish [evolving]: "evolves m (publish_load_to_smp m)"
  unfolding publish_load_to_smp_def by (rule evolves_cpus) simp

lemma lift_vruntime_sched [simp]: "m_sched (lift_vruntime pid m) = m_sched m"
  by (simp add: lift_vruntime_def Let_def)

lemma evolves_push: "pid \<notin> set (ready_queue (m_sched m)) \<Longrightarrow> evolves m (on_sched (\<lambda>s. s\<lparr>ready_queue := ready_queue s @ [pid]\<rparr>) m)"
  by (simp add: evolves_def sched_invar_def)

lemma evolves_enqueue [evolving]:
  assumes "enqueue held pid m = Done m'"
  shows "evolves m m'"
proof (cases "pid \<in> set (ready_queue (m_sched m))")
  case True
  with assms show ?thesis by (simp add: enqueue_def evolves_refl)
next
  case False
  define m1 where "m1 = lift_vruntime pid m"
  define m2 where "m2 = on_sched (\<lambda>s. s\<lparr>ready_queue := ready_queue s @ [pid]\<rparr>) m1"
  define m3 where "m3 = publish_load_to_smp m2"
  have "evolves m m1" "evolves m2 m3" unfolding m1_def m3_def by (rule evolving)+
  moreover have "evolves m1 m2" unfolding m2_def by (rule evolves_push) (use False in \<open>simp add: m1_def\<close>)
  moreover have "evolves m3 (m3\<lparr>m_cpus := snd (smp_enqueue_balanced (of_nat pid) (m_cpus m3))\<rparr>)"
    by (rule evolves_cpus) simp
  moreover have "m' = m3\<lparr>m_cpus := snd (smp_enqueue_balanced (of_nat pid) (m_cpus m3))\<rparr>"
    using assms False by (simp add: enqueue_def Let_def m1_def m2_def m3_def split: if_splits)
  ultimately show ?thesis by (blast intro: evolves_trans)
qed

lemma evolves_dequeue [evolving]: "evolves m (dequeue pid m)"
proof -
  define m1 where "m1 = on_sched (\<lambda>s. s\<lparr>ready_queue := filter (\<lambda>p. p \<noteq> pid) (ready_queue s)\<rparr>) m"
  have len: "length (fold (\<lambda>i. on_cpu (of_nat i) f) is cpus) = length cpus" for "is" f and cpus :: "cpu_state list"
    by (induction "is" arbitrary: cpus) simp_all
  have "evolves m m1" by (simp add: m1_def evolves_def sched_invar_def)
  moreover have "evolves m1 (publish_load_to_smp m1)" by (rule evolving)
  ultimately show ?thesis unfolding dequeue_def Let_def m1_def [symmetric]
    by (blast intro: evolves_trans evolves_cpus len)
qed

lemma evolves_dequeue_next [evolving]:
  assumes "dequeue_next_with_pm m = (r, m')"
  shows "evolves m m'"
proof (cases "ready_queue (m_sched m) = []")
  case True
  with assms show ?thesis by (simp add: dequeue_next_with_pm_def evolves_refl)
next
  case False
  let ?q = "ready_queue (m_sched m)"
  obtain i where "dequeue_next_with_pm m = (Some (?q ! i), on_sched (\<lambda>s. s\<lparr>ready_queue := take i ?q @ drop (Suc i) ?q,
       min_vruntime := (let v = vruntime_of (m_kernel m) (?q ! i) in if v = - 1 then min_vruntime s else max (min_vruntime s) v)\<rparr>) m)"
    by (rule dequeue_next_spec [OF refl False])
  with assms have eq: "m' = on_sched (\<lambda>s. s\<lparr>ready_queue := take i ?q @ drop (Suc i) ?q,
       min_vruntime := (let v = vruntime_of (m_kernel m) (?q ! i) in if v = - 1 then min_vruntime s else max (min_vruntime s) v)\<rparr>) m"
    by simp
  have "distinct q \<Longrightarrow> distinct (take i q @ drop (Suc i) q)" for q :: "nat list"
    by (simp add: set_take_disj_set_drop_if_distinct)
  then show ?thesis by (auto simp: eq evolves_def sched_invar_def Let_def)
qed

lemma evolves_next [evolving]: "next_process held m = Done (r, m') \<Longrightarrow> evolves m m'"
  by (auto simp: next_process_def evolves_refl intro: evolves_dequeue_next split: if_splits)

lemma evolves_wake_one [evolving]:
  assumes "wake_one held pid m = Done m'"
  shows "evolves m m'"
proof -
  have "evolves m (on_kernel (modify_process pid (\<lambda>p. p\<lparr>pr_state := Ready\<rparr>)) m)"
    by (rule evolves_modify) (simp_all add: is_dead_def)
  with assms show ?thesis
    by (auto simp: wake_one_def evolves_refl split: if_splits option.splits dest!: evolves_enqueue intro: evolves_trans)
qed

lemma evolves_wake_loop:
  "wake_loop held i sl m = Done (sl', m') \<Longrightarrow> evolves m m'"
proof (induction held i sl m rule: wake_loop.induct)
  case (1 held i sl m)
  from "1.prems" show ?case
    by (subst (asm) wake_loop.simps)
      (auto simp: obind_eq_Done_iff evolves_refl split: if_splits
        dest: "1.IH" evolves_wake_one intro: evolves_trans)
qed

lemma evolves_wake_sleepers [evolving]:
  assumes "wake_sleepers held m = Done m'"
  shows "evolves m m'"
proof -
  obtain sl m1 where "wake_loop held 0 (sleep_queue (m_sched m)) m = Done (sl, m1)"
      and "m' = on_sched (\<lambda>s. s\<lparr>sleep_queue := sl\<rparr>) m1"
    using assms by (auto simp: wake_sleepers_def obind_eq_Done_iff)
  with evolves_wake_loop show ?thesis by (fastforce simp: evolves_def sched_invar_def)
qed

lemma evolves_charge [evolving]:
  assumes "charge_running_vruntime held m = Done m'"
  shows "evolves m m'"
proof -
  have "evolves m (on_kernel (modify_process pid
      (\<lambda>p. p\<lparr>pr_vruntime := saturating_add (pr_vruntime p) (vtick_for_nice (pr_nice p))\<rparr>)) m)" for pid
    by (rule evolves_modify) (simp_all add: is_dead_def)
  with assms show ?thesis
    by (auto simp: charge_running_vruntime_def evolves_refl split: if_splits option.splits)
qed

lemma evolves_deliver [evolving]:
  assumes "deliver_signals held m = Done m'"
  shows "evolves m m'"
proof (cases "k_current_pid (m_kernel m)")
  case None
  with assms show ?thesis by (simp add: deliver_signals_def evolves_refl split: if_splits)
next
  case (Some pid)
  obtain t k where d: "deliver_pending_signals pid (m_kernel m) = (t, k)" by fastforce
  have "evolves m (m\<lparr>m_kernel := k\<rparr>)" by (rule evolves_kernel) (metis d deliver_invar snd_conv)
  with assms d Some show ?thesis
    by (auto simp: deliver_signals_def Let_def split: if_splits intro: evolves_trans evolves_dequeue)
qed

lemma evolves_preempt [evolving]:
  assumes "preempt held m = Done m'"
  shows "evolves m m'"
proof (cases "k_current_pid (m_kernel m)")
  case None
  with assms show ?thesis by (simp add: preempt_def evolves_refl split: if_splits)
next
  case (Some pid)
  have r: "evolves m (on_kernel (modify_process pid (\<lambda>p. p\<lparr>pr_state := Ready\<rparr>)) m)"
    by (rule evolves_modify) (simp_all add: is_dead_def)
  from assms Some obtain m1 where "m1 = m \<or> enqueue True pid (on_kernel (modify_process pid (\<lambda>p. p\<lparr>pr_state := Ready\<rparr>)) m) = Done m1"
      and m': "m' = on_kernel (\<lambda>k. k\<lparr>k_current_pid := None\<rparr>) m1"
    by (auto simp: preempt_def obind_eq_Done_iff split: if_splits option.splits)
  then have "evolves m m1" using r by (auto intro: evolves_refl evolves_trans dest: evolves_enqueue)
  then show ?thesis unfolding m' using evolves_current by (rule evolves_trans)
qed

lemma evolves_make_current [evolving]: "evolves m (make_current pid m)"
  unfolding make_current_def by (rule evolves_modify) (simp_all add: is_dead_def)

lemma evolves_slice: "evolves m (on_sched (\<lambda>s. s\<lparr>quantum_counter := 0, quantum := slice_for n\<rparr>) m)"
  using slice_bounds [of n] by (auto simp: evolves_def sched_invar_def)

lemma evolves_schedule_user [evolving]:
  assumes "schedule_user held m = Done m'"
  shows "evolves m m'"
proof -
  obtain r m1 where n: "next_process held m = Done (r, m1)"
    using assms by (auto simp: schedule_user_def obind_eq_Done_iff)
  with assms have "m' = m1 \<or> (\<exists>pid n. m' = on_sched (\<lambda>s. s\<lparr>quantum_counter := 0, quantum := slice_for n\<rparr>) (make_current pid m1))"
    by (auto simp: schedule_user_def Let_def split: option.splits if_splits)
  with evolves_next [OF n] show ?thesis by (blast intro: evolves_trans evolves_slice evolves_make_current)
qed

lemma evolves_tick [evolving]:
  assumes "tick held m = Done m'"
  shows "evolves m m'"
proof -
  obtain m1 m2 m3 where c: "charge_running_vruntime held m = Done m1" "wake_sleepers held m1 = Done m2" "deliver_signals held m2 = Done m3"
    using assms by (auto simp: tick_def obind_eq_Done_iff)
  then have "evolves m m3"
    using evolves_trans [OF evolves_trans [OF evolves_charge evolves_wake_sleepers] evolves_deliver] by blast
  moreover have "evolves m3 m'"
  proof (cases "quantum (m_sched m3) \<le> quantum_counter (m_sched m3) + 1")
    case True
    let ?z = "on_sched (\<lambda>s. s\<lparr>quantum_counter := 0\<rparr>) m3"
    obtain m4 where m4: "preempt held ?z = Done m4" "schedule_user held m4 = Done m'"
      using assms c True by (auto simp: tick_def Let_def obind_eq_Done_iff)
    have "evolves m3 ?z" by (auto simp: evolves_def sched_invar_def)
    then show ?thesis
      using evolves_trans [OF evolves_preempt [OF m4(1)] evolves_schedule_user [OF m4(2)]] by (rule evolves_trans)
  next
    case False
    with assms c show ?thesis by (auto simp: tick_def Let_def evolves_def sched_invar_def)
  qed
  ultimately show ?thesis by (rule evolves_trans)
qed

lemma evolves_schedule [evolving]:
  assumes "schedule held m = Done (sw, m')"
  shows "evolves m m'"
proof -
  have "ready_queue (m_sched m) = [] \<Longrightarrow> next_process True m = Done (None, m)"
    "ready_queue (m_sched m) \<noteq> [] \<Longrightarrow> next_process True m = Stuck" by (simp_all add: next_process_def)
  with assms have "m' = m"
    by (cases "ready_queue (m_sched m) = []") (auto simp: schedule_def Let_def split: if_splits)
  then show ?thesis by (simp add: evolves_refl)
qed


lemma evolves_unset_current:
  "evolves m (case k_current_pid (m_kernel m) of None \<Rightarrow> m
     | Some pid \<Rightarrow> on_kernel (\<lambda>k. (modify_process pid (\<lambda>p. p\<lparr>pr_state := Blocked\<rparr>) k)\<lparr>k_current_pid := None\<rparr>) m)"
  by (auto simp: is_dead_def intro!: evolves_refl evolves_modify split: option.split)

lemma evolves_block [evolving]: "block held m = Done (sw, m') \<Longrightarrow> evolves m m'"
  by (auto simp: block_def split: if_splits dest!: evolves_schedule intro: evolves_trans [OF evolves_unset_current])

lemma evolves_yield [evolving]:
  assumes "yield_cpu held m = Done (sw, m')"
  shows "evolves m m'"
proof (cases "k_current_pid (m_kernel m)")
  case None
  with assms show ?thesis by (auto simp: yield_cpu_def split: if_splits intro: evolves_schedule)
next
  case (Some pid)
  let ?r = "on_kernel (modify_process pid (\<lambda>p. p\<lparr>pr_state := Ready\<rparr>)) m"
  have r: "evolves m ?r" by (rule evolves_modify) (simp_all add: is_dead_def)
  from assms Some obtain m1 where "m1 = m \<or> enqueue True pid ?r = Done m1"
      and s: "schedule held (on_kernel (\<lambda>k. k\<lparr>k_current_pid := None\<rparr>) m1) = Done (sw, m')"
    by (auto simp: yield_cpu_def obind_eq_Done_iff split: if_splits option.splits)
  then have "evolves m m1" using r by (auto intro: evolves_refl evolves_trans dest: evolves_enqueue)
  then show ?thesis using evolves_trans [OF evolves_current evolves_schedule [OF s]] by (rule evolves_trans)
qed

lemma evolves_sleep_ticks [evolving]:
  assumes "sleep_ticks pf held n m = Done (r, m')"
  shows "evolves m m'"
proof -
  have b: "evolves m (on_kernel (\<lambda>k. (modify_process pid (\<lambda>p. p\<lparr>pr_state := Blocked\<rparr>) k)\<lparr>k_current_pid := None\<rparr>) m)" for pid
    by (rule evolves_modify) (simp_all add: is_dead_def)
  have "evolves m1 (on_sched (\<lambda>s. s\<lparr>sleep_queue := q\<rparr>) m1)" for m1 q by (simp add: evolves_def sched_invar_def)
  from evolves_trans [OF b this] assms show ?thesis
    by (auto simp: sleep_ticks_def obind_eq_Done_iff evolves_refl split: if_splits option.splits)
qed

lemma evolves_sleep_pid [evolving]: "sleep_pid pf pid n m = Done m' \<Longrightarrow> evolves m m'"
  by (auto simp: sleep_pid_def obind_eq_Done_iff evolves_def sched_invar_def)

lemma evolves_tick_kernel [evolving]: "tick_kernel_only held m = Done m' \<Longrightarrow> evolves m m'"
  using evolves_trans [OF evolves_wake_sleepers evolves_deliver] by (auto simp: tick_kernel_only_def obind_eq_Done_iff)

lemma evolves_spawn [evolving]:
  assumes "spawn hw e n m = Done (pid, m')"
  shows "evolves m m'"
proof -
  obtain k where k: "create_process hw e n (m_kernel m) = Done (pid, k)" and e: "enqueue False pid (m\<lparr>m_kernel := k\<rparr>) = Done m'"
    using assms by (auto simp: spawn_def obind_eq_Done_iff)
  have "evolves m (m\<lparr>m_kernel := k\<rparr>)" by (rule evolves_kernel) (rule create_process_invar [OF _ k])
  then show ?thesis using evolves_enqueue [OF e] by (rule evolves_trans)
qed

lemma evolves_spawn_user [evolving]:
  assumes "spawn_user hw e u m = Done (pid, m')"
  shows "evolves m m'"
proof -
  let ?k = "m_kernel m"
  obtain p g where n: "process_new_user hw (k_next_pid ?k) None e u (k_stacks ?k) = Done (p, g)" and
    e: "enqueue False pid (m\<lparr>m_kernel := ?k\<lparr>k_next_pid := k_next_pid ?k + 1, k_stacks := g, k_processes := k_processes ?k @ [p], k_fds := k_fds ?k\<rparr>\<rparr>) = Done m'"
    using assms by (auto simp: spawn_user_def insert_process_def Let_def obind_eq_Done_iff)
  have "k_invar (?k\<lparr>k_next_pid := k_next_pid ?k + 1, k_stacks := g, k_processes := k_processes ?k @ [p], k_fds := k_fds ?k\<rparr>)" if "k_invar ?k"
  proof -
    have "pool_invar (the_pool (k_stacks ?k))" using that by (simp add: k_invar_def)
    note new_user_spec [OF this n]
    then show ?thesis by (intro push_invar [OF that]) blast+
  qed
  from evolves_kernel [OF this] evolves_enqueue [OF e] show ?thesis by (rule evolves_trans)
qed

lemma evolves_terminate [evolving]: "evolves m (terminate pid m)"
  unfolding terminate_def
  by (rule evolves_trans [OF evolves_dequeue evolves_kernel]) (rule terminate_invar)

lemma evolves_exit_current [evolving]: "exit_current m = Done (sw, m') \<Longrightarrow> evolves m m'"
  by (auto simp: exit_current_def evolves_refl split: option.splits dest!: evolves_schedule intro: evolves_trans [OF evolves_terminate])

lemma evolves_set_nice [evolving]: "evolves m (snd (set_nice pid n m))"
  by (auto simp: set_nice_def is_dead_def intro!: evolves_refl evolves_modify split: option.split)

lemma evolves_enqueue_for_cpu [evolving]: "enqueue_for_cpu held pid c m = Done m' \<Longrightarrow> evolves m m'"
  by (auto simp: enqueue_for_cpu_def Let_def split: if_splits intro!: evolves_trans [OF evolves_lift evolves_cpus])

lemma evolves_enqueue_balanced [evolving]: "enqueue_balanced held pid m = Done (c, m') \<Longrightarrow> evolves m m'"
  by (auto simp: enqueue_balanced_def Let_def split: if_splits prod.splits intro!: evolves_trans [OF evolves_lift evolves_cpus])
    (metis length_smp_enqueue snd_conv)

lemma evolves_dequeue_for_cpu [evolving]: "evolves m (snd (dequeue_next_for_cpu c m))"
proof -
  obtain r cpus where d: "dequeue_on c (m_cpus m) = (r, cpus)" by fastforce
  obtain r' cpus' where s: "steal_from_peer c cpus = (r', cpus')" by fastforce
  have "length cpus = length (m_cpus m)" "length cpus' = length cpus"
    using length_dequeue_on [of c "m_cpus m"] length_steal [of c cpus] d s by simp_all
  with d s show ?thesis by (auto simp: dequeue_next_for_cpu_def intro!: evolves_cpus split: option.split)
qed


section \<open>Runs\<close>

text \<open>One operation of the scheduler or of the process manager that returns, or one tick of the clock.\<close>

inductive sched_step :: "machine \<Rightarrow> machine \<Rightarrow> bool" where
  s_clock: "sched_step m (m\<lparr>m_ticks := m_ticks m + 1\<rparr>)"
| s_spawn: "spawn hw e n m = Done (pid, m') \<Longrightarrow> sched_step m m'"
| s_spawn_user: "spawn_user hw e u m = Done (pid, m') \<Longrightarrow> sched_step m m'"
| s_terminate: "sched_step m (terminate pid m)"
| s_set_nice: "sched_step m (snd (set_nice pid nice m))"
| s_tick: "tick held m = Done m' \<Longrightarrow> sched_step m m'"
| s_tick_kernel: "tick_kernel_only held m = Done m' \<Longrightarrow> sched_step m m'"
| s_dispatch: "dequeue_next_with_pm m = (Some pid, m') \<Longrightarrow> sched_step m (make_current pid m')"
| s_schedule: "schedule held m = Done (sw, m') \<Longrightarrow> sched_step m m'"
| s_yield: "yield_cpu held m = Done (sw, m') \<Longrightarrow> sched_step m m'"
| s_block: "block held m = Done (sw, m') \<Longrightarrow> sched_step m m'"
| s_unblock: "unblock held pid m = Done m' \<Longrightarrow> sched_step m m'"
| s_sleep: "sleep_ticks pf held t m = Done (r, m') \<Longrightarrow> sched_step m m'"
| s_sleep_pid: "sleep_pid pf pid t m = Done m' \<Longrightarrow> sched_step m m'"
| s_exit: "exit_current m = Done (sw, m') \<Longrightarrow> sched_step m m'"
| s_cpu_push: "enqueue_for_cpu held pid c m = Done m' \<Longrightarrow> sched_step m m'"
| s_cpu_route: "enqueue_balanced held pid m = Done (c, m') \<Longrightarrow> sched_step m m'"
| s_cpu_pull: "sched_step m (snd (dequeue_next_for_cpu c m))"
| s_fork: "fork hw pp (m_kernel m) = Done (r, k) \<Longrightarrow> sched_step m (m\<lparr>m_kernel := k\<rparr>)"
| s_exec: "sched_step m (m\<lparr>m_kernel := snd (exec pid e a n (m_kernel m))\<rparr>)"
| s_exit_process: "sched_step m (m\<lparr>m_kernel := exit_process pid code (m_kernel m)\<rparr>)"
| s_wait: "sched_step m (m\<lparr>m_kernel := snd (wait pid (m_kernel m))\<rparr>)"
| s_signal: "sched_step m (m\<lparr>m_kernel := snd (send_signal pid sig (m_kernel m))\<rparr>)"

lemma evolves_step: "sched_step m m' \<Longrightarrow> evolves m m'"
proof (induction rule: sched_step.induct)
  case (s_clock m)
  show ?case by (simp add: evolves_def sched_invar_def)
next
  case (s_dispatch m pid m')
  then show ?case using evolves_trans [OF evolves_dequeue_next evolves_make_current] by blast
next
  case (s_unblock held pid m m')
  then show ?case by (simp add: unblock_def evolves_wake_one)
next
  case (s_fork hw pp m r k)
  show ?case by (rule evolves_kernel) (rule fork_invar [OF _ s_fork])
qed (blast intro: evolving evolves_kernel exec_invar exit_invar wait_invar send_signal_invar)+

definition machine_boot :: "u8 \<Rightarrow> fd_state \<Rightarrow> machine" where
  "machine_boot lapic fds = \<lparr>m_sched = sched_new, m_kernel = kernel_boot fds, m_cpus = init_bsp True lapic CPUS,
     m_lapic_id = lapic, m_ticks = 0\<rparr>"

lemma machine_boot_invar: "sched_invar (machine_boot lapic fds)"
  by (simp add: sched_invar_def machine_boot_def sched_new_def kernel_boot_invar init_bsp_def CPUS_def Let_def)

section \<open>Properties\<close>


text \<open>
  C10: the pick: a dispatch takes from the ready queue a process of least virtual runtime, the one
  queued first among equals, removes exactly that one, and raises the minimal virtual runtime to its own.
\<close>

theorem pick_is_least:
  assumes "dequeue_next_with_pm m = (Some pid, m')"
  shows "\<exists>xs ys. ready_queue (m_sched m) = xs @ pid # ys \<and> ready_queue (m_sched m') = xs @ ys
    \<and> (\<forall>q \<in> set xs. vruntime_of (m_kernel m) pid < vruntime_of (m_kernel m) q)
    \<and> (\<forall>q \<in> set ys. vruntime_of (m_kernel m) pid \<le> vruntime_of (m_kernel m) q)
    \<and> (get_process (m_kernel m) pid \<noteq> None \<and> vruntime_of (m_kernel m) pid \<noteq> - 1
        \<longrightarrow> min_vruntime (m_sched m') = max (min_vruntime (m_sched m)) (vruntime_of (m_kernel m) pid))
    \<and> m_kernel m' = m_kernel m"
proof -
  let ?q = "ready_queue (m_sched m)"
  have "?q \<noteq> []" using assms by (auto simp: dequeue_next_with_pm_def)
  from dequeue_next_spec [OF refl this] obtain i where i: "i < length ?q"
    "\<forall>pid \<in> set ?q. vruntime_of (m_kernel m) (?q ! i) \<le> vruntime_of (m_kernel m) pid"
    "\<forall>l < i. vruntime_of (m_kernel m) (?q ! i) < vruntime_of (m_kernel m) (?q ! l)"
    and d: "dequeue_next_with_pm m = (Some (?q ! i), on_sched (\<lambda>s. s\<lparr>ready_queue := take i ?q @ drop (Suc i) ?q,
       min_vruntime := (let v = vruntime_of (m_kernel m) (?q ! i) in if v = - 1 then min_vruntime s else max (min_vruntime s) v)\<rparr>) m)"
    by blast
  have pid: "pid = ?q ! i" using assms d by simp
  have "?q = take i ?q @ pid # drop (Suc i) ?q" using i(1) pid by (simp add: id_take_nth_drop [symmetric])
  moreover have "\<forall>x \<in> set (take i ?q). vruntime_of (m_kernel m) pid < vruntime_of (m_kernel m) x"
    using i(1,3) pid by (auto simp: in_set_conv_nth)
  moreover have "\<forall>x \<in> set (drop (Suc i) ?q). vruntime_of (m_kernel m) pid \<le> vruntime_of (m_kernel m) x"
    using i(2) pid by (auto dest: in_set_dropD)
  ultimately show ?thesis using assms d pid by (intro exI [of _ "take i ?q"] exI [of _ "drop (Suc i) ?q"]) (auto simp: Let_def)
qed


text \<open>A machine with one kernel thread in the ready queue.\<close>

lemma one_thread:
  "\<exists>m. spawn example_hw 0x1000 16 (machine_boot 0 fds) = Done (1, m) \<and> ready_queue (m_sched m) = [1]"
proof -
  obtain t where t: "fdt_with_stdio = Done t" using fdt_with_stdio_invar by blast
  have "ready_queue (m_sched (publish_load_to_smp m)) = ready_queue (m_sched m)" for m by (simp add: publish_load_to_smp_def)
  then show ?thesis
    by (simp add: spawn_def create_process_def machine_boot_def kernel_boot_def sched_new_def t Let_def enqueue_def)
qed


theorem pick_is_least_witness:
  "let p = process_new example_hw 5 0 0;
       k = (kernel_boot undefined)\<lparr>k_processes := [p\<lparr>pr_vruntime := 9\<rparr>, p\<lparr>pr_pid := 6, pr_vruntime := 4\<rparr>], k_next_pid := 7\<rparr>;
       m = (machine_boot 0 undefined)\<lparr>m_kernel := k, m_sched := sched_new\<lparr>ready_queue := [5, 6]\<rparr>\<rparr>
   in \<exists>m'. dequeue_next_with_pm m = (Some 6, m') \<and> ready_queue (m_sched m') = [5]"
proof -
  define p where "p = process_new example_hw 5 0 0"
  define k where "k = (kernel_boot undefined)\<lparr>k_processes := [p\<lparr>pr_vruntime := 9\<rparr>, p\<lparr>pr_pid := 6, pr_vruntime := 4\<rparr>], k_next_pid := 7\<rparr>"
  define m where "m = (machine_boot 0 undefined)\<lparr>m_kernel := k, m_sched := sched_new\<lparr>ready_queue := [5, 6]\<rparr>\<rparr>"
  have "pr_pid p = 5" by (simp add: p_def process_new_def)
  then have v: "vruntime_of k 5 = 9" "vruntime_of k 6 = 4" by (simp_all add: vruntime_of_def get_process_def k_def)
  obtain m' where d: "dequeue_next_with_pm m = (Some 6, m')"
    by (simp add: dequeue_next_with_pm_def m_def v Let_def)
  from pick_is_least [OF d] have "ready_queue (m_sched m') = [5]" by (auto simp: m_def Cons_eq_append_conv)
  with d show ?thesis unfolding Let_def p_def k_def m_def by blast
qed


end
