(* ===== verification/TimerPreempt.thy ===== *)
theory TimerPreempt
  imports Scheduler
begin

text \<open>
  The timer interrupt (\<^verbatim>\<open>src/interrupts.rs\<close>, \<open>timer_preempt_handler\<close>): it advances the clock, runs the
  scheduler and answers which trap frame the return path restores. A frame is named by where it
  lives: the interrupted stack, the saved kernel frame, or a control block. The interrupt
  acknowledgement, the statistics counter and the wake-up of asynchronous tasks are left out; they do not touch
  this state.
\<close>

section \<open>State\<close>

record cpu_regs =
  tss_rsp0 :: u64
  cr3 :: u64

record isr_state =
  i_machine :: machine
  PREEMPTIVE_MODE :: bool
  KERNEL_FRAME_SAVED :: bool
  KERNEL_RETURN_FRAME :: trap_frame
  i_regs :: cpu_regs

datatype frame_ref = Interrupted | KernelReturn | ProcessFrame nat

definition set_tss_rsp0 :: "u64 \<Rightarrow> cpu_regs \<Rightarrow> cpu_regs" where
  "set_tss_rsp0 stack_top r = r\<lparr>tss_rsp0 := stack_top\<rparr>"

definition switch_cr3 :: "u64 \<Rightarrow> cpu_regs \<Rightarrow> cpu_regs" where
  "switch_cr3 c r = (if c = 0 then r else if cr3 r \<noteq> c then r\<lparr>cr3 := c\<rparr> else r)"

definition load_stack :: "process \<Rightarrow> cpu_regs \<Rightarrow> cpu_regs" where
  "load_stack p r = (if pr_kernel_stack_top p \<noteq> 0 then set_tss_rsp0 (pr_kernel_stack_top p) r else r)"

section \<open>The handler\<close>

text \<open>Kernel mode with preemption on: dispatch a user process, or leave preemptive mode.\<close>

definition dispatch_from_kernel :: "trap_frame \<Rightarrow> isr_state \<Rightarrow> (frame_ref \<times> isr_state) outcome" where
  "dispatch_from_kernel frame s =
     (let m = i_machine s; ready = length (ready_queue (m_sched m)) in
      if k_current_pid (m_kernel m) = None \<and> 0 < ready then
        let s1 = (if \<not> KERNEL_FRAME_SAVED s then s\<lparr>KERNEL_RETURN_FRAME := frame, KERNEL_FRAME_SAVED := True\<rparr> else s) in
        case dequeue_next_with_pm m of
          (None, m1) \<Rightarrow> Done (Interrupted, s1\<lparr>i_machine := m1\<rparr>)
        | (Some next_pid, m1) \<Rightarrow>
            (case get_process (m_kernel m1) next_pid of
               Some p \<Rightarrow>
                 if pr_is_user p \<and> pr_has_trap_frame p
                 then Done (ProcessFrame next_pid,
                   s1\<lparr>i_machine := make_current next_pid m1, i_regs := switch_cr3 (pr_cr3 p) (load_stack p (i_regs s1))\<rparr>)
                 else obind (enqueue True next_pid m1) (\<lambda>m2. Done (Interrupted, s1\<lparr>i_machine := m2\<rparr>))
             | None \<Rightarrow> obind (enqueue True next_pid m1) (\<lambda>m2. Done (Interrupted, s1\<lparr>i_machine := m2\<rparr>)))
      else if k_current_pid (m_kernel m) = None \<and> ready = 0
      then Done (KernelReturn, s\<lparr>PREEMPTIVE_MODE := False, KERNEL_FRAME_SAVED := False\<rparr>)
      else Done (Interrupted, s))"

definition save_frame :: "trap_frame \<Rightarrow> machine \<Rightarrow> machine" where
  "save_frame frame m =
     (case k_current_pid (m_kernel m) of
        None \<Rightarrow> m
      | Some pid \<Rightarrow> on_kernel (modify_process pid (\<lambda>p. p\<lparr>pr_trap_frame := frame, pr_has_trap_frame := True\<rparr>)) m)"

definition preempt_user :: "trap_frame \<Rightarrow> isr_state \<Rightarrow> (frame_ref \<times> isr_state) outcome" where
  "preempt_user frame s =
     (let current_pid = k_current_pid (m_kernel (i_machine s)) in
      obind (tick False (save_frame frame (i_machine s))) (\<lambda>m1.
      let s1 = s\<lparr>i_machine := m1\<rparr>;
          keep = Done (Interrupted, (case current_pid of
              None \<Rightarrow> s1
            | Some pid \<Rightarrow> (case get_process (m_kernel m1) pid of
                  None \<Rightarrow> s1
                | Some p \<Rightarrow> s1\<lparr>i_regs := load_stack p (i_regs s1)\<rparr>)))
      in case k_current_pid (m_kernel m1) of
          None \<Rightarrow> keep
        | Some pid \<Rightarrow> (case get_process (m_kernel m1) pid of
              None \<Rightarrow> keep
            | Some p \<Rightarrow>
                if pr_is_user p \<and> pr_has_trap_frame p
                then Done (ProcessFrame pid, s1\<lparr>i_regs := switch_cr3 (pr_cr3 p) (load_stack p (i_regs s1))\<rparr>)
                else keep)))"

definition timer_preempt_handler :: "trap_frame \<Rightarrow> isr_state \<Rightarrow> (frame_ref \<times> isr_state) outcome" where
  "timer_preempt_handler frame s =
     (let s1 = s\<lparr>i_machine := (i_machine s)\<lparr>m_ticks := m_ticks (i_machine s) + 1\<rparr>\<rparr>;
          from_user = (tf_cs frame AND 3 = 3)
      in if \<not> from_user
         then obind (tick_kernel_only False (i_machine s1)) (\<lambda>m.
           let s2 = s1\<lparr>i_machine := m\<rparr>
           in if PREEMPTIVE_MODE s2 then dispatch_from_kernel frame s2 else Done (Interrupted, s2))
         else preempt_user frame s1)"

section \<open>The slice of a user process never ends\<close>

lemma deliver_signals_idle:
  assumes "k_current_pid (m_kernel m) = Some pid" and "get_process (m_kernel m) pid = Some p"
    and "pr_pending_signals p AND NOT (pr_signal_blocked p) = 0"
  shows "deliver_signals False m = Done m"
  using assms by (simp add: deliver_signals_def deliver_pending_signals_def Let_def)

lemma wake_sleepers_none_due:
  assumes "\<forall>e \<in> set (sleep_queue (m_sched m)). m_ticks m < se_wake_tick e"
  shows "wake_sleepers held m = Done m"
proof -
  have "wake_loop held i sl m = Done (sl, m)" if "\<forall>e \<in> set sl. m_ticks m < se_wake_tick e" for i sl
    using that
  proof (induction "length sl - i" arbitrary: i)
    case 0
    then show ?case by (subst wake_loop.simps) simp
  next
    case (Suc n)
    then have "i < length sl" "\<not> se_wake_tick (sl ! i) \<le> m_ticks m" by (auto simp: not_le)
    moreover have "wake_loop held (Suc i) sl m = Done (sl, m)" by (rule Suc.hyps(1)) (use Suc in auto)
    ultimately show ?case by (subst wake_loop.simps) simp
  qed
  with assms show ?thesis by (simp add: wake_sleepers_def)
qed

lemma preempt_running_stuck:
  assumes "k_current_pid (m_kernel m) = Some pid" and "get_process (m_kernel m) pid = Some p"
    and "pr_state p = Running" and "pid \<notin> set (ready_queue (m_sched m))"
  shows "preempt False m = Stuck"
  using assms by (simp add: preempt_def enqueue_def)

text \<open>
  C28: when a user process is interrupted by the timer with its slice used up (it runs, is not queued,
  has no deliverable signal, and no sleeper is due), the handler never returns: \<open>preempt\<close> calls
  \<open>enqueue\<close> with the process-manager lock held, and \<open>enqueue\<close> takes that lock again.
\<close>

theorem slice_end_deadlocks:
  assumes m: "m = i_machine s" and cs: "tf_cs frame AND 3 = 3"
    and cur: "k_current_pid (m_kernel m) = Some pid" "get_process (m_kernel m) pid = Some p"
    and run: "pr_state p = Running" "pid \<notin> set (ready_queue (m_sched m))"
    and sig: "pr_pending_signals p AND NOT (pr_signal_blocked p) = 0"
    and sleepers: "\<forall>e \<in> set (sleep_queue (m_sched m)). m_ticks m + 1 < se_wake_tick e"
    and slice: "quantum (m_sched m) \<le> quantum_counter (m_sched m) + 1"
  shows "timer_preempt_handler frame s = Stuck"
proof -
  define m0 where "m0 = m\<lparr>m_ticks := m_ticks m + 1\<rparr>"
  define m1 where "m1 = save_frame frame m0"
  obtain m2 where m2: "charge_running_vruntime False m1 = Done m2" by (simp add: charge_running_vruntime_def)
  have 1: "k_current_pid (m_kernel m1) = Some pid" "m_sched m1 = m_sched m" "m_ticks m1 = m_ticks m + 1"
    "get_process (m_kernel m1) pid = Some (p\<lparr>pr_trap_frame := frame, pr_has_trap_frame := True\<rparr>)"
    using cur by (simp_all add: m1_def m0_def save_frame_def get_modify_process)
  obtain p2 where 2: "k_current_pid (m_kernel m2) = Some pid" "m_sched m2 = m_sched m" "m_ticks m2 = m_ticks m + 1"
    "get_process (m_kernel m2) pid = Some p2" "pr_state p2 = pr_state p" "pr_pending_signals p2 = pr_pending_signals p"
    "pr_signal_blocked p2 = pr_signal_blocked p"
    using m2 1 by (auto simp: charge_running_vruntime_def get_modify_process)
  have w: "wake_sleepers False m2 = Done m2" by (rule wake_sleepers_none_due) (use sleepers 2 in simp)
  have d: "deliver_signals False m2 = Done m2" by (rule deliver_signals_idle [OF 2(1,4)]) (use sig 2 in simp)
  have "preempt False (on_sched (\<lambda>s. s\<lparr>quantum_counter := 0\<rparr>) m2) = Stuck"
    by (rule preempt_running_stuck [of _ pid p2]) (use 2 run in simp_all)
  then have "tick False m1 = Stuck" using m2 w d 2 slice by (simp add: tick_def Let_def)
  then show ?thesis using cs by (simp add: timer_preempt_handler_def preempt_user_def Let_def m m1_def m0_def)
qed

theorem slice_end_deadlocks_witness:
  "let p = (process_new example_hw 5 0 0)\<lparr>pr_state := Running\<rparr>;
       k = (kernel_boot undefined)\<lparr>k_processes := [p], k_next_pid := 6, k_current_pid := Some 5\<rparr>;
       m = (machine_boot 0 undefined)\<lparr>m_kernel := k, m_sched := sched_new\<lparr>quantum_counter := 15\<rparr>\<rparr>
   in timer_preempt_handler (trap_new_user 0 0 0x2b 0x33)
        \<lparr>i_machine = m, PREEMPTIVE_MODE = True, KERNEL_FRAME_SAVED = True, KERNEL_RETURN_FRAME = trap_empty,
         i_regs = \<lparr>tss_rsp0 = 0, cr3 = 0\<rparr>\<rparr> = Stuck"
  unfolding Let_def
  by (rule slice_end_deadlocks [OF refl, where pid = 5 and p = "(process_new example_hw 5 0 0)\<lparr>pr_state := Running\<rparr>"])
    (simp_all add: trap_new_user_def get_process_def process_new_def sched_new_def)

text \<open>
  C33: dispatch from the kernel: with preemption on, no current process and user processes queued,
  the timer picks a queued process of least virtual runtime, marks it running and current, loads
  its kernel stack and address space, and returns its trap frame; the kernel frame it returns to
  later is saved on the first dispatch only.
\<close>

theorem kernel_dispatch:
  assumes idle: "k_current_pid (m_kernel m) = None" "ready_queue (m_sched m) \<noteq> []" and s: "i_machine s = m"
    and user: "\<forall>pid \<in> set (ready_queue (m_sched m)). \<exists>p. get_process (m_kernel m) pid = Some p \<and> pr_is_user p \<and> pr_has_trap_frame p"
  shows "\<exists>pid p s'. dispatch_from_kernel frame s = Done (ProcessFrame pid, s') \<and> pid \<in> set (ready_queue (m_sched m))
    \<and> (\<forall>q \<in> set (ready_queue (m_sched m)). vruntime_of (m_kernel m) pid \<le> vruntime_of (m_kernel m) q)
    \<and> get_process (m_kernel m) pid = Some p
    \<and> get_process (m_kernel (i_machine s')) pid = Some (p\<lparr>pr_state := Running\<rparr>)
    \<and> k_current_pid (m_kernel (i_machine s')) = Some pid
    \<and> (pr_kernel_stack_top p \<noteq> 0 \<longrightarrow> tss_rsp0 (i_regs s') = pr_kernel_stack_top p)
    \<and> (pr_cr3 p \<noteq> 0 \<longrightarrow> cr3 (i_regs s') = pr_cr3 p)
    \<and> KERNEL_RETURN_FRAME s' = (if KERNEL_FRAME_SAVED s then KERNEL_RETURN_FRAME s else frame) \<and> KERNEL_FRAME_SAVED s'"
proof -
  let ?q = "ready_queue (m_sched m)"
  obtain i where i: "i < length ?q" "\<forall>pid \<in> set ?q. vruntime_of (m_kernel m) (?q ! i) \<le> vruntime_of (m_kernel m) pid"
    and d: "dequeue_next_with_pm m = (Some (?q ! i), on_sched (\<lambda>s. s\<lparr>ready_queue := take i ?q @ drop (Suc i) ?q,
       min_vruntime := (let v = vruntime_of (m_kernel m) (?q ! i) in if v = - 1 then min_vruntime s else max (min_vruntime s) v)\<rparr>) m)"
    by (rule dequeue_next_spec [OF refl idle(2)])
  have mem: "?q ! i \<in> set ?q" using i(1) by simp
  with user obtain p where p: "get_process (m_kernel m) (?q ! i) = Some p" "pr_is_user p" "pr_has_trap_frame p" by blast
  define m1 where "m1 = snd (dequeue_next_with_pm m)"
  have m1: "dequeue_next_with_pm m = (Some (?q ! i), m1)" "m_kernel m1 = m_kernel m" by (simp_all add: m1_def d)
  define s1 where "s1 = (if \<not> KERNEL_FRAME_SAVED s then s\<lparr>KERNEL_RETURN_FRAME := frame, KERNEL_FRAME_SAVED := True\<rparr> else s)"
  define s' where "s' = s1\<lparr>i_machine := make_current (?q ! i) m1, i_regs := switch_cr3 (pr_cr3 p) (load_stack p (i_regs s1))\<rparr>"
  have "dispatch_from_kernel frame s = Done (ProcessFrame (?q ! i), s')"
    using idle m1 p by (simp add: dispatch_from_kernel_def s s1_def [symmetric] s'_def Let_def)
  moreover have "get_process (m_kernel (i_machine s')) (?q ! i) = Some (p\<lparr>pr_state := Running\<rparr>)"
    "k_current_pid (m_kernel (i_machine s')) = Some (?q ! i)"
    using p m1 get_modify_process [of "\<lambda>p. p\<lparr>pr_state := Running\<rparr>" "?q ! i" "m_kernel m" "?q ! i"]
    by (simp_all add: s'_def make_current_def get_process_def)
  moreover have "pr_kernel_stack_top p \<noteq> 0 \<longrightarrow> tss_rsp0 (i_regs s') = pr_kernel_stack_top p" "pr_cr3 p \<noteq> 0 \<longrightarrow> cr3 (i_regs s') = pr_cr3 p"
    by (simp_all add: s'_def switch_cr3_def load_stack_def set_tss_rsp0_def)
  moreover have "KERNEL_RETURN_FRAME s' = (if KERNEL_FRAME_SAVED s then KERNEL_RETURN_FRAME s else frame)" "KERNEL_FRAME_SAVED s'"
    by (simp_all add: s'_def s1_def)
  ultimately show ?thesis using p(1) mem i(2) by blast
qed

theorem kernel_dispatch_witness:
  "let p = (process_new example_hw 5 0 0)\<lparr>pr_is_user := True, pr_has_trap_frame := True, pr_kernel_stack_top := 0x9000\<rparr>;
       k = (kernel_boot undefined)\<lparr>k_processes := [p], k_next_pid := 6\<rparr>;
       m = (machine_boot 0 undefined)\<lparr>m_kernel := k, m_sched := sched_new\<lparr>ready_queue := [5]\<rparr>\<rparr>;
       s = \<lparr>i_machine = m, PREEMPTIVE_MODE = True, KERNEL_FRAME_SAVED = False, KERNEL_RETURN_FRAME = trap_empty,
            i_regs = \<lparr>tss_rsp0 = 0, cr3 = 0\<rparr>\<rparr>
   in \<exists>s'. dispatch_from_kernel trap_empty s = Done (ProcessFrame 5, s') \<and> k_current_pid (m_kernel (i_machine s')) = Some 5
        \<and> tss_rsp0 (i_regs s') = 0x9000"
proof -
  let ?p = "(process_new example_hw 5 0 0)\<lparr>pr_is_user := True, pr_has_trap_frame := True, pr_kernel_stack_top := 0x9000\<rparr>"
  let ?k = "(kernel_boot undefined)\<lparr>k_processes := [?p], k_next_pid := 6\<rparr>"
  let ?m = "(machine_boot 0 undefined)\<lparr>m_kernel := ?k, m_sched := sched_new\<lparr>ready_queue := [5]\<rparr>\<rparr>"
  let ?s = "\<lparr>i_machine = ?m, PREEMPTIVE_MODE = True, KERNEL_FRAME_SAVED = False, KERNEL_RETURN_FRAME = trap_empty,
            i_regs = \<lparr>tss_rsp0 = 0, cr3 = 0\<rparr>\<rparr>"
  have a: "k_current_pid (m_kernel ?m) = None" "ready_queue (m_sched ?m) \<noteq> []"
    "\<forall>pid \<in> set (ready_queue (m_sched ?m)). \<exists>p. get_process (m_kernel ?m) pid = Some p \<and> pr_is_user p \<and> pr_has_trap_frame p"
    by (simp_all add: kernel_boot_def get_process_def process_new_def)
  have g: "get_process (m_kernel ?m) 5 = Some p \<Longrightarrow> p = ?p" for p by (simp add: get_process_def process_new_def)
  have "pr_kernel_stack_top ?p = 0x9000" by simp
  with kernel_dispatch [OF a(1,2) _ a(3), of ?s trap_empty] g show ?thesis unfolding Let_def by fastforce
qed


end
