(* ===== verification/FsTypes.thy ===== *)
theory FsTypes
  imports Prelude
begin

text \<open>
  What the file systems share (\<^verbatim>\<open>src/fs/vfs.rs\<close>): file information, the error codes, the string
  operations on paths, and the contract of a file store. Rust strings are lists of bytes (HOL characters);
  \<open>trim\<close> removes the ASCII white space, so paths are taken to have no other white space at their ends.
\<close>

section \<open>Strings\<close>

definition is_space :: "char \<Rightarrow> bool" where
  "is_space c \<longleftrightarrow> c = CHR '' '' \<or> (9 \<le> (of_char c :: nat) \<and> of_char c \<le> (13 :: nat))"

definition trim_end :: "(char \<Rightarrow> bool) \<Rightarrow> string \<Rightarrow> string" where
  "trim_end P s = rev (dropWhile P (rev s))"

definition trim :: "string \<Rightarrow> string" where
  "trim s = trim_end is_space (dropWhile is_space s)"

definition starts_with :: "string \<Rightarrow> string \<Rightarrow> bool" where
  "starts_with p s \<longleftrightarrow> take (length p) s = p"

lemma starts_with_iff: "starts_with p s \<longleftrightarrow> (\<exists>t. s = p @ t)"
  by (metis append_eq_conv_conj append_take_drop_id starts_with_def)

text \<open>\<open>trim_start_matches\<close> with a string pattern removes the pattern as often as it occurs in front.\<close>

function strip_all :: "string \<Rightarrow> string \<Rightarrow> string" where
  "strip_all p s = (if p \<noteq> [] \<and> starts_with p s then strip_all p (drop (length p) s) else s)"
  by pat_completeness auto
termination
proof (relation "measure (\<lambda>(p, s). length s)")
  fix p s :: string assume "p \<noteq> [] \<and> starts_with p s"
  then have "p \<noteq> []" "s \<noteq> []" by (auto simp: starts_with_def)
  then show "((p, drop (length p) s), (p, s)) \<in> measure (\<lambda>(p, s). length s)" by simp
qed simp

declare strip_all.simps [simp del]

definition rfind :: "char \<Rightarrow> string \<Rightarrow> nat option" where
  "rfind c s = map_option (\<lambda>i. length s - 1 - i) (position ((=) c) (rev s))"

text \<open>The 64-bit FNV-1a hash that inode numbers come from.\<close>

definition fnv1a :: "string \<Rightarrow> u64" where
  "fnv1a s = fold (\<lambda>b h. (h XOR ucast b) * 0x100000001b3) (as_bytes s) 0xcbf29ce484222325"

text \<open>Numbers in decimal, and text as lines.\<close>

fun dec_digits :: "nat \<Rightarrow> string" where
  "dec_digits n = (if n < 10 then [char_of (48 + n)] else dec_digits (n div 10) @ [char_of (48 + n mod 10)])"

declare dec_digits.simps [simp del]

definition lines_of :: "string list \<Rightarrow> string" where
  "lines_of ls = concat (map (\<lambda>l. l @ [CHR 0x0A]) ls)"

section \<open>UTF-8\<close>

text \<open>\<open>core::str::from_utf8\<close>: well-formed sequences of one to four bytes, no surrogates, no overlong forms.\<close>

definition cont :: "u8 \<Rightarrow> bool" where
  "cont b \<longleftrightarrow> 0x80 \<le> b \<and> b \<le> 0xbf"

fun utf8_valid :: "u8 list \<Rightarrow> bool" where
  "utf8_valid [] = True"
| "utf8_valid (a # bs) =
     (if a < 0x80 then utf8_valid bs
      else case bs of
          [] \<Rightarrow> False
        | b # bs1 \<Rightarrow>
            if 0xc2 \<le> a \<and> a \<le> 0xdf then cont b \<and> utf8_valid bs1
            else case bs1 of
                [] \<Rightarrow> False
              | c # bs2 \<Rightarrow>
                  if 0xe0 \<le> a \<and> a \<le> 0xef
                  then cont b \<and> cont c \<and> (a = 0xe0 \<longrightarrow> 0xa0 \<le> b) \<and> (a = 0xed \<longrightarrow> b \<le> 0x9f) \<and> utf8_valid bs2
                  else case bs2 of
                      [] \<Rightarrow> False
                    | d # bs3 \<Rightarrow>
                        0xf0 \<le> a \<and> a \<le> 0xf4 \<and> cont b \<and> cont c \<and> cont d
                        \<and> (a = 0xf0 \<longrightarrow> 0x90 \<le> b) \<and> (a = 0xf4 \<longrightarrow> b \<le> 0x8f) \<and> utf8_valid bs3)"

definition from_utf8 :: "u8 list \<Rightarrow> string option" where
  "from_utf8 bs = (if utf8_valid bs then Some (string_of_bytes bs) else None)"

section \<open>File information and errors\<close>

datatype vfs_file_type = VRegular | VDirectory | VSymlink | VCharDevice | VBlockDevice

record file_info =
  fi_name :: string
  fi_size :: nat
  fi_is_directory :: bool
  fi_file_type :: vfs_file_type
  fi_mode :: u16
  fi_uid :: u32
  fi_gid :: u32
  fi_ctime :: u64
  fi_mtime :: u64
  fi_atime :: u64
  fi_ino :: u64
  fi_nlink :: u32

definition info_new :: "string \<Rightarrow> nat \<Rightarrow> file_info" where
  "info_new name sz = \<lparr>fi_name = name, fi_size = sz, fi_is_directory = False, fi_file_type = VRegular,
     fi_mode = 420, fi_uid = 0, fi_gid = 0, fi_ctime = 0, fi_mtime = 0, fi_atime = 0, fi_ino = 0, fi_nlink = 1\<rparr>"

definition info_directory :: "string \<Rightarrow> file_info" where
  "info_directory name = \<lparr>fi_name = name, fi_size = 0, fi_is_directory = True, fi_file_type = VDirectory,
     fi_mode = 493, fi_uid = 0, fi_gid = 0, fi_ctime = 0, fi_mtime = 0, fi_atime = 0, fi_ino = 0, fi_nlink = 2\<rparr>"

definition info_symlink :: "string \<Rightarrow> nat \<Rightarrow> file_info" where
  "info_symlink name target_len = \<lparr>fi_name = name, fi_size = target_len, fi_is_directory = False, fi_file_type = VSymlink,
     fi_mode = 511, fi_uid = 0, fi_gid = 0, fi_ctime = 0, fi_mtime = 0, fi_atime = 0, fi_ino = 0, fi_nlink = 1\<rparr>"

datatype vfs_error = FileNotFound | FileExists | NoSpace | InvalidName | FileTooLarge | TooManyFiles | PermissionDenied
  | NotADirectory | IsADirectory | DirectoryNotEmpty | NotAFile | AlreadyExists | IoError

type_synonym 'a vfs_result = "vfs_error + 'a"

section \<open>Directory listings\<close>

text \<open>Names are paths relative to the root; a direct child has no further slash after the prefix of the directory.\<close>

definition child_name :: "string \<Rightarrow> string \<Rightarrow> string option" where
  "child_name prefix name =
     (if prefix = [] then (if CHR ''/'' \<notin> set name then Some name else None)
      else if starts_with prefix name
        then (let remainder = drop (length prefix) name in if CHR ''/'' \<notin> set remainder then Some remainder else None)
        else None)"

lemma child_name_iff: "child_name prefix name = Some c \<longleftrightarrow> name = prefix @ c \<and> CHR ''/'' \<notin> set c"
  by (auto simp: child_name_def Let_def starts_with_iff split: if_splits)

lemma set_map_filter: "set (List.map_filter g xs) = {c. \<exists>x \<in> set xs. g x = Some c}"
  by (induction xs) (auto simp: map_filter_simps split: option.split)

section \<open>The contract of a file store\<close>

text \<open>
  Histories of writes and deletes with the flag that says whether each succeeded, and what reading
  a key gives after such a history: the last successful operation on the key decides.
\<close>

datatype store_op = StWrite string "u8 list" | StDelete string

definition store_step ::
  "(string \<Rightarrow> u8 list \<Rightarrow> 's \<Rightarrow> unit vfs_result \<times> 's) \<Rightarrow> (string \<Rightarrow> 's \<Rightarrow> unit vfs_result \<times> 's) \<Rightarrow> store_op \<Rightarrow> 's \<Rightarrow> unit vfs_result \<times> 's" where
  "store_step wr del a s = (case a of StWrite p d \<Rightarrow> wr p d s | StDelete p \<Rightarrow> del p s)"

fun store_run ::
  "(string \<Rightarrow> u8 list \<Rightarrow> 's \<Rightarrow> unit vfs_result \<times> 's) \<Rightarrow> (string \<Rightarrow> 's \<Rightarrow> unit vfs_result \<times> 's) \<Rightarrow> store_op list \<Rightarrow> 's \<Rightarrow> (store_op \<times> bool) list \<times> 's" where
  "store_run wr del [] s = ([], s)"
| "store_run wr del (a # as) s =
     (let (r, s1) = store_step wr del a s; (log, s2) = store_run wr del as s1 in ((a, r = Inr ()) # log, s2))"

fun op_path :: "store_op \<Rightarrow> string" where
  "op_path (StWrite p d) = p"
| "op_path (StDelete p) = p"

fun op_effect :: "store_op \<Rightarrow> u8 list vfs_result" where
  "op_effect (StWrite p d) = Inr d"
| "op_effect (StDelete p) = Inl FileNotFound"

fun last_effect :: "(string \<Rightarrow> 'k) \<Rightarrow> 'k \<Rightarrow> (store_op \<times> bool) list \<Rightarrow> u8 list vfs_result \<Rightarrow> u8 list vfs_result" where
  "last_effect key k [] r = r"
| "last_effect key k ((a, ok) # log) r =
     last_effect key k log (if ok \<and> key (op_path a) = k then op_effect a else r)"

locale file_store =
  fixes key :: "string \<Rightarrow> 'k"
    and is_file :: "string \<Rightarrow> bool"
    and inv :: "'s \<Rightarrow> bool"
    and rd :: "'s \<Rightarrow> string \<Rightarrow> u8 list vfs_result"
    and wr :: "string \<Rightarrow> u8 list \<Rightarrow> 's \<Rightarrow> unit vfs_result \<times> 's"
    and del :: "string \<Rightarrow> 's \<Rightarrow> unit vfs_result \<times> 's"
  assumes wr_inv: "inv s \<Longrightarrow> inv (snd (wr p d s))"
    and del_inv: "inv s \<Longrightarrow> inv (snd (del p s))"
    and wr_read: "inv s \<Longrightarrow> is_file q \<Longrightarrow> wr p d s = (Inr (), s') \<Longrightarrow> rd s' q = (if key q = key p then Inr d else rd s q)"
    and wr_fail: "wr p d s = (Inl e, s') \<Longrightarrow> s' = s"
    and del_read: "inv s \<Longrightarrow> is_file q \<Longrightarrow> del p s = (Inr (), s') \<Longrightarrow> rd s' q = (if key q = key p then Inl FileNotFound else rd s q)"
    and del_fail: "del p s = (Inl e, s') \<Longrightarrow> s' = s"
begin

lemma step_read:
  assumes "inv s" and "is_file q" and "store_step wr del a s = (r, s')"
  shows "inv s' \<and> rd s' q = (if r = Inr () \<and> key (op_path a) = key q then op_effect a else rd s q)"
proof (cases r)
  case (Inl e)
  with assms wr_fail del_fail have "s' = s" by (cases a) (auto simp: store_step_def)
  with assms Inl show ?thesis by simp
next
  case (Inr u)
  with assms show ?thesis
    using wr_inv [OF assms(1)] del_inv [OF assms(1)]
    by (cases a) (auto simp: store_step_def wr_read del_read, (metis snd_conv)+)
qed

theorem run_read:
  assumes "inv s" and "is_file q" and "store_run wr del as s = (log, s')"
  shows "inv s' \<and> rd s' q = last_effect key (key q) log (rd s q)"
  using assms(1,3)
proof (induction as arbitrary: s log)
  case (Cons a as)
  obtain r s1 where st: "store_step wr del a s = (r, s1)" by fastforce
  obtain log1 where run: "store_run wr del as s1 = (log1, s')" "log = (a, r = Inr ()) # log1"
    using Cons.prems(2) st by (auto simp: Let_def split: prod.splits)
  from step_read [OF Cons.prems(1) assms(2) st] Cons.IH [OF _ run(1)] run(2) show ?case by simp
qed simp

end

end
