(* ===== verification/Ramdisk.thy ===== *)
theory Ramdisk
  imports FsTypes
begin

text \<open>
  The RAM disk (\<^verbatim>\<open>src/fs/ramdisk.rs\<close>): a vector of entries named by their normalised path, with regular
  files, directories and symbolic links. The time stamp that the code reads from the clock is the
  argument \<open>now\<close>.
\<close>

section \<open>Entries\<close>

abbreviation (input) MAX_FILES :: nat where "MAX_FILES \<equiv> 256"
abbreviation (input) MAX_FILE_SIZE :: nat where "MAX_FILE_SIZE \<equiv> 1048576"
abbreviation (input) MAX_FILENAME_LEN :: nat where "MAX_FILENAME_LEN \<equiv> 255"

datatype file_type = RegularFile | Directory | Symlink

record rd_file =
  f_name :: string
  f_content :: "u8 list"
  f_type :: file_type
  f_mode :: u16
  f_uid :: u32
  f_gid :: u32
  f_ctime :: u64
  f_mtime :: u64
  f_atime :: u64

definition current_timestamp :: "u64 \<Rightarrow> u64" where
  "current_timestamp ticks = ticks div 18"

definition file_new :: "u64 \<Rightarrow> string \<Rightarrow> u8 list \<Rightarrow> string + rd_file" where
  "file_new now name content =
     (if MAX_FILENAME_LEN < length name then Inl ''Filename too long''
      else if MAX_FILE_SIZE < length content then Inl ''File too large''
      else Inr \<lparr>f_name = name, f_content = content, f_type = RegularFile, f_mode = 420, f_uid = 0, f_gid = 0,
             f_ctime = now, f_mtime = now, f_atime = now\<rparr>)"

definition file_new_directory :: "u64 \<Rightarrow> string \<Rightarrow> string + rd_file" where
  "file_new_directory now name =
     (if MAX_FILENAME_LEN < length name then Inl ''Filename too long''
      else Inr \<lparr>f_name = name, f_content = [], f_type = Directory, f_mode = 493, f_uid = 0, f_gid = 0,
             f_ctime = now, f_mtime = now, f_atime = now\<rparr>)"

definition file_new_symlink :: "u64 \<Rightarrow> string \<Rightarrow> string \<Rightarrow> string + rd_file" where
  "file_new_symlink now name target =
     (if MAX_FILENAME_LEN < length name then Inl ''Filename too long''
      else Inr \<lparr>f_name = name, f_content = as_bytes target, f_type = Symlink, f_mode = 511, f_uid = 0, f_gid = 0,
             f_ctime = now, f_mtime = now, f_atime = now\<rparr>)"

definition f_is_directory :: "rd_file \<Rightarrow> bool" where
  "f_is_directory f \<longleftrightarrow> f_type f = Directory"

definition f_is_symlink :: "rd_file \<Rightarrow> bool" where
  "f_is_symlink f \<longleftrightarrow> f_type f = Symlink"

definition symlink_target :: "rd_file \<Rightarrow> string option" where
  "symlink_target f = (if f_type f = Symlink then from_utf8 (f_content f) else None)"

definition ramdisk_ino :: "string \<Rightarrow> u64" where
  "ramdisk_ino path = 0x1000000000000000 OR (fnv1a path AND 0x0fffffffffffffff)"

definition to_info :: "string \<Rightarrow> rd_file \<Rightarrow> file_info" where
  "to_info display_name f =
     \<lparr>fi_name = display_name, fi_size = length (f_content f), fi_is_directory = f_is_directory f,
      fi_file_type = (case f_type f of RegularFile \<Rightarrow> VRegular | Directory \<Rightarrow> VDirectory | Symlink \<Rightarrow> VSymlink),
      fi_mode = f_mode f, fi_uid = f_uid f, fi_gid = f_gid f, fi_ctime = f_ctime f, fi_mtime = f_mtime f, fi_atime = f_atime f,
      fi_ino = ramdisk_ino (f_name f), fi_nlink = (if f_is_directory f then 2 else 1)\<rparr>"

section \<open>Paths\<close>

definition normalize_path :: "string \<Rightarrow> string" where
  "normalize_path path =
     (let path = trim path in
      if path = ''/'' \<or> path = [] then ''/''
      else dropWhile (\<lambda>c. c = CHR ''/'') (trim_end (\<lambda>c. c = CHR ''/'') path))"

definition parent_path :: "string \<Rightarrow> string" where
  "parent_path path =
     (case rfind (CHR ''/'') path of Some idx \<Rightarrow> if 0 < idx then take idx path else ''/'' | None \<Rightarrow> ''/'')"

section \<open>Operations\<close>

type_synonym ramdisk = "rd_file list"

definition named :: "string \<Rightarrow> rd_file \<Rightarrow> bool" where
  "named n f \<longleftrightarrow> f_name f = n"

definition write_file :: "u64 \<Rightarrow> string \<Rightarrow> u8 list \<Rightarrow> ramdisk \<Rightarrow> unit vfs_result \<times> ramdisk" where
  "write_file now name content fs =
     (if name = [] then (Inl InvalidName, fs)
      else let n = normalize_path name in
        case file_new now n content of
          Inl e \<Rightarrow> (Inl (if e = ''Filename too long'' then InvalidName else if e = ''File too large'' then FileTooLarge else IoError), fs)
        | Inr file \<Rightarrow>
            if list_ex (\<lambda>f. named n f \<and> f_is_directory f) fs then (Inl IsADirectory, fs)
            else case find (\<lambda>f. named n f \<and> \<not> f_is_directory f) fs of
                Some _ \<Rightarrow> (Inr (), update_first (\<lambda>f. named n f \<and> \<not> f_is_directory f) (\<lambda>_. file) fs)
              | None \<Rightarrow> if MAX_FILES \<le> length fs then (Inl TooManyFiles, fs) else (Inr (), fs @ [file]))"

definition read_file :: "ramdisk \<Rightarrow> string \<Rightarrow> u8 list vfs_result" where
  "read_file fs name =
     (case find (\<lambda>f. named (normalize_path name) f \<and> \<not> f_is_directory f) fs of
        Some f \<Rightarrow> Inr (f_content f) | None \<Rightarrow> Inl FileNotFound)"

definition remove_at :: "nat \<Rightarrow> 'a list \<Rightarrow> 'a list" where
  "remove_at i xs = take i xs @ drop (Suc i) xs"

definition delete_file :: "string \<Rightarrow> ramdisk \<Rightarrow> unit vfs_result \<times> ramdisk" where
  "delete_file name fs =
     (case position (\<lambda>f. named (normalize_path name) f \<and> \<not> f_is_directory f) fs of
        None \<Rightarrow> (Inl FileNotFound, fs) | Some i \<Rightarrow> (Inr (), remove_at i fs))"

definition file_exists :: "ramdisk \<Rightarrow> string \<Rightarrow> bool" where
  "file_exists fs name \<longleftrightarrow> name = ''/'' \<or> list_ex (named (normalize_path name)) fs"

definition list_files :: "ramdisk \<Rightarrow> file_info list" where
  "list_files fs = map (\<lambda>f. to_info (f_name f) f) fs"

definition space_used :: "ramdisk \<Rightarrow> nat" where
  "space_used fs = sum_list (map (\<lambda>f. length (f_content f)) fs)"

definition space_total :: "ramdisk \<Rightarrow> nat" where
  "space_total fs = MAX_FILES * MAX_FILE_SIZE"

definition parent_missing :: "string \<Rightarrow> ramdisk \<Rightarrow> bool" where
  "parent_missing n fs \<longleftrightarrow> parent_path n \<noteq> ''/'' \<and> \<not> list_ex (\<lambda>f. named (parent_path n) f \<and> f_is_directory f) fs"

definition create_directory :: "u64 \<Rightarrow> string \<Rightarrow> ramdisk \<Rightarrow> unit vfs_result \<times> ramdisk" where
  "create_directory now path fs =
     (let n = normalize_path path in
      if n = ''/'' then (Inr (), fs)
      else if list_ex (named n) fs then (Inl FileExists, fs)
      else if parent_missing n fs then (Inl FileNotFound, fs)
      else if MAX_FILES \<le> length fs then (Inl TooManyFiles, fs)
      else case file_new_directory now n of Inl _ \<Rightarrow> (Inl InvalidName, fs) | Inr dir \<Rightarrow> (Inr (), fs @ [dir]))"

definition dir_prefix :: "string \<Rightarrow> string" where
  "dir_prefix n = (if n \<noteq> [] \<and> last n = CHR ''/'' then n else n @ ''/'')"

definition remove_directory :: "string \<Rightarrow> ramdisk \<Rightarrow> unit vfs_result \<times> ramdisk" where
  "remove_directory path fs =
     (let n = normalize_path path in
      if n = ''/'' then (Inl PermissionDenied, fs)
      else case position (\<lambda>f. named n f \<and> f_is_directory f) fs of
          None \<Rightarrow> (Inl FileNotFound, fs)
        | Some idx \<Rightarrow>
            if list_ex (\<lambda>f. starts_with (dir_prefix n) (f_name f)) fs then (Inl DirectoryNotEmpty, fs)
            else (Inr (), remove_at idx fs))"

definition list_directory :: "ramdisk \<Rightarrow> string \<Rightarrow> file_info list vfs_result" where
  "list_directory fs path =
     (let n = normalize_path path in
      if n \<noteq> ''/'' \<and> \<not> list_ex (\<lambda>f. named n f \<and> f_is_directory f) fs then Inl NotADirectory
      else let prefix = (if n = ''/'' then [] else n @ ''/'')
           in Inr (List.map_filter (\<lambda>f. map_option (\<lambda>c. to_info c f) (child_name prefix (f_name f))) fs))"

definition rd_is_directory :: "ramdisk \<Rightarrow> string \<Rightarrow> bool" where
  "rd_is_directory fs path \<longleftrightarrow> path = ''/'' \<or> list_ex (\<lambda>f. named (normalize_path path) f \<and> f_is_directory f) fs"

definition rd_rename :: "string \<Rightarrow> string \<Rightarrow> ramdisk \<Rightarrow> unit vfs_result \<times> ramdisk" where
  "rd_rename old_path new_path fs =
     (let old_norm = normalize_path old_path; new_norm = normalize_path new_path in
      if list_ex (named new_norm) fs then (Inl FileExists, fs)
      else case find (named old_norm) fs of
          Some _ \<Rightarrow> (Inr (), update_first (named old_norm) (\<lambda>f. f\<lparr>f_name := new_norm\<rparr>) fs)
        | None \<Rightarrow> (Inl FileNotFound, fs))"

definition rd_symlink :: "u64 \<Rightarrow> string \<Rightarrow> string \<Rightarrow> ramdisk \<Rightarrow> unit vfs_result \<times> ramdisk" where
  "rd_symlink now link_path target fs =
     (let n = normalize_path link_path in
      if list_ex (named n) fs then (Inl FileExists, fs)
      else if parent_missing n fs then (Inl FileNotFound, fs)
      else if MAX_FILES \<le> length fs then (Inl TooManyFiles, fs)
      else case file_new_symlink now n target of Inl _ \<Rightarrow> (Inl InvalidName, fs) | Inr link \<Rightarrow> (Inr (), fs @ [link]))"

definition rd_readlink :: "ramdisk \<Rightarrow> string \<Rightarrow> string vfs_result" where
  "rd_readlink fs path =
     (case find (named (normalize_path path)) fs of
        None \<Rightarrow> Inl FileNotFound
      | Some f \<Rightarrow> (case symlink_target f of Some t \<Rightarrow> Inr t | None \<Rightarrow> Inl NotAFile))"

definition rd_chmod :: "u64 \<Rightarrow> string \<Rightarrow> u16 \<Rightarrow> ramdisk \<Rightarrow> unit vfs_result \<times> ramdisk" where
  "rd_chmod now path mode fs =
     (let n = normalize_path path in
      case find (named n) fs of
        None \<Rightarrow> (Inl FileNotFound, fs)
      | Some _ \<Rightarrow> (Inr (), update_first (named n) (\<lambda>f. f\<lparr>f_mode := mode, f_mtime := now\<rparr>) fs))"

definition rd_chown :: "u64 \<Rightarrow> string \<Rightarrow> u32 \<Rightarrow> u32 \<Rightarrow> ramdisk \<Rightarrow> unit vfs_result \<times> ramdisk" where
  "rd_chown now path uid gid fs =
     (let n = normalize_path path in
      case find (named n) fs of
        None \<Rightarrow> (Inl FileNotFound, fs)
      | Some _ \<Rightarrow> (Inr (), update_first (named n) (\<lambda>f. f\<lparr>f_uid := uid, f_gid := gid, f_mtime := now\<rparr>) fs))"

definition rd_stat :: "ramdisk \<Rightarrow> string \<Rightarrow> file_info vfs_result" where
  "rd_stat fs path =
     (if path = ''/'' then Inr ((info_directory ''/'')\<lparr>fi_ino := ramdisk_ino ''/''\<rparr>)
      else case find (named (normalize_path path)) fs of None \<Rightarrow> Inl FileNotFound | Some f \<Rightarrow> Inr (to_info (f_name f) f))"

definition rd_ino :: "ramdisk \<Rightarrow> string \<Rightarrow> u64" where
  "rd_ino fs path =
     (if path = ''/'' then ramdisk_ino ''/''
      else let n = normalize_path path in if list_ex (named n) fs then ramdisk_ino n else 0)"

definition rd_nlink :: "ramdisk \<Rightarrow> string \<Rightarrow> u32" where
  "rd_nlink fs path =
     (if path = ''/'' then 2
      else case find (named (normalize_path path)) fs of Some f \<Rightarrow> if f_is_directory f then 2 else 1 | None \<Rightarrow> 0)"

section \<open>The invariant\<close>

text \<open>
  Names are unique, the table is bounded, and regular files respect the size limit.
\<close>

definition rd_invar :: "ramdisk \<Rightarrow> bool" where
  "rd_invar fs \<longleftrightarrow> distinct (map f_name fs) \<and> length fs \<le> MAX_FILES
     \<and> (\<forall>f \<in> set fs. f_type f = RegularFile \<longrightarrow> length (f_content f) \<le> MAX_FILE_SIZE)"

lemma map_update_first_on:
  "(\<And>x. x \<in> set xs \<Longrightarrow> P x \<Longrightarrow> g (f x) = g x) \<Longrightarrow> map g (update_first P f xs) = map g xs"
  by (induction xs) auto

lemma find_named_unique:
  "distinct (map f_name fs) \<Longrightarrow> find (\<lambda>f. named n f \<and> Q f) fs = (case find (named n) fs of None \<Rightarrow> None | Some f \<Rightarrow> if Q f then Some f else None)"
proof (induction fs)
  case (Cons f fs)
  show ?case
  proof (cases "named n f \<and> \<not> Q f")
    case True
    with Cons.prems have "\<forall>g \<in> set fs. \<not> named n g" by (auto simp: named_def image_iff)
    then have "find (\<lambda>f. named n f \<and> Q f) fs = None" by (auto simp: find_None_iff)
    with True show ?thesis by simp
  next
    case False
    with Cons show ?thesis by auto
  qed
qed simp

lemma find_remove_at:
  assumes "distinct (map f_name fs)" and "position (\<lambda>f. named n f \<and> Q f) fs = Some i"
  shows "find (named m) (remove_at i fs) = (if m = n then None else find (named m) fs)
    \<and> distinct (map f_name (remove_at i fs)) \<and> set (remove_at i fs) \<subseteq> set fs \<and> length (remove_at i fs) \<le> length fs"
proof -
  have i: "i < length fs" "f_name (fs ! i) = n" using position_SomeD [OF assms(2)] by (auto simp: named_def)
  have fs: "fs = take i fs @ fs ! i # drop (Suc i) fs" using i(1) by (simp add: id_take_nth_drop [symmetric])
  have d: "distinct (map f_name (take i fs @ fs ! i # drop (Suc i) fs))" using assms(1) fs by simp
  have out: "\<forall>f \<in> set (remove_at i fs). \<not> named n f" using d i(2) by (auto simp: remove_at_def named_def image_iff)
  have "find (named m) (remove_at i fs) = find (named m) fs" if "m \<noteq> n"
    using that i(2) by (subst (2) fs) (auto simp: remove_at_def find_append named_def split: option.split)
  moreover have "find (named n) (remove_at i fs) = None" using out by (auto simp: find_None_iff)
  moreover have "distinct (map f_name (remove_at i fs))" using d by (auto simp: remove_at_def)
  moreover have "set (remove_at i fs) \<subseteq> set fs" by (auto simp: remove_at_def dest: in_set_takeD in_set_dropD)
  ultimately show ?thesis by (auto simp: remove_at_def)
qed

lemma remove_at_invar:
  assumes inv: "rd_invar fs" and i: "position (\<lambda>f. named n f \<and> Q f) fs = Some i"
  shows "rd_invar (remove_at i fs)"
proof -
  have "distinct (map f_name fs)" using inv by (simp add: rd_invar_def)
  note r = find_remove_at [OF this i, of n]
  then have "length (remove_at i fs) \<le> length fs" "set (remove_at i fs) \<subseteq> set fs" by blast+
  with inv r show ?thesis by (auto simp: rd_invar_def)
qed

lemma rd_push_invar:
  assumes "rd_invar fs" and "\<not> list_ex (named n) fs" and "length fs < MAX_FILES" and "f_name f = n"
    and "f_type f = RegularFile \<Longrightarrow> length (f_content f) \<le> MAX_FILE_SIZE"
  shows "rd_invar (fs @ [f])"
  using assms by (auto simp: rd_invar_def list_ex_iff named_def)

lemma find_push: "\<not> list_ex (named n) fs \<Longrightarrow> f_name f = n \<Longrightarrow> find (named m) (fs @ [f]) = (if m = n then Some f else find (named m) fs)"
proof -
  assume a: "\<not> list_ex (named n) fs" "f_name f = n"
  then have "find (named n) fs = None" by (auto simp: find_None_iff list_ex_iff)
  with a show ?thesis by (auto simp: find_append named_def split: option.split)
qed

lemma rd_modify_invar:
  assumes "rd_invar fs" and "\<And>f. f_name (g f) = f_name f" "\<And>f. f_type (g f) = f_type f" "\<And>f. f_content (g f) = f_content f"
  shows "rd_invar (update_first P g fs)"
  using assms by (auto simp: rd_invar_def map_update_first dest!: in_set_update_first)

lemma file_newD:
  "file_new now n content = Inr fl \<Longrightarrow> f_name fl = n \<and> f_content fl = content \<and> f_type fl = RegularFile
     \<and> length n \<le> MAX_FILENAME_LEN \<and> length content \<le> MAX_FILE_SIZE"
  by (auto simp: file_new_def split: if_splits)

lemma write_file_ok:
  assumes inv: "rd_invar fs" and w: "write_file now name content fs = (Inr (), fs')"
  shows "rd_invar fs' \<and> (\<exists>fl. f_name fl = normalize_path name \<and> f_content fl = content \<and> f_type fl = RegularFile
    \<and> (\<forall>m. find (named m) fs' = (if m = normalize_path name then Some fl else find (named m) fs)))"
proof -
  let ?n = "normalize_path name" and ?P = "\<lambda>f. named (normalize_path name) f \<and> \<not> f_is_directory f"
  obtain fl where fl: "file_new now ?n content = Inr fl" and nodir: "\<not> list_ex (\<lambda>f. named ?n f \<and> f_is_directory f) fs"
    using w by (auto simp: write_file_def Let_def split: if_splits sum.splits)
  note f = file_newD [OF fl]
  have P: "?P f \<longleftrightarrow> named ?n f" if "f \<in> set fs" for f using nodir that by (auto simp: list_ex_iff)
  show ?thesis
  proof (cases "list_ex (named ?n) fs")
    case True
    then have "find ?P fs \<noteq> None" using P by (auto simp: find_None_iff list_ex_iff)
    then have fs': "fs' = update_first ?P (\<lambda>_. fl) fs"
      using w fl nodir by (auto simp: write_file_def Let_def split: if_splits)
    have eq: "fs' = update_first (named ?n) (\<lambda>_. fl) fs"
      unfolding fs' using P by (induction fs) auto
    have "map f_name fs' = map f_name fs" unfolding eq by (rule map_update_first_on) (use f in \<open>auto simp: named_def\<close>)
    then have inv': "rd_invar fs'"
      using inv f by (auto simp: rd_invar_def eq dest!: in_set_update_first)
    have "find (named m) fs' = (if m = ?n then Some fl else find (named m) fs)" for m
    proof (cases "m = ?n")
      case m: True
      have "find (named ?n) fs' = map_option (\<lambda>_. fl) (find (named ?n) fs)"
        unfolding eq by (rule find_update_first_same) (use f in \<open>simp add: named_def\<close>)
      with m True show ?thesis by (cases "find (named ?n) fs") (auto simp: find_None_iff list_ex_iff)
    next
      case False
      then show ?thesis unfolding eq by (simp, intro find_update_first_other) (use f in \<open>auto simp: named_def\<close>)
    qed
    with inv' f show ?thesis by blast
  next
    case False
    then have "find ?P fs = None" by (auto simp: find_None_iff list_ex_iff)
    then have fs': "fs' = fs @ [fl]" "length fs < MAX_FILES"
      using w fl nodir by (auto simp: write_file_def Let_def split: if_splits)
    show ?thesis unfolding fs'(1)
      using rd_push_invar [OF inv False fs'(2)] find_push [OF False] f by auto
  qed
qed

lemma write_file_fail: "write_file now name content fs = (Inl e, fs') \<Longrightarrow> fs' = fs"
  by (auto simp: write_file_def Let_def split: if_splits sum.splits option.splits)


lemma delete_file_ok:
  assumes inv: "rd_invar fs" and d: "delete_file name fs = (Inr (), fs')"
  shows "rd_invar fs' \<and> (\<forall>m. find (named m) fs' = (if m = normalize_path name then None else find (named m) fs))"
proof -
  obtain i where i: "position (\<lambda>f. named (normalize_path name) f \<and> \<not> f_is_directory f) fs = Some i" and fs': "fs' = remove_at i fs"
    using d by (auto simp: delete_file_def split: option.splits)
  have "distinct (map f_name fs)" using inv by (simp add: rd_invar_def)
  from find_remove_at [OF this i] remove_at_invar [OF inv i] show ?thesis unfolding fs' by blast
qed

lemma delete_file_fail: "delete_file name fs = (Inl e, fs') \<Longrightarrow> fs' = fs"
  by (auto simp: delete_file_def split: option.splits)

lemma read_file_find:
  assumes "rd_invar fs"
  shows "read_file fs q = (case find (named (normalize_path q)) fs of Some f \<Rightarrow> if f_is_directory f then Inl FileNotFound else Inr (f_content f)
     | None \<Rightarrow> Inl FileNotFound)"
  using assms by (simp add: read_file_def rd_invar_def find_named_unique split: option.split)

interpretation rdfs: file_store normalize_path "\<lambda>_. True" rd_invar read_file "write_file now" delete_file
proof
  fix s p d q s' e
  assume inv: "rd_invar s"
  show "rd_invar (snd (write_file now p d s))"
    using inv write_file_ok [OF inv, of now p d] write_file_fail [of now p d s]
    by (cases "write_file now p d s"; cases "fst (write_file now p d s)") auto
  show "rd_invar (snd (delete_file p s))"
    using inv delete_file_ok [OF inv, of p] delete_file_fail [of p s]
    by (cases "delete_file p s"; cases "fst (delete_file p s)") auto
  show "read_file s' q = (if normalize_path q = normalize_path p then Inr d else read_file s q)"
    if "write_file now p d s = (Inr (), s')"
    using write_file_ok [OF inv that] inv by (auto simp: read_file_find f_is_directory_def)
  show "read_file s' q = (if normalize_path q = normalize_path p then Inl FileNotFound else read_file s q)"
    if "delete_file p s = (Inr (), s')"
    using delete_file_ok [OF inv that] inv by (auto simp: read_file_find)
qed (auto dest: write_file_fail delete_file_fail)

lemma write_invar: "rd_invar fs \<Longrightarrow> rd_invar (snd (write_file now p d fs))"
  by (rule rdfs.wr_inv)

lemma delete_invar: "rd_invar fs \<Longrightarrow> rd_invar (snd (delete_file p fs))"
  by (rule rdfs.del_inv)

lemma create_directory_invar: "rd_invar fs \<Longrightarrow> rd_invar (snd (create_directory now p fs))"
  by (auto simp: create_directory_def Let_def file_new_directory_def intro: rd_push_invar)

lemma rd_symlink_invar: "rd_invar fs \<Longrightarrow> rd_invar (snd (rd_symlink now p t fs))"
  by (auto simp: rd_symlink_def Let_def file_new_symlink_def intro: rd_push_invar)

lemma remove_directory_invar:
  assumes inv: "rd_invar fs"
  shows "rd_invar (snd (remove_directory p fs))"
proof (cases "position (\<lambda>f. named (normalize_path p) f \<and> f_is_directory f) fs")
  case None
  with inv show ?thesis by (simp add: remove_directory_def Let_def)
next
  case (Some i)
  with inv remove_at_invar [OF inv Some] show ?thesis by (simp add: remove_directory_def Let_def)
qed

lemma rd_rename_invar:
  assumes inv: "rd_invar fs"
  shows "rd_invar (snd (rd_rename p q fs))"
proof (cases "list_ex (named (normalize_path q)) fs")
  case True
  with inv show ?thesis by (simp add: rd_rename_def Let_def)
next
  case False
  define g where "g = (\<lambda>f :: rd_file. f\<lparr>f_name := normalize_path q\<rparr>)"
  have new: "normalize_path q \<notin> set (map f_name fs)" using False by (auto simp: list_ex_iff named_def)
  have "distinct (map f_name (update_first P g fs))" if "distinct (map f_name fs)" for P
  proof -
    have "distinct (map f_name (update_first P g xs)) \<and> set (map f_name (update_first P g xs)) \<subseteq> insert (normalize_path q) (set (map f_name xs))"
      if "distinct (map f_name xs)" "normalize_path q \<notin> set (map f_name xs)" for xs
      using that by (induction xs) (auto simp: g_def)
    then show ?thesis using that new by blast
  qed
  then have "rd_invar (update_first P g fs)" for P
    using inv by (auto simp: rd_invar_def g_def dest!: in_set_update_first)
  with inv False show ?thesis by (simp add: rd_rename_def Let_def g_def split: option.split)
qed

lemma rd_chmod_invar: "rd_invar fs \<Longrightarrow> rd_invar (snd (rd_chmod now p m fs))"
  by (auto simp: rd_chmod_def Let_def intro!: rd_modify_invar split: option.split)

lemma rd_chown_invar: "rd_invar fs \<Longrightarrow> rd_invar (snd (rd_chown now p u g fs))"
  by (auto simp: rd_chown_def Let_def intro!: rd_modify_invar split: option.split)

inductive rd_reach :: "ramdisk \<Rightarrow> bool" where
  rd_empty: "rd_reach []"
| rd_write: "rd_reach fs \<Longrightarrow> rd_reach (snd (write_file now p d fs))"
| rd_delete: "rd_reach fs \<Longrightarrow> rd_reach (snd (delete_file p fs))"
| rd_mkdir: "rd_reach fs \<Longrightarrow> rd_reach (snd (create_directory now p fs))"
| rd_rmdir: "rd_reach fs \<Longrightarrow> rd_reach (snd (remove_directory p fs))"
| rd_move: "rd_reach fs \<Longrightarrow> rd_reach (snd (rd_rename p q fs))"
| rd_link: "rd_reach fs \<Longrightarrow> rd_reach (snd (rd_symlink now p t fs))"
| rd_mode: "rd_reach fs \<Longrightarrow> rd_reach (snd (rd_chmod now p m fs))"
| rd_owner: "rd_reach fs \<Longrightarrow> rd_reach (snd (rd_chown now p u g fs))"

lemma rd_reach_invar: "rd_reach fs \<Longrightarrow> rd_invar fs"
  by (induction rule: rd_reach.induct)
    (simp_all add: write_invar delete_invar create_directory_invar remove_directory_invar rd_rename_invar
      rd_symlink_invar rd_chmod_invar rd_chown_invar, simp add: rd_invar_def)


section \<open>Listing\<close>

lemma map_filter_children:
  "map fi_name (List.map_filter (\<lambda>f. map_option (\<lambda>c. to_info c f) (child_name prefix (f_name f))) fs)
     = List.map_filter (\<lambda>f. child_name prefix (f_name f)) fs"
  by (induction fs) (auto simp: map_filter_def to_info_def)

lemma distinct_children:
  "distinct (map f_name fs) \<Longrightarrow> distinct (List.map_filter (\<lambda>f. child_name prefix (f_name f)) fs)"
proof (induction fs)
  case (Cons f fs)
  have "c \<notin> set (List.map_filter (\<lambda>f. child_name prefix (f_name f)) fs)" if "child_name prefix (f_name f) = Some c" for c
  proof
    assume "c \<in> set (List.map_filter (\<lambda>f. child_name prefix (f_name f)) fs)"
    then obtain g where "g \<in> set fs" "child_name prefix (f_name g) = Some c" by (auto simp: map_filter_def)
    with that have "f_name f \<in> f_name ` set fs" by (metis child_name_iff image_eqI)
    with Cons.prems show False by simp
  qed
  with Cons show ?case by (cases "child_name prefix (f_name f)") (simp_all add: map_filter_simps)
qed (simp add: map_filter_simps)

section \<open>Properties\<close>

text \<open>
  Every sequence of RAM-disk operations from the empty disk keeps entry names unique, the
  table within 256 entries, and regular files within one MiB.
\<close>

theorem ramdisk_invariant:
  assumes "rd_reach fs"
  shows "distinct (map f_name fs) \<and> length fs \<le> 256 \<and> (\<forall>f \<in> set fs. f_type f = RegularFile \<longrightarrow> length (f_content f) \<le> 1048576)"
  using rd_reach_invar [OF assms] by (simp add: rd_invar_def)

text \<open>
  C9: the RAM disk implements a file store: after any sequence of writes and deletes, reading a
  path gives what the last successful operation on the same normalised path left there, and what
  was there before if none succeeded.
\<close>

theorem ramdisk_last_write:
  assumes "rd_reach fs" and "store_run (write_file now) delete_file as fs = (log, fs')"
  shows "read_file fs' q = last_effect normalize_path (normalize_path q) log (read_file fs q)"
  using rdfs.run_read [OF rd_reach_invar [OF assms(1)] TrueI assms(2)] by blast

text \<open>
  Listing a directory gives each direct child exactly once, by its last component, and
  nothing else; a directory that \<open>rmdir\<close> removes had an empty listing and is gone afterwards.
\<close>

theorem ramdisk_listing:
  assumes "rd_reach fs" and "list_directory fs path = Inr es"
  shows "distinct (map fi_name es)
    \<and> set (map fi_name es) = {c. CHR ''/'' \<notin> set c \<and> (if normalize_path path = ''/'' then c else normalize_path path @ ''/'' @ c) \<in> f_name ` set fs}
    \<and> (\<forall>fs'. remove_directory path fs = (Inr (), fs') \<longrightarrow> es = [] \<and> rd_stat fs' path = Inl FileNotFound)"
proof -
  let ?n = "normalize_path path"
  define prefix where "prefix = (if ?n = ''/'' then [] else ?n @ ''/'')"
  have d: "distinct (map f_name fs)" using rd_reach_invar [OF assms(1)] by (simp add: rd_invar_def)
  have es: "es = List.map_filter (\<lambda>f. map_option (\<lambda>c. to_info c f) (child_name prefix (f_name f))) fs"
    using assms(2) by (auto simp: list_directory_def Let_def prefix_def split: if_splits)
  have names: "set (map fi_name es) = {c. CHR ''/'' \<notin> set c \<and> prefix @ c \<in> f_name ` set fs}"
  proof -
    have "f_name ` set fs = {n. \<exists>f \<in> set fs. f_name f = n}" by auto
    then show ?thesis unfolding es map_filter_children by (auto simp: set_map_filter child_name_iff)
  qed
  have "es = [] \<and> rd_stat fs' path = Inl FileNotFound" if r: "remove_directory path fs = (Inr (), fs')" for fs'
  proof -
    from r obtain i where n: "?n \<noteq> ''/''" and i: "position (\<lambda>f. named ?n f \<and> f_is_directory f) fs = Some i"
      and none: "\<not> list_ex (\<lambda>f. starts_with (dir_prefix ?n) (f_name f)) fs" and fs': "fs' = remove_at i fs"
      by (auto simp: remove_directory_def Let_def split: if_splits option.splits)
    have pre: "starts_with (dir_prefix ?n) (prefix @ c)" for c
      using n by (auto simp: prefix_def dir_prefix_def starts_with_iff)
    have "prefix @ c \<notin> f_name ` set fs" for c using none pre [of c] by (auto simp: list_ex_iff image_iff)
    then have "fi_name ` set es = {}" using names by simp
    moreover have "path \<noteq> ''/''" using n by (auto simp: normalize_path_def trim_def trim_end_def is_space_def)
    ultimately show ?thesis using find_remove_at [OF d i, of ?n] by (simp add: rd_stat_def fs')
  qed
  moreover have "(if ?n = ''/'' then c else ?n @ ''/'' @ c) = prefix @ c" for c by (simp add: prefix_def)
  ultimately show ?thesis using names distinct_children [OF d, of prefix] unfolding es map_filter_children by simp
qed


section \<open>Witnesses\<close>

lemmas path_eval = normalize_path_def trim_def trim_end_def is_space_def Let_def

lemmas rd_eval = write_file_def create_directory_def delete_file_def file_new_def file_new_directory_def parent_missing_def
  parent_path_def rfind_def named_def f_is_directory_def remove_at_def

definition example_disk :: ramdisk where
  "example_disk = snd (write_file 0 ''/etc/motd'' [104, 105] (snd (create_directory 0 ''/etc/'' [])))"

lemma example_disk_reach: "rd_reach example_disk"
  unfolding example_disk_def by (intro rd_write rd_mkdir rd_empty)

lemma example_paths:
  "normalize_path ''/etc/'' = ''etc''" "normalize_path ''/etc'' = ''etc''" "normalize_path ''/etc/motd'' = ''etc/motd''"
  "normalize_path ''a.txt'' = ''a.txt''" "normalize_path ''//a.txt'' = ''a.txt''" "normalize_path ''/a.txt/'' = ''a.txt''"
  by (simp_all add: path_eval)

lemma example_disk_eq:
  "example_disk =
     [\<lparr>f_name = ''etc'', f_content = [], f_type = Directory, f_mode = 493, f_uid = 0, f_gid = 0, f_ctime = 0, f_mtime = 0, f_atime = 0\<rparr>,
      \<lparr>f_name = ''etc/motd'', f_content = [104, 105], f_type = RegularFile, f_mode = 420, f_uid = 0, f_gid = 0, f_ctime = 0, f_mtime = 0, f_atime = 0\<rparr>]"
  by (simp add: example_disk_def example_paths rd_eval Let_def)

theorem ramdisk_invariant_witness:
  "rd_reach example_disk \<and> distinct (map f_name example_disk) \<and> length example_disk \<le> 256"
  using ramdisk_invariant [OF example_disk_reach] example_disk_reach by blast

theorem ramdisk_last_write_witness:
  "let ops = [StWrite ''a.txt'' [1], StWrite ''/etc'' [9], StWrite ''/a.txt/'' [2], StDelete ''/etc/motd'']
   in read_file (snd (store_run (write_file 0) delete_file ops example_disk)) ''//a.txt'' = Inr [2]"
proof -
  let ?ops = "[StWrite ''a.txt'' [1], StWrite ''/etc'' [9], StWrite ''/a.txt/'' [2], StDelete ''/etc/motd'']"
  obtain log fs' where run: "store_run (write_file 0) delete_file ?ops example_disk = (log, fs')" by fastforce
  then have log: "log = zip ?ops [True, False, True, True]"
    by (auto simp: example_disk_eq store_step_def example_paths rd_eval Let_def)
  have "read_file fs' ''//a.txt'' = Inr [2]"
    using ramdisk_last_write [OF example_disk_reach run, of "''//a.txt''"] by (simp add: log example_paths)
  then show ?thesis by (simp only: Let_def run snd_conv)
qed

theorem ramdisk_listing_witness:
  "\<exists>es. list_directory example_disk ''/etc'' = Inr es \<and> set (map fi_name es) = {''motd''}"
proof -
  have "list_ex (\<lambda>f. named ''etc'' f \<and> f_is_directory f) example_disk"
    by (simp add: example_disk_eq named_def f_is_directory_def)
  then obtain es where es: "list_directory example_disk ''/etc'' = Inr es" by (simp add: list_directory_def example_paths)
  have names: "f_name ` set example_disk = {''etc'', ''etc/motd''}" by (simp add: example_disk_eq)
  have "set (map fi_name es) = {c. CHR ''/'' \<notin> set c \<and> ''etc'' @ ''/'' @ c \<in> {''etc'', ''etc/motd''}}"
    using ramdisk_listing [OF example_disk_reach es] unfolding names example_paths by simp
  also have "\<dots> = {''motd''}" by auto
  finally have "set (map fi_name es) = {''motd''}" .
  with es show ?thesis by blast
qed

text \<open>
  A rename is not held to the length limit of names, and it moves a directory without its contents.
\<close>

lemma rename_exceeds_name_limit:
  "\<exists>fs f. rd_reach fs \<and> f \<in> set fs \<and> MAX_FILENAME_LEN < length (f_name f)"
proof -
  obtain long where long: "normalize_path long = long" "length long = 300"
    by (rule that [of "replicate 300 (CHR ''x'')"]) (simp_all add: path_eval dropWhile_replicate)
  then have "long \<noteq> ''etc''" "long \<noteq> ''etc/motd''" by auto
  with long have "\<exists>f \<in> set (snd (rd_rename ''/etc'' long example_disk)). f_name f = long"
    by (simp add: rd_rename_def example_paths example_disk_eq named_def Let_def)
  then obtain f where "f \<in> set (snd (rd_rename ''/etc'' long example_disk))" "f_name f = long" by blast
  with long rd_move [OF example_disk_reach, of "''/etc''" long] show ?thesis
    by (intro exI [of _ "snd (rd_rename ''/etc'' long example_disk)"] exI [of _ f]) simp
qed

end
