(* ===== verification/Tmpfs.thy ===== *)
theory Tmpfs
  imports FsTypes
begin

text \<open>
  The temporary file system under \<^verbatim>\<open>/tmp\<close> (\<^verbatim>\<open>src/fs/tmpfs.rs\<close>): a vector of named entries. A write looks for
  a regular file only, so it can add a file under the name of a directory; what is unique is
  therefore the name among the regular files.
\<close>

section \<open>Operations\<close>

abbreviation (input) MAX_TMP_FILES :: nat where "MAX_TMP_FILES \<equiv> 128"
abbreviation (input) MAX_TMP_FILE_SIZE :: nat where "MAX_TMP_FILE_SIZE \<equiv> 524288"

record tmp_file =
  t_name :: string
  t_content :: "u8 list"
  t_is_directory :: bool

type_synonym tmpfs = "tmp_file list"

definition tmp_normalize :: "string \<Rightarrow> string" where
  "tmp_normalize path =
     (let path = dropWhile (\<lambda>c. c = CHR ''/'') (strip_all ''/tmp'' path) in if path = [] then ''.'' else path)"

definition is_tmp_path :: "string \<Rightarrow> bool" where
  "is_tmp_path path \<longleftrightarrow> path = ''/tmp'' \<or> starts_with ''/tmp/'' path"

definition tmp_exists :: "tmpfs \<Rightarrow> string \<Rightarrow> bool" where
  "tmp_exists fs path =
     (let name = tmp_normalize path in name = ''.'' \<or> list_ex (\<lambda>f. t_name f = name) fs)"

definition tmp_is_directory :: "tmpfs \<Rightarrow> string \<Rightarrow> bool" where
  "tmp_is_directory fs path =
     (let name = tmp_normalize path in name = ''.'' \<or> list_ex (\<lambda>f. t_name f = name \<and> t_is_directory f) fs)"

definition tmp_read :: "tmpfs \<Rightarrow> string \<Rightarrow> u8 list vfs_result" where
  "tmp_read fs path =
     (let name = tmp_normalize path in
      if name = ''.'' then Inr (as_bytes (concat (map (\<lambda>f. t_name f @ [CHR 0x0A]) fs)))
      else case find (\<lambda>f. t_name f = name \<and> \<not> t_is_directory f) fs of
          Some f \<Rightarrow> Inr (t_content f) | None \<Rightarrow> Inl FileNotFound)"

definition tmp_write :: "string \<Rightarrow> u8 list \<Rightarrow> tmpfs \<Rightarrow> unit vfs_result \<times> tmpfs" where
  "tmp_write path data fs =
     (let name = tmp_normalize path in
      if name = ''.'' then (Inl NotAFile, fs)
      else if MAX_TMP_FILE_SIZE < length data then (Inl IoError, fs)
      else case find (\<lambda>f. t_name f = name \<and> \<not> t_is_directory f) fs of
          Some _ \<Rightarrow> (Inr (), update_first (\<lambda>f. t_name f = name \<and> \<not> t_is_directory f) (\<lambda>f. f\<lparr>t_content := data\<rparr>) fs)
        | None \<Rightarrow>
            if MAX_TMP_FILES \<le> length fs then (Inl IoError, fs)
            else (Inr (), fs @ [\<lparr>t_name = name, t_content = data, t_is_directory = False\<rparr>]))"

definition tmp_delete :: "string \<Rightarrow> tmpfs \<Rightarrow> unit vfs_result \<times> tmpfs" where
  "tmp_delete path fs =
     (let name = tmp_normalize path in
      if name = ''.'' then (Inl NotAFile, fs)
      else let fs' = filter (\<lambda>f. t_name f \<noteq> name) fs
           in if length fs' < length fs then (Inr (), fs') else (Inl FileNotFound, fs'))"

definition tmp_mkdir :: "string \<Rightarrow> tmpfs \<Rightarrow> unit vfs_result \<times> tmpfs" where
  "tmp_mkdir path fs =
     (let name = tmp_normalize path in
      if name = ''.'' then (Inl AlreadyExists, fs)
      else if list_ex (\<lambda>f. t_name f = name) fs then (Inl AlreadyExists, fs)
      else if MAX_TMP_FILES \<le> length fs then (Inl IoError, fs)
      else (Inr (), fs @ [\<lparr>t_name = name, t_content = [], t_is_directory = True\<rparr>]))"

definition tmp_list_dir :: "tmpfs \<Rightarrow> string \<Rightarrow> file_info list vfs_result" where
  "tmp_list_dir fs path =
     (let dir_name = tmp_normalize path; prefix = (if dir_name = ''.'' then [] else dir_name @ ''/'')
      in Inr (List.map_filter (\<lambda>f. map_option (\<lambda>c. if t_is_directory f then info_directory c else info_new c (length (t_content f)))
           (child_name prefix (t_name f))) fs))"

section \<open>The invariant\<close>

definition is_tmp_file :: "string \<Rightarrow> tmp_file \<Rightarrow> bool" where
  "is_tmp_file n f \<longleftrightarrow> t_name f = n \<and> \<not> t_is_directory f"

definition tmp_invar :: "tmpfs \<Rightarrow> bool" where
  "tmp_invar fs \<longleftrightarrow> distinct (map t_name (filter (\<lambda>f. \<not> t_is_directory f) fs)) \<and> length fs \<le> MAX_TMP_FILES
     \<and> (\<forall>f \<in> set fs. length (t_content f) \<le> MAX_TMP_FILE_SIZE \<and> t_name f \<noteq> ''.'')"

lemma tmp_write_spec:
  assumes inv: "tmp_invar fs" and w: "tmp_write path data fs = (r, fs')"
  shows "tmp_invar fs' \<and> (r = Inr () \<longrightarrow> (\<forall>m. find (is_tmp_file m) fs' =
      (if m = tmp_normalize path then Some \<lparr>t_name = m, t_content = data, t_is_directory = False\<rparr> else find (is_tmp_file m) fs)))
    \<and> (isl r \<longrightarrow> fs' = fs)"
proof -
  let ?n = "tmp_normalize path"
  have P: "(\<lambda>f. t_name f = ?n \<and> \<not> t_is_directory f) = is_tmp_file ?n" by (auto simp: is_tmp_file_def)
  show ?thesis
  proof (cases "isl r")
    case True
    then have "fs' = fs" using w by (auto simp: tmp_write_def Let_def split: if_splits option.splits)
    with inv True show ?thesis by auto
  next
    case ok: False
    then have n: "?n \<noteq> ''.''" and len: "length data \<le> MAX_TMP_FILE_SIZE"
      using w by (auto simp: tmp_write_def Let_def split: if_splits)
    show ?thesis
    proof (cases "find (is_tmp_file ?n) fs")
      case None
      then have fs': "fs' = fs @ [\<lparr>t_name = ?n, t_content = data, t_is_directory = False\<rparr>]" and room: "length fs < MAX_TMP_FILES"
        using w n len ok by (auto simp: tmp_write_def Let_def P split: if_splits)
      have "tmp_invar fs'" using inv None room n len by (auto simp: tmp_invar_def fs' find_None_iff is_tmp_file_def)
      moreover have "find (is_tmp_file m) fs' = (if m = ?n then Some \<lparr>t_name = m, t_content = data, t_is_directory = False\<rparr> else find (is_tmp_file m) fs)" for m
        using None by (auto simp: fs' find_append is_tmp_file_def split: option.split)
      ultimately show ?thesis using ok by simp
    next
      case (Some f)
      then have fs': "fs' = update_first (is_tmp_file ?n) (\<lambda>f. f\<lparr>t_content := data\<rparr>) fs"
        using w n len ok by (auto simp: tmp_write_def Let_def P split: if_splits)
      have f: "f\<lparr>t_content := data\<rparr> = \<lparr>t_name = ?n, t_content = data, t_is_directory = False\<rparr>"
        using find_SomeD [OF Some] by (cases f) (simp add: is_tmp_file_def)
      have "map t_name (filter (\<lambda>f. \<not> t_is_directory f) fs') = map t_name (filter (\<lambda>f. \<not> t_is_directory f) fs)"
        unfolding fs' by (induction fs) (auto simp: is_tmp_file_def)
      then have "tmp_invar fs'" using inv len by (auto simp: tmp_invar_def fs' dest!: in_set_update_first)
      moreover have "find (is_tmp_file ?n) fs' = Some \<lparr>t_name = ?n, t_content = data, t_is_directory = False\<rparr>"
        unfolding fs' f [symmetric] using Some by (subst find_update_first_same) (auto simp: is_tmp_file_def)
      moreover have "find (is_tmp_file m) fs' = find (is_tmp_file m) fs" if "m \<noteq> ?n" for m
        unfolding fs' by (rule find_update_first_other) (use that in \<open>auto simp: is_tmp_file_def\<close>)
      ultimately show ?thesis using ok by simp
    qed
  qed
qed

lemma tmp_delete_spec:
  assumes inv: "tmp_invar fs" and d: "tmp_delete path fs = (r, fs')"
  shows "tmp_invar fs' \<and> (r = Inr () \<longrightarrow> (\<forall>m. find (is_tmp_file m) fs' = (if m = tmp_normalize path then None else find (is_tmp_file m) fs)))
    \<and> (isl r \<longrightarrow> fs' = fs)"
proof -
  let ?n = "tmp_normalize path" and ?fs = "filter (\<lambda>f. t_name f \<noteq> tmp_normalize path) fs"
  have "fs' = fs \<or> fs' = ?fs" using d by (auto simp: tmp_delete_def Let_def split: if_splits)
  moreover have "tmp_invar ?fs"
  proof -
    have "length ?fs \<le> MAX_TMP_FILES" using inv le_trans [OF length_filter_le] by (auto simp: tmp_invar_def)
    moreover have "filter (\<lambda>f. \<not> t_is_directory f) ?fs = filter (\<lambda>f. t_name f \<noteq> ?n) (filter (\<lambda>f. \<not> t_is_directory f) fs)"
      by (simp add: conj_commute)
    ultimately show ?thesis using inv unfolding tmp_invar_def by (auto intro: distinct_map_filter simp del: filter_filter)
  qed
  ultimately have "tmp_invar fs'" using inv by auto
  moreover have "r = Inr () \<Longrightarrow> fs' = ?fs" using d by (auto simp: tmp_delete_def Let_def split: if_splits)
  moreover have "find (is_tmp_file m) ?fs = (if m = ?n then None else find (is_tmp_file m) fs)" for m
    by (induction fs) (auto simp: is_tmp_file_def [abs_def])
  moreover have "fs' = fs" if "isl r"
  proof -
    have "\<not> length ?fs < length fs \<Longrightarrow> ?fs = fs" by (metis filter_True length_filter_less)
    with that d show ?thesis by (auto simp: tmp_delete_def Let_def split: if_splits)
  qed
  ultimately show ?thesis by auto
qed

lemma tmp_read_find:
  "tmp_normalize q \<noteq> ''.'' \<Longrightarrow> tmp_read fs q = (case find (is_tmp_file (tmp_normalize q)) fs of Some f \<Rightarrow> Inr (t_content f) | None \<Rightarrow> Inl FileNotFound)"
  by (simp add: tmp_read_def Let_def is_tmp_file_def [abs_def])

interpretation tmp_store: file_store tmp_normalize "\<lambda>q. tmp_normalize q \<noteq> ''.''" tmp_invar tmp_read tmp_write tmp_delete
proof
  fix s p d q s'
  assume inv: "tmp_invar s"
  show "tmp_invar (snd (tmp_write p d s))" using tmp_write_spec [OF inv] by (metis prod.collapse)
  show "tmp_invar (snd (tmp_delete p s))" using tmp_delete_spec [OF inv] by (metis prod.collapse)
  show "tmp_read s' q = (if tmp_normalize q = tmp_normalize p then Inr d else tmp_read s q)"
    if "tmp_normalize q \<noteq> ''.''" "tmp_write p d s = (Inr (), s')"
    using tmp_write_spec [OF inv that(2)] that(1) by (simp add: tmp_read_find)
  show "tmp_read s' q = (if tmp_normalize q = tmp_normalize p then Inl FileNotFound else tmp_read s q)"
    if "tmp_normalize q \<noteq> ''.''" "tmp_delete p s = (Inr (), s')"
    using tmp_delete_spec [OF inv that(2)] that(1) by (simp add: tmp_read_find)
next
  fix s p d s' e
  show "tmp_write p d s = (Inl e, s') \<Longrightarrow> s' = s"
    by (auto simp: tmp_write_def Let_def split: if_splits option.splits)
  show "tmp_delete p s = (Inl e, s') \<Longrightarrow> s' = s"
    by (auto simp: tmp_delete_def Let_def split: if_splits) (metis filter_True length_filter_less)
qed

lemma tmp_mkdir_invar: "tmp_invar fs \<Longrightarrow> tmp_invar (snd (tmp_mkdir p fs))"
  by (auto simp: tmp_mkdir_def tmp_invar_def Let_def)

inductive tmp_reach :: "tmpfs \<Rightarrow> bool" where
  tmp_empty: "tmp_reach []"
| tmp_written: "tmp_reach fs \<Longrightarrow> tmp_reach (snd (tmp_write p d fs))"
| tmp_deleted: "tmp_reach fs \<Longrightarrow> tmp_reach (snd (tmp_delete p fs))"
| tmp_made: "tmp_reach fs \<Longrightarrow> tmp_reach (snd (tmp_mkdir p fs))"

lemma tmp_reach_invar: "tmp_reach fs \<Longrightarrow> tmp_invar fs"
  by (induction rule: tmp_reach.induct)
    (simp_all add: tmp_store.wr_inv tmp_store.del_inv tmp_mkdir_invar, simp add: tmp_invar_def)

section \<open>Properties\<close>

text \<open>
  C39: after any sequence of writes and deletes under /tmp, reading a file gives what the last
  successful operation on the same normalised name left there; the root of /tmp is not a file.
\<close>

theorem tmpfs_last_write:
  assumes "tmp_reach fs" and "tmp_normalize q \<noteq> ''.''" and "store_run tmp_write tmp_delete as fs = (log, fs')"
  shows "tmp_read fs' q = last_effect tmp_normalize (tmp_normalize q) log (tmp_read fs q)"
  using tmp_store.run_read [OF tmp_reach_invar [OF assms(1)] assms(2,3)] by blast


lemmas strip_eval = strip_all.simps starts_with_def

lemma tmp_paths:
  "tmp_normalize ''/tmp/a'' = ''a''" "tmp_normalize ''/tmp//a'' = ''a''" "tmp_normalize ''/tmp'' = ''.''"
  "tmp_normalize ''/tmp/file'' = ''file''" "tmp_normalize ''/tmp/tmpfile'' = ''file''"
  by (simp_all add: tmp_normalize_def strip_eval Let_def)

theorem tmpfs_last_write_witness:
  "let ops = [StWrite ''/tmp/a'' [1], StWrite ''/tmp'' [9], StWrite ''/tmp//a'' [2]]
   in tmp_read (snd (store_run tmp_write tmp_delete ops [])) ''/tmp/a'' = Inr [2]"
proof -
  let ?ops = "[StWrite ''/tmp/a'' [1], StWrite ''/tmp'' [9], StWrite ''/tmp//a'' [2]]"
  obtain log fs' where run: "store_run tmp_write tmp_delete ?ops [] = (log, fs')" by fastforce
  then have "log = zip ?ops [True, False, True]" by (auto simp: store_step_def tmp_write_def tmp_paths Let_def)
  then have "tmp_read fs' ''/tmp/a'' = Inr [2]"
    using tmpfs_last_write [OF tmp_empty _ run, of "''/tmp/a''"] by (simp add: tmp_paths)
  then show ?thesis by (simp only: Let_def run snd_conv)
qed

text \<open>
  \<open>trim_start_matches\<close> removes the prefix \<^verbatim>\<open>/tmp\<close> as often as it occurs, so a file whose name starts with
  \<^verbatim>\<open>tmp\<close> shares the entry of another file.
\<close>

lemma tmp_names_alias:
  "tmp_read (snd (tmp_write ''/tmp/tmpfile'' [2] (snd (tmp_write ''/tmp/file'' [1] [])))) ''/tmp/file'' = Inr [2]"
  by (simp add: tmp_write_def tmp_read_def tmp_paths Let_def)


end
