(* ===== verification/Devfs.thy ===== *)
theory Devfs
  imports FsTypes
begin

text \<open>
  The device file system (\<^verbatim>\<open>src/fs/devfs.rs\<close>): the registry of device nodes and the reads and writes of
  the special files. What a read takes from other subsystems (the tick count, the pending
  terminal input, the kernel log, the frame counters) is the argument \<open>dev_env\<close>; output to the console and the
  kernel log is not recorded.
\<close>

datatype dev_kind = CharDev | BlockDev

record dev_node =
  d_name :: string
  d_kind :: dev_kind
  d_major :: u32
  d_minor :: u32

record dev_env =
  de_ticks :: u64
  de_tty_input :: "u8 list"
  de_klog :: "string list"
  de_memory :: "nat \<times> nat \<times> nat"

section \<open>The registry\<close>

definition dev_register :: "string \<Rightarrow> dev_kind \<Rightarrow> u32 \<Rightarrow> u32 \<Rightarrow> dev_node list \<Rightarrow> dev_node list" where
  "dev_register name kind major minor t =
     (if list_ex (\<lambda>n. d_name n = name) t then t
      else t @ [\<lparr>d_name = name, d_kind = kind, d_major = major, d_minor = minor\<rparr>])"

definition dev_lookup :: "dev_node list \<Rightarrow> string \<Rightarrow> dev_node option" where
  "dev_lookup t name = find (\<lambda>n. d_name n = name) t"

definition install_default_nodes :: "dev_node list \<Rightarrow> dev_node list" where
  "install_default_nodes =
     dev_register ''ptmx'' CharDev 5 2 \<circ> dev_register ''tty0'' CharDev 4 0 \<circ> dev_register ''tty'' CharDev 5 0
     \<circ> dev_register ''console'' CharDev 5 1 \<circ> dev_register ''mem'' CharDev 1 1 \<circ> dev_register ''kmsg'' CharDev 1 11
     \<circ> dev_register ''urandom'' CharDev 1 9 \<circ> dev_register ''random'' CharDev 1 8
     \<circ> dev_register ''zero'' CharDev 1 5 \<circ> dev_register ''null'' CharDev 1 3"

definition dev_name :: "string \<Rightarrow> string" where
  "dev_name path = dropWhile (\<lambda>c. c = CHR ''/'') (strip_all ''/dev'' path)"

section \<open>Reading and writing\<close>

text \<open>The generator behind \<^verbatim>\<open>/dev/random\<close>: one step, and so many bytes from a state.\<close>

definition lcg :: "u64 \<Rightarrow> u64" where
  "lcg state = state * 6364136223846793005 + 1442695040888963407"

fun random_bytes :: "nat \<Rightarrow> u64 \<Rightarrow> u8 list" where
  "random_bytes 0 state = []"
| "random_bytes (Suc n) state = (let state = lcg state in ucast (drop_bit 33 state) # random_bytes n state)"

definition read_dev :: "dev_env \<Rightarrow> dev_node list \<Rightarrow> string \<Rightarrow> u8 list option" where
  "read_dev env t path =
     (let name = dev_name path in
      if name = [] \<or> name = ''.'' then Some (as_bytes (lines_of (map d_name t)))
      else if name = ''null'' then Some []
      else if name = ''zero'' then Some (replicate 4096 0)
      else if name = ''random'' \<or> name = ''urandom'' then Some (random_bytes 256 (lcg (de_ticks env)))
      else if name = ''console'' \<or> name = ''tty'' \<or> name = ''tty0'' then Some (take 4096 (de_tty_input env))
      else if name = ''kmsg'' then Some (as_bytes (lines_of (de_klog env)))
      else if name = ''mem'' then
        (case de_memory env of (tot, allocated, free) \<Rightarrow>
           Some (as_bytes (lines_of
             [''Physical frames: total='' @ dec_digits tot @ '', allocated='' @ dec_digits allocated @ '', free='' @ dec_digits free,
              ''Physical memory: '' @ dec_digits (tot * 4096 div (1024 * 1024)) @ '' MiB total, ''
                @ dec_digits (free * 4096 div (1024 * 1024)) @ '' MiB free''])))
      else None)"

definition write_dev :: "string \<Rightarrow> u8 list \<Rightarrow> (string + unit) option" where
  "write_dev path data =
     (let name = dev_name path in
      if name \<in> {''null'', ''console'', ''tty'', ''kmsg'', ''zero'', ''random'', ''urandom''} then Some (Inr ()) else None)"

definition is_dev_path :: "string \<Rightarrow> bool" where
  "is_dev_path path \<longleftrightarrow> path = ''/dev'' \<or> starts_with ''/dev/'' path"

definition dev_exists :: "dev_node list \<Rightarrow> string \<Rightarrow> bool" where
  "dev_exists t path =
     (let name = dev_name path in name = [] \<or> name = ''.'' \<or> list_ex (\<lambda>n. d_name n = name) t)"

definition dev_is_directory :: "string \<Rightarrow> bool" where
  "dev_is_directory path \<longleftrightarrow> dev_name path = [] \<or> dev_name path = ''.''"

definition list_dev :: "dev_node list \<Rightarrow> file_info list" where
  "list_dev t = map (\<lambda>n. (info_new (d_name n) 0)\<lparr>fi_file_type := (case d_kind n of CharDev \<Rightarrow> VCharDevice | BlockDev \<Rightarrow> VBlockDevice),
     fi_mode := 432\<rparr>) t"

section \<open>Properties of the registry\<close>

lemma dev_register_distinct: "distinct (map d_name t) \<Longrightarrow> distinct (map d_name (dev_register n k a b t))"
  by (auto simp: dev_register_def list_ex_iff)

lemma dev_register_lookup:
  "dev_lookup (dev_register n k a b t) m =
     (case dev_lookup t m of Some x \<Rightarrow> Some x
      | None \<Rightarrow> if m = n then Some \<lparr>d_name = n, d_kind = k, d_major = a, d_minor = b\<rparr> else None)"
proof -
  have "list_ex (\<lambda>x. d_name x = n) t \<longleftrightarrow> find (\<lambda>x. d_name x = n) t \<noteq> None" by (induction t) auto
  then show ?thesis
    by (cases "find (\<lambda>x. d_name x = m) t") (auto simp: dev_register_def dev_lookup_def find_append)
qed

lemma dev_register_idem: "dev_register n k a b (dev_register n k' a' b' t) = dev_register n k' a' b' t"
  by (auto simp: dev_register_def)

end
