(* ===== verification/Sysfs.thy ===== *)
theory Sysfs
  imports FsTypes
begin

text \<open>
  The system file system (\<^verbatim>\<open>src/fs/sysfs.rs\<close>): a fixed tree of generated files. The tick count is an
  argument.
\<close>

section \<open>Operations\<close>

definition sys_name :: "string \<Rightarrow> string" where
  "sys_name path = dropWhile (\<lambda>c. c = CHR ''/'') (strip_all ''/sys'' path)"

definition sys_text :: "u64 \<Rightarrow> string \<Rightarrow> string list option" where
  "sys_text ticks name =
     (if name = [] \<or> name = ''.'' then Some [''kernel'', ''devices'']
      else if name = ''kernel'' then Some [''hostname'', ''ostype'', ''osrelease'', ''version'']
      else if name = ''kernel/hostname'' then Some [''rustos'']
      else if name = ''kernel/ostype'' then Some [''RustOS'']
      else if name = ''kernel/osrelease'' then Some [''0.1.0'']
      else if name = ''kernel/version'' then Some [''RustOS 0.1.0 (uptime '' @ dec_digits (unat (ticks div 18)) @ ''s)'']
      else if name = ''devices'' then Some [''platform'', ''virtual'']
      else if name = ''devices/platform'' then Some [''serial0'', ''keyboard0'', ''timer0'', ''rtc0'']
      else if name = ''devices/platform/serial0'' then Some [''type: 16550A'', ''port: 0x3F8'', ''irq: 4'', ''baud: 115200'']
      else if name = ''devices/platform/keyboard0'' then Some [''type: PS/2'', ''port: 0x60'', ''irq: 1'', ''layout: US104'']
      else if name = ''devices/platform/timer0'' then
        Some [''type: PIT 8254'', ''frequency: 18 Hz'', ''ticks: '' @ dec_digits (unat ticks)]
      else if name = ''devices/platform/rtc0'' then Some [''type: MC146818'', ''port: 0x70-0x71'', ''irq: 8'']
      else if name = ''devices/virtual'' then Some [''vga0'']
      else if name = ''devices/virtual/vga0'' then Some [''type: VGA text mode'', ''resolution: 80x25'', ''base: 0xB8000'']
      else None)"

definition read_sys :: "u64 \<Rightarrow> string \<Rightarrow> u8 list option" where
  "read_sys ticks path = map_option (\<lambda>ls. as_bytes (lines_of ls)) (sys_text ticks (sys_name path))"

definition is_sys_path :: "string \<Rightarrow> bool" where
  "is_sys_path path \<longleftrightarrow> path = ''/sys'' \<or> starts_with ''/sys/'' path"

definition sys_exists :: "u64 \<Rightarrow> string \<Rightarrow> bool" where
  "sys_exists ticks path \<longleftrightarrow> read_sys ticks path \<noteq> None"

definition sys_is_directory :: "string \<Rightarrow> bool" where
  "sys_is_directory path \<longleftrightarrow>
     sys_name path \<in> {'''', ''.'', ''kernel'', ''devices'', ''devices/platform'', ''devices/virtual''}"

definition sys_entries :: "string \<Rightarrow> file_info list" where
  "sys_entries name =
     (if name = [] \<or> name = ''.'' then [info_directory ''kernel'', info_directory ''devices'']
      else if name = ''kernel'' then
        [info_new ''hostname'' 0, info_new ''ostype'' 0, info_new ''osrelease'' 0, info_new ''version'' 0]
      else if name = ''devices'' then [info_directory ''platform'', info_directory ''virtual'']
      else if name = ''devices/platform'' then
        [info_new ''serial0'' 0, info_new ''keyboard0'' 0, info_new ''timer0'' 0, info_new ''rtc0'' 0]
      else if name = ''devices/virtual'' then [info_new ''vga0'' 0]
      else [])"

definition list_sys :: "string \<Rightarrow> file_info list" where
  "list_sys path = sys_entries (sys_name path)"

section \<open>The tree is consistent\<close>

lemma sys_name_paths:
  "sys_name ''/sys'' = ''''" "sys_name ''/sys/'' = ''''" "sys_name ''/sys/kernel'' = ''kernel''" "sys_name ''/sys/devices'' = ''devices''"
  "sys_name ''/sys/devices/platform'' = ''devices/platform''" "sys_name ''/sys/devices/virtual'' = ''devices/virtual''"
  by (simp_all add: sys_name_def strip_all.simps starts_with_def)

text \<open>
  Reading a directory of /sys gives exactly the names its listing shows, one on a line, and
  every name the listing shows exists below the directory, as a directory exactly when the
  listing says so.
\<close>

theorem sysfs_consistent:
  assumes "d \<in> {'''', ''kernel/'', ''devices/'', ''devices/platform/'', ''devices/virtual/''}"
  shows "read_sys ticks (''/sys/'' @ butlast d) = Some (as_bytes (lines_of (map fi_name (list_sys (''/sys/'' @ butlast d)))))
    \<and> sys_is_directory (''/sys/'' @ butlast d)
    \<and> (\<forall>e \<in> set (list_sys (''/sys/'' @ butlast d)). sys_exists ticks (''/sys/'' @ d @ fi_name e)
         \<and> sys_is_directory (''/sys/'' @ d @ fi_name e) = fi_is_directory e)"
proof -
  note eval = read_sys_def list_sys_def sys_is_directory_def sys_exists_def sys_name_def strip_all.simps starts_with_def
    sys_text_def sys_entries_def info_new_def info_directory_def
  from assms consider "d = ''''" | "d = ''kernel/''" | "d = ''devices/''" | "d = ''devices/platform/''" | "d = ''devices/virtual/''" by blast
  then show ?thesis by cases (simp_all add: eval)
qed

theorem sysfs_consistent_witness:
  "sys_exists 0 ''/sys/kernel/hostname'' \<and> \<not> sys_is_directory ''/sys/kernel/hostname''"
proof -
  have "info_new ''hostname'' 0 \<in> set (list_sys ''/sys/kernel'')"
    by (simp add: list_sys_def sys_name_paths sys_entries_def)
  with sysfs_consistent [of "''kernel/''" 0] show ?thesis by (auto simp: info_new_def)
qed

end
