(* ===== verification/Vfs.thy ===== *)
theory Vfs
  imports Ramdisk Tmpfs Devfs Sysfs
begin

text \<open>
  The virtual file system (\<^verbatim>\<open>src/fs/vfs.rs\<close>): the trait every file system implements, the context that
  chooses the file system of a path, symbolic links, and the mount table. The disk file system
  behind \<open>FAT32\<close> is any implementation of the trait: its state has a type variable and its methods are the record
  \<open>filesystem\<close>. The contents of /proc are an argument. The state of the file systems is one record.
\<close>

section \<open>The trait\<close>

record 'f filesystem =
  fs_read :: "'f \<Rightarrow> string \<Rightarrow> u8 list vfs_result"
  fs_write :: "string \<Rightarrow> u8 list \<Rightarrow> 'f \<Rightarrow> unit vfs_result \<times> 'f"
  fs_delete :: "string \<Rightarrow> 'f \<Rightarrow> unit vfs_result \<times> 'f"
  fs_list :: "'f \<Rightarrow> file_info list"
  fs_exists :: "'f \<Rightarrow> string \<Rightarrow> bool"
  fs_used_space :: "'f \<Rightarrow> nat"
  fs_total_space :: "'f \<Rightarrow> nat"
  fs_mkdir :: "string \<Rightarrow> 'f \<Rightarrow> unit vfs_result \<times> 'f"
  fs_rmdir :: "string \<Rightarrow> 'f \<Rightarrow> unit vfs_result \<times> 'f"
  fs_list_dir :: "'f \<Rightarrow> string \<Rightarrow> file_info list vfs_result"
  fs_is_directory :: "'f \<Rightarrow> string \<Rightarrow> bool"
  fs_rename :: "string \<Rightarrow> string \<Rightarrow> 'f \<Rightarrow> unit vfs_result \<times> 'f"
  fs_ino :: "'f \<Rightarrow> string \<Rightarrow> u64"
  fs_nlink :: "'f \<Rightarrow> string \<Rightarrow> u32"

text \<open>The RAM disk as an implementation; the time stamp of a write is fixed for the call.\<close>

definition ramdisk_fs :: "u64 \<Rightarrow> ramdisk filesystem" where
  "ramdisk_fs now =
     \<lparr>fs_read = read_file, fs_write = write_file now, fs_delete = delete_file, fs_list = list_files, fs_exists = file_exists,
      fs_used_space = space_used, fs_total_space = space_total, fs_mkdir = create_directory now, fs_rmdir = remove_directory,
      fs_list_dir = list_directory, fs_is_directory = rd_is_directory, fs_rename = rd_rename, fs_ino = rd_ino, fs_nlink = rd_nlink\<rparr>"

definition free_space :: "'f filesystem \<Rightarrow> 'f \<Rightarrow> nat" where
  "free_space ops s = fs_total_space ops s - fs_used_space ops s"

section \<open>State\<close>

record mount =
  mt_source :: string
  mt_point :: string
  mt_fs_type :: string
  mt_options :: string

record 'f vfs =
  v_ramdisk :: ramdisk
  v_tmp :: tmpfs
  v_fat32 :: "'f option"
  v_devices :: "dev_node list"
  v_mounts :: "mount list"

text \<open>What a call of the context reads from outside: the methods of the disk file system, /proc, the clock and the device data.\<close>

record 'f vfs_env =
  e_fat32 :: "'f filesystem"
  e_read_proc :: "string \<Rightarrow> u8 list option"
  e_proc_is_directory :: "string \<Rightarrow> bool"
  e_list_proc :: "file_info list"
  e_dev :: dev_env

abbreviation e_ticks :: "'f vfs_env \<Rightarrow> u64" where
  "e_ticks env \<equiv> de_ticks (e_dev env)"

abbreviation e_now :: "'f vfs_env \<Rightarrow> u64" where
  "e_now env \<equiv> current_timestamp (e_ticks env)"

definition is_proc_path :: "string \<Rightarrow> bool" where
  "is_proc_path path \<longleftrightarrow> path = ''/proc'' \<or> starts_with ''/proc/'' path"

definition or_not_found :: "'a option \<Rightarrow> 'a vfs_result" where
  "or_not_found r = (case r of Some x \<Rightarrow> Inr x | None \<Rightarrow> Inl FileNotFound)"

text \<open>A method that changes the RAM disk, the disk file system or the temporary files, run on the component.\<close>

definition on_ramdisk :: "(ramdisk \<Rightarrow> 'r \<times> ramdisk) \<Rightarrow> 'f vfs \<Rightarrow> 'r \<times> 'f vfs" where
  "on_ramdisk f v = (case f (v_ramdisk v) of (r, d) \<Rightarrow> (r, v\<lparr>v_ramdisk := d\<rparr>))"

definition on_tmp :: "(tmpfs \<Rightarrow> 'r \<times> tmpfs) \<Rightarrow> 'f vfs \<Rightarrow> 'r \<times> 'f vfs" where
  "on_tmp f v = (case f (v_tmp v) of (r, t) \<Rightarrow> (r, v\<lparr>v_tmp := t\<rparr>))"

definition on_fat32 :: "('f \<Rightarrow> 'r \<times> 'f) \<Rightarrow> 'f \<Rightarrow> 'f vfs \<Rightarrow> 'r \<times> 'f vfs" where
  "on_fat32 f s v = (case f s of (r, s') \<Rightarrow> (r, v\<lparr>v_fat32 := Some s'\<rparr>))"

section \<open>Symbolic links\<close>

definition vfs_readlink :: "'f vfs \<Rightarrow> string \<Rightarrow> string vfs_result" where
  "vfs_readlink v path = (if v_fat32 v \<noteq> None then Inl PermissionDenied else rd_readlink (v_ramdisk v) path)"

definition follow_link :: "string \<Rightarrow> string \<Rightarrow> string" where
  "follow_link resolved target =
     (if starts_with ''/'' target then target
      else let parent = (case rfind (CHR ''/'') resolved of Some idx \<Rightarrow> if 0 < idx then take idx resolved else ''/'' | None \<Rightarrow> ''/'')
           in if parent = ''/'' then ''/'' @ target else parent @ ''/'' @ target)"

fun resolve_loop :: "nat \<Rightarrow> 'f vfs \<Rightarrow> string \<Rightarrow> string vfs_result" where
  "resolve_loop 0 v resolved = Inl IoError"
| "resolve_loop (Suc n) v resolved =
     (case vfs_readlink v resolved of
        Inr target \<Rightarrow> resolve_loop n v (follow_link resolved target)
      | Inl _ \<Rightarrow> Inr resolved)"

definition resolve_path :: "'f vfs \<Rightarrow> string \<Rightarrow> string vfs_result" where
  "resolve_path v path = resolve_loop 8 v path"

section \<open>The context\<close>

definition vfs_read :: "'f vfs_env \<Rightarrow> 'f vfs \<Rightarrow> string \<Rightarrow> u8 list vfs_result" where
  "vfs_read env v path0 =
     (case resolve_path v path0 of
        Inl e \<Rightarrow> Inl e
      | Inr path \<Rightarrow>
          if is_proc_path path then or_not_found (e_read_proc env path)
          else if is_dev_path path then or_not_found (read_dev (e_dev env) (v_devices v) path)
          else if is_sys_path path then or_not_found (read_sys (e_ticks env) path)
          else if is_tmp_path path then tmp_read (v_tmp v) path
          else case v_fat32 v of
              None \<Rightarrow> read_file (v_ramdisk v) path
            | Some f \<Rightarrow> (case fs_read (e_fat32 env) f path of
                  Inl FileNotFound \<Rightarrow> read_file (v_ramdisk v) path
                | r \<Rightarrow> r))"

definition vfs_write :: "'f vfs_env \<Rightarrow> string \<Rightarrow> u8 list \<Rightarrow> 'f vfs \<Rightarrow> unit vfs_result \<times> 'f vfs" where
  "vfs_write env path data v =
     (if is_dev_path path then
        ((case write_dev path data of Some (Inr ()) \<Rightarrow> Inr () | Some (Inl _) \<Rightarrow> Inl IoError | None \<Rightarrow> Inl FileNotFound), v)
      else if is_tmp_path path then on_tmp (tmp_write path data) v
      else if is_sys_path path \<or> is_proc_path path then (Inl PermissionDenied, v)
      else case v_fat32 v of
          Some f \<Rightarrow> on_fat32 (fs_write (e_fat32 env) path data) f v
        | None \<Rightarrow> on_ramdisk (write_file (e_now env) path data) v)"

definition vfs_delete :: "'f vfs_env \<Rightarrow> string \<Rightarrow> 'f vfs \<Rightarrow> unit vfs_result \<times> 'f vfs" where
  "vfs_delete env path v =
     (if is_tmp_path path then on_tmp (tmp_delete path) v
      else case v_fat32 v of
          None \<Rightarrow> on_ramdisk (delete_file path) v
        | Some f \<Rightarrow> (case on_fat32 (fs_delete (e_fat32 env) path) f v of
              (Inl FileNotFound, v1) \<Rightarrow> on_ramdisk (delete_file path) v1
            | r \<Rightarrow> r))"

definition vfs_list :: "'f vfs_env \<Rightarrow> 'f vfs \<Rightarrow> file_info list" where
  "vfs_list env v = (case v_fat32 v of Some f \<Rightarrow> fs_list (e_fat32 env) f | None \<Rightarrow> list_files (v_ramdisk v))"

definition vfs_exists :: "'f vfs_env \<Rightarrow> 'f vfs \<Rightarrow> string \<Rightarrow> bool" where
  "vfs_exists env v path =
     (if is_proc_path path then e_read_proc env path \<noteq> None
      else if is_dev_path path then dev_exists (v_devices v) path
      else if is_sys_path path then sys_exists (e_ticks env) path
      else if is_tmp_path path then tmp_exists (v_tmp v) path
      else case v_fat32 v of
          Some f \<Rightarrow> fs_exists (e_fat32 env) f path \<or> file_exists (v_ramdisk v) path
        | None \<Rightarrow> file_exists (v_ramdisk v) path)"

definition vfs_used_space :: "'f vfs_env \<Rightarrow> 'f vfs \<Rightarrow> nat" where
  "vfs_used_space env v = (case v_fat32 v of Some f \<Rightarrow> fs_used_space (e_fat32 env) f | None \<Rightarrow> space_used (v_ramdisk v))"

definition vfs_total_space :: "'f vfs_env \<Rightarrow> 'f vfs \<Rightarrow> nat" where
  "vfs_total_space env v = (case v_fat32 v of Some f \<Rightarrow> fs_total_space (e_fat32 env) f | None \<Rightarrow> space_total (v_ramdisk v))"

definition vfs_mkdir :: "'f vfs_env \<Rightarrow> string \<Rightarrow> 'f vfs \<Rightarrow> unit vfs_result \<times> 'f vfs" where
  "vfs_mkdir env path v =
     (if is_tmp_path path then on_tmp (tmp_mkdir path) v
      else case v_fat32 v of
          Some f \<Rightarrow> on_fat32 (fs_mkdir (e_fat32 env) path) f v
        | None \<Rightarrow> on_ramdisk (create_directory (e_now env) path) v)"

definition vfs_rmdir :: "'f vfs_env \<Rightarrow> string \<Rightarrow> 'f vfs \<Rightarrow> unit vfs_result \<times> 'f vfs" where
  "vfs_rmdir env path v =
     (case v_fat32 v of
        Some f \<Rightarrow> on_fat32 (fs_rmdir (e_fat32 env) path) f v
      | None \<Rightarrow> on_ramdisk (remove_directory path) v)"

definition inject_virtual_dirs :: "file_info list \<Rightarrow> file_info list" where
  "inject_virtual_dirs entries =
     entries @ [info_directory ''proc'', info_directory ''dev'', info_directory ''sys'', info_directory ''tmp'']"

definition vfs_list_dir :: "'f vfs_env \<Rightarrow> 'f vfs \<Rightarrow> string \<Rightarrow> file_info list vfs_result" where
  "vfs_list_dir env v path =
     (if is_proc_path path \<and> e_proc_is_directory env path then Inr (e_list_proc env)
      else if is_dev_path path \<and> dev_is_directory path then Inr (list_dev (v_devices v))
      else if is_sys_path path \<and> sys_is_directory path then Inr (list_sys path)
      else if is_tmp_path path then tmp_list_dir (v_tmp v) path
      else map_sum id (\<lambda>es. if path = ''/'' then inject_virtual_dirs es else es)
        (case v_fat32 v of Some f \<Rightarrow> fs_list_dir (e_fat32 env) f path | None \<Rightarrow> list_directory (v_ramdisk v) path))"

definition vfs_is_directory :: "'f vfs_env \<Rightarrow> 'f vfs \<Rightarrow> string \<Rightarrow> bool" where
  "vfs_is_directory env v path =
     (if is_proc_path path then e_proc_is_directory env path
      else if is_dev_path path then dev_is_directory path
      else if is_sys_path path then sys_is_directory path
      else if is_tmp_path path then tmp_is_directory (v_tmp v) path
      else case v_fat32 v of Some f \<Rightarrow> fs_is_directory (e_fat32 env) f path | None \<Rightarrow> rd_is_directory (v_ramdisk v) path)"

definition vfs_rename :: "'f vfs_env \<Rightarrow> string \<Rightarrow> string \<Rightarrow> 'f vfs \<Rightarrow> unit vfs_result \<times> 'f vfs" where
  "vfs_rename env old_path new_path v =
     (case v_fat32 v of
        Some f \<Rightarrow> on_fat32 (fs_rename (e_fat32 env) old_path new_path) f v
      | None \<Rightarrow> on_ramdisk (rd_rename old_path new_path) v)"

definition vfs_symlink :: "'f vfs_env \<Rightarrow> string \<Rightarrow> string \<Rightarrow> 'f vfs \<Rightarrow> unit vfs_result \<times> 'f vfs" where
  "vfs_symlink env link_path target v =
     (if is_tmp_path link_path \<or> is_proc_path link_path \<or> is_dev_path link_path \<or> is_sys_path link_path
      then (Inl PermissionDenied, v)
      else if v_fat32 v \<noteq> None then (Inl PermissionDenied, v)
      else on_ramdisk (rd_symlink (e_now env) link_path target) v)"

definition vfs_chmod :: "'f vfs_env \<Rightarrow> string \<Rightarrow> u16 \<Rightarrow> 'f vfs \<Rightarrow> unit vfs_result \<times> 'f vfs" where
  "vfs_chmod env path mode v =
     (if is_proc_path path \<or> is_sys_path path \<or> is_dev_path path then (Inl PermissionDenied, v)
      else if v_fat32 v \<noteq> None then (Inl PermissionDenied, v)
      else on_ramdisk (rd_chmod (e_now env) path mode) v)"

definition vfs_chown :: "'f vfs_env \<Rightarrow> string \<Rightarrow> u32 \<Rightarrow> u32 \<Rightarrow> 'f vfs \<Rightarrow> unit vfs_result \<times> 'f vfs" where
  "vfs_chown env path uid gid v =
     (if is_proc_path path \<or> is_sys_path path \<or> is_dev_path path then (Inl PermissionDenied, v)
      else if v_fat32 v \<noteq> None then (Inl PermissionDenied, v)
      else on_ramdisk (rd_chown (e_now env) path uid gid) v)"

definition stat_generated :: "string \<Rightarrow> bool \<Rightarrow> u8 list option \<Rightarrow> file_info vfs_result" where
  "stat_generated path is_dir data =
     (if is_dir then Inr (info_directory path)
      else map_sum id (\<lambda>d. (info_new path (length d))\<lparr>fi_mode := 292\<rparr>) (or_not_found data))"

definition vfs_stat :: "'f vfs_env \<Rightarrow> 'f vfs \<Rightarrow> string \<Rightarrow> file_info vfs_result" where
  "vfs_stat env v path =
     (if is_proc_path path then stat_generated path (e_proc_is_directory env path) (e_read_proc env path)
      else if is_dev_path path then
        (if dev_is_directory path then Inr (info_directory path)
         else Inr ((info_new path 0)\<lparr>fi_file_type := VCharDevice, fi_mode := 438\<rparr>))
      else if is_sys_path path then stat_generated path (sys_is_directory path) (read_sys (e_ticks env) path)
      else if is_tmp_path path then
        (if tmp_is_directory (v_tmp v) path then Inr (info_directory path)
         else case tmp_read (v_tmp v) path of Inr d \<Rightarrow> Inr (info_new path (length d)) | Inl _ \<Rightarrow> Inl FileNotFound)
      else case v_fat32 v of
          Some f \<Rightarrow>
            if fs_is_directory (e_fat32 env) f path then Inr (info_directory path)
            else map_sum id (\<lambda>d. info_new path (length d)) (fs_read (e_fat32 env) f path)
        | None \<Rightarrow> rd_stat (v_ramdisk v) path)"

definition path_hash :: "string \<Rightarrow> u64" where
  "path_hash s = fnv1a s"

definition virtual_ino :: "u64 \<Rightarrow> string \<Rightarrow> u64" where
  "virtual_ino base path = base OR (path_hash path AND 0x0000ffffffffffff)"

definition vfs_ino :: "'f vfs_env \<Rightarrow> 'f vfs \<Rightarrow> string \<Rightarrow> u64" where
  "vfs_ino env v path =
     (if is_proc_path path then virtual_ino 0xfff0000000000000 path
      else if is_sys_path path then virtual_ino 0xfff1000000000000 path
      else if is_dev_path path then virtual_ino 0xfff2000000000000 path
      else if is_tmp_path path then virtual_ino 0xfff3000000000000 path
      else case v_fat32 v of
          Some f \<Rightarrow> (let n = fs_ino (e_fat32 env) f path in if n \<noteq> 0 then n else rd_ino (v_ramdisk v) path)
        | None \<Rightarrow> rd_ino (v_ramdisk v) path)"

definition vfs_nlink :: "'f vfs_env \<Rightarrow> 'f vfs \<Rightarrow> string \<Rightarrow> u32" where
  "vfs_nlink env v path =
     (if is_proc_path path \<or> is_sys_path path \<or> is_dev_path path \<or> is_tmp_path path
      then (if vfs_is_directory env v path then 2 else 1)
      else case v_fat32 v of Some f \<Rightarrow> fs_nlink (e_fat32 env) f path | None \<Rightarrow> rd_nlink (v_ramdisk v) path)"

definition filesystem_name :: "'f vfs \<Rightarrow> string" where
  "filesystem_name v = (if v_fat32 v \<noteq> None then ''FAT32'' else ''RAMDISK'')"

section \<open>The mount table\<close>

definition mount_new :: "string \<Rightarrow> string \<Rightarrow> string \<Rightarrow> string \<Rightarrow> mount" where
  "mount_new src point ty opts = \<lparr>mt_source = src, mt_point = point, mt_fs_type = ty, mt_options = opts\<rparr>"

definition register_mount :: "mount \<Rightarrow> mount list \<Rightarrow> mount list" where
  "register_mount m table =
     (if list_ex (\<lambda>e. mt_point e = mt_point m \<and> mt_fs_type e = mt_fs_type m) table then table else table @ [m])"

definition unregister_mount :: "string \<Rightarrow> mount list \<Rightarrow> bool \<times> mount list" where
  "unregister_mount point table =
     (let table' = filter (\<lambda>e. mt_point e \<noteq> point) table in (length table' \<noteq> length table, table'))"

fun resolve_scan :: "string \<Rightarrow> mount list \<Rightarrow> mount option \<Rightarrow> mount option" where
  "resolve_scan path [] best = best"
| "resolve_scan path (m # ms) best =
     resolve_scan path ms
       (if starts_with (mt_point m) path
        then (let beats = (case best of Some b \<Rightarrow> length (mt_point b) < length (mt_point m) | None \<Rightarrow> True) in if beats then Some m else best)
        else best)"

definition resolve_mount :: "mount list \<Rightarrow> string \<Rightarrow> mount option" where
  "resolve_mount table path = resolve_scan path table None"

definition install_default_mounts :: "bool \<Rightarrow> mount list \<Rightarrow> mount list" where
  "install_default_mounts fat32_mounted table =
     (let t = fold register_mount
        [mount_new ''ramdisk'' ''/'' ''ramdisk'' ''rw'', mount_new ''proc'' ''/proc'' ''procfs'' ''rw,nosuid,nodev,noexec'',
         mount_new ''sys'' ''/sys'' ''sysfs'' ''rw,nosuid,nodev,noexec'', mount_new ''dev'' ''/dev'' ''devfs'' ''rw,nosuid'',
         mount_new ''tmpfs'' ''/tmp'' ''tmpfs'' ''rw,nosuid,nodev''] table
      in if fat32_mounted then register_mount (mount_new ''fat32:/dev/sda1'' ''/mnt'' ''fat32'' ''rw'') t else t)"

section \<open>Links\<close>

text \<open>One hop along a symbolic link.\<close>

definition link_step :: "'f vfs \<Rightarrow> string \<Rightarrow> string \<Rightarrow> bool" where
  "link_step v a b \<longleftrightarrow> (\<exists>t. vfs_readlink v a = Inr t \<and> b = follow_link a t)"

lemma resolve_loop_iff:
  "resolve_loop n v p = Inr q \<longleftrightarrow> (\<exists>k < n. (link_step v ^^ k) p q) \<and> (\<nexists>b. link_step v q b)"
proof (induction n arbitrary: p)
  case (Suc n)
  show ?case
  proof (cases "vfs_readlink v p")
    case (Inl e)
    then have none: "\<not> link_step v p b" for b by (simp add: link_step_def)
    have "(link_step v ^^ k) p q \<longleftrightarrow> k = 0 \<and> p = q" for k using none by (cases k) (auto simp: relpowp_Suc_left relcompp_apply simp del: relpowp.simps(2))
    with Inl none show ?thesis by auto
  next
    case (Inr t)
    let ?b = "follow_link p t"
    have step: "link_step v p b \<longleftrightarrow> b = ?b" for b using Inr by (auto simp: link_step_def)
    have "(\<exists>k < Suc n. (link_step v ^^ k) p q) \<longleftrightarrow> p = q \<or> (\<exists>k < n. (link_step v ^^ Suc k) p q)"
      by (auto simp: less_Suc_eq_0_disj simp del: relpowp.simps(2))
    also have "\<dots> \<longleftrightarrow> p = q \<or> (\<exists>k < n. (link_step v ^^ k) ?b q)"
      by (auto simp: relpowp_Suc_left relcompp_apply step simp del: relpowp.simps(2))
    finally have "(\<exists>k < Suc n. (link_step v ^^ k) p q) \<and> (\<nexists>b. link_step v q b) \<longleftrightarrow> (\<exists>k < n. (link_step v ^^ k) ?b q) \<and> (\<nexists>b. link_step v q b)"
      using step by blast
    with Inr Suc.IH show ?thesis by simp
  qed
qed simp

lemma resolve_loop_error: "resolve_loop n v p = Inl e \<Longrightarrow> e = IoError"
  by (induction n arbitrary: p) (auto split: sum.splits)

section \<open>Properties\<close>


text \<open>
  The mount of a path is a registered mount whose mount point is a prefix of the path, no
  registered prefix is longer, and an earlier one of the same length wins; there is none only if no
  mount point is a prefix.
\<close>

theorem resolve_mount_longest:
  "case resolve_mount table path of
     None \<Rightarrow> (\<forall>m \<in> set table. \<not> starts_with (mt_point m) path)
   | Some m \<Rightarrow> (\<exists>xs ys. table = xs @ m # ys \<and> starts_with (mt_point m) path
        \<and> (\<forall>x \<in> set xs. starts_with (mt_point x) path \<longrightarrow> length (mt_point x) < length (mt_point m))
        \<and> (\<forall>y \<in> set ys. starts_with (mt_point y) path \<longrightarrow> length (mt_point y) \<le> length (mt_point m)))"
proof -
  let ?P = "\<lambda>m table. \<exists>xs ys. table = xs @ m # ys \<and> starts_with (mt_point m) path
        \<and> (\<forall>x \<in> set xs. starts_with (mt_point x) path \<longrightarrow> length (mt_point x) < length (mt_point m))
        \<and> (\<forall>y \<in> set ys. starts_with (mt_point y) path \<longrightarrow> length (mt_point y) \<le> length (mt_point m))"
  let ?Q = "\<lambda>r table. case r of None \<Rightarrow> (\<forall>m \<in> set table. \<not> starts_with (mt_point m) path) | Some m \<Rightarrow> ?P m table"
  have "?Q (resolve_scan path ms best) (seen @ ms)" if "?Q best seen" for seen ms best
    using that
  proof (induction ms arbitrary: seen best)
    case (Cons m ms)
    define best' where "best' = (if starts_with (mt_point m) path
        then (let beats = (case best of Some b \<Rightarrow> length (mt_point b) < length (mt_point m) | None \<Rightarrow> True) in if beats then Some m else best)
        else best)"
    have "?Q best' (seen @ [m])"
    proof (cases best)
      case None
      with Cons.prems show ?thesis
        by (cases "starts_with (mt_point m) path") (simp_all add: best'_def, rule exI [of _ seen], rule exI [of _ "[]"], simp)
    next
      case (Some b)
      with Cons.prems obtain xs ys where b: "seen = xs @ b # ys" "starts_with (mt_point b) path"
        "\<forall>x \<in> set xs. starts_with (mt_point x) path \<longrightarrow> length (mt_point x) < length (mt_point b)"
        "\<forall>y \<in> set ys. starts_with (mt_point y) path \<longrightarrow> length (mt_point y) \<le> length (mt_point b)" by auto
      show ?thesis
      proof (cases "starts_with (mt_point m) path \<and> length (mt_point b) < length (mt_point m)")
        case True
        then have "best' = Some m" by (simp add: best'_def Some)
        moreover have "\<forall>x \<in> set seen. starts_with (mt_point x) path \<longrightarrow> length (mt_point x) < length (mt_point m)"
          using True b by fastforce
        ultimately show ?thesis using True by simp (rule exI [of _ seen], rule exI [of _ "[]"], simp)
      next
        case False
        then have "best' = Some b" by (auto simp: best'_def Some Let_def)
        with False b show ?thesis by simp (rule exI [of _ xs], rule exI [of _ "ys @ [m]"], auto)
      qed
    qed
    have scan: "resolve_scan path (m # ms) best = resolve_scan path ms best'" by (simp add: best'_def)
    from Cons.IH [OF \<open>?Q best' (seen @ [m])\<close>] show ?case
      unfolding scan by (simp only: append.assoc append_Cons append_Nil)
  qed (simp only: append_Nil2 resolve_scan.simps)
  from this [of "[]" None table, unfolded append_Nil] show ?thesis by (simp add: resolve_mount_def)
qed


text \<open>The four virtual trees do not overlap.\<close>

lemma virtual_disjoint:
  "is_tmp_path p \<Longrightarrow> \<not> is_proc_path p \<and> \<not> is_dev_path p \<and> \<not> is_sys_path p"
  by (auto simp: is_tmp_path_def is_proc_path_def is_dev_path_def is_sys_path_def starts_with_iff)

lemma regular_not_link:
  "find (named (normalize_path p)) fs = Some f \<Longrightarrow> f_type f = RegularFile \<Longrightarrow> rd_readlink fs p = Inl NotAFile"
  by (simp add: rd_readlink_def symlink_target_def)

lemma resolve_self: "vfs_readlink v p = Inl e \<Longrightarrow> resolve_path v p = Inr p"
  by (simp add: resolve_path_def eval_nat_numeral)

text \<open>
  C7: with the RAM disk as the active file system, a successful write through the context, other than to a
  device, is read back: reading the same path gives exactly the data, whether the path is in the
  RAM disk (where a symbolic link of that name is replaced) or under /tmp (unless the RAM disk
  holds a link of that name); the other file systems are not touched.
\<close>

theorem vfs_write_read:
  assumes inv: "rd_invar (v_ramdisk v)" "tmp_invar (v_tmp v)" and ram: "v_fat32 v = None" and dev: "\<not> is_dev_path p"
    and link: "is_tmp_path p \<Longrightarrow> \<exists>e. rd_readlink (v_ramdisk v) p = Inl e"
    and w: "vfs_write env p d v = (Inr (), v')"
  shows "vfs_read env' v' p = Inr d
    \<and> (if is_tmp_path p then v' = v\<lparr>v_tmp := v_tmp v'\<rparr> else v' = v\<lparr>v_ramdisk := v_ramdisk v'\<rparr>)"
proof (cases "is_tmp_path p")
  case True
  then obtain t where t: "tmp_write p d (v_tmp v) = (Inr (), t)" "v' = v\<lparr>v_tmp := t\<rparr>"
    using w dev by (auto simp: vfs_write_def on_tmp_def split: prod.splits)
  have n: "tmp_normalize p \<noteq> ''.''" using t(1) by (auto simp: tmp_write_def Let_def)
  have "vfs_readlink v' p \<in> range Inl" using link [OF True] ram t(2) by (auto simp: vfs_readlink_def)
  then have "resolve_path v' p = Inr p" using resolve_self by blast
  with True t n virtual_disjoint [OF True] tmp_store.wr_read [OF inv(2) n t(1)] show ?thesis
    by (simp add: vfs_read_def)
next
  case False
  then have virt: "\<not> is_sys_path p" "\<not> is_proc_path p" using w dev by (auto simp: vfs_write_def split: if_splits)
  obtain fs where fs: "write_file (e_now env) p d (v_ramdisk v) = (Inr (), fs)" "v' = v\<lparr>v_ramdisk := fs\<rparr>"
    using w dev False virt ram by (auto simp: vfs_write_def on_ramdisk_def split: prod.splits)
  obtain f where "find (named (normalize_path p)) fs = Some f" "f_type f = RegularFile"
    using write_file_ok [OF inv(1) fs(1)] by auto
  from regular_not_link [OF this] have "vfs_readlink v' p = Inl NotAFile" using ram fs(2) by (simp add: vfs_readlink_def)
  then have "resolve_path v' p = Inr p" by (rule resolve_self)
  with False dev virt fs ram rdfs.wr_read [OF inv(1) TrueI fs(1)] show ?thesis by (simp add: vfs_read_def)
qed

text \<open>
  The inode numbers of /proc, /sys, /dev and /tmp are disjoint from each other and from those of the
  RAM disk, and no path that has an inode has number zero.
\<close>

theorem inode_spaces_disjoint:
  assumes ram: "v_fat32 v = None"
  shows "case (is_proc_path p, is_sys_path p, is_dev_path p, is_tmp_path p) of
      (a, b, c, d) \<Rightarrow> drop_bit 48 (vfs_ino env v p) =
        (if a then 0xfff0 else if b then 0xfff1 else if c then 0xfff2 else if d then 0xfff3 else drop_bit 48 (rd_ino (v_ramdisk v) p))
      \<and> (rd_ino (v_ramdisk v) p = 0 \<or> drop_bit 60 (rd_ino (v_ramdisk v) p) = 1)"
proof -
  have v: "drop_bit 48 (virtual_ino base p) = drop_bit 48 base" if "take_bit 48 base = 0" for base
  proof -
    have "drop_bit 48 (h AND 0x0000ffffffffffff) = (0 :: u64)" for h :: u64
      by (simp add: drop_bit_and)
    then show ?thesis by (simp add: virtual_ino_def drop_bit_or)
  qed
  have "drop_bit 60 (ramdisk_ino n) = 1" for n
  proof -
    have "drop_bit 60 (h AND 0x0fffffffffffffff) = (0 :: u64)" for h :: u64
      by (simp add: drop_bit_and)
    moreover have "drop_bit 60 (0x1000000000000000 :: u64) = 1" by (simp add: drop_bit_eq_div)
    ultimately show ?thesis by (simp add: ramdisk_ino_def drop_bit_or)
  qed
  then have "rd_ino (v_ramdisk v) p = 0 \<or> drop_bit 60 (rd_ino (v_ramdisk v) p) = 1" by (simp add: rd_ino_def Let_def)
  moreover have "drop_bit 48 (virtual_ino 0xfff0000000000000 p) = 0xfff0" "drop_bit 48 (virtual_ino 0xfff1000000000000 p) = 0xfff1"
    "drop_bit 48 (virtual_ino 0xfff2000000000000 p) = 0xfff2" "drop_bit 48 (virtual_ino 0xfff3000000000000 p) = 0xfff3"
    by (subst v; simp add: take_bit_eq_mod drop_bit_eq_div)+
  ultimately show ?thesis using ram by (simp add: vfs_ino_def)
qed


section \<open>Witnesses\<close>

definition example_link :: rd_file where
  "example_link = \<lparr>f_name = ''l'', f_content = as_bytes ''/a'', f_type = Symlink, f_mode = 511, f_uid = 0, f_gid = 0,
     f_ctime = 0, f_mtime = 0, f_atime = 0\<rparr>"

definition example_vfs :: "unit vfs" where
  "example_vfs = \<lparr>v_ramdisk = [example_link], v_tmp = [], v_fat32 = None, v_devices = [], v_mounts = install_default_mounts False []\<rparr>"

lemma example_vfs_paths: "normalize_path ''/l'' = ''l''" "normalize_path ''/a'' = ''a''"
  by (simp_all add: path_eval)

lemma example_readlink:
  "vfs_readlink example_vfs ''/l'' = Inr ''/a''" "vfs_readlink example_vfs ''/a'' = Inl FileNotFound"
  by (simp_all add: vfs_readlink_def example_vfs_def rd_readlink_def example_vfs_paths named_def example_link_def
      symlink_target_def from_utf8_def) (simp add: as_bytes_def of_char_def)


theorem resolve_mount_longest_witness:
  "resolve_mount (v_mounts example_vfs) ''/tmp/x'' = Some (mount_new ''tmpfs'' ''/tmp'' ''tmpfs'' ''rw,nosuid,nodev'')
   \<and> starts_with ''/tmp'' ''/tmp/x''"
proof -
  have r: "resolve_mount (v_mounts example_vfs) ''/tmp/x'' = Some (mount_new ''tmpfs'' ''/tmp'' ''tmpfs'' ''rw,nosuid,nodev'')"
    by (simp add: example_vfs_def install_default_mounts_def register_mount_def mount_new_def resolve_mount_def starts_with_def)
  with resolve_mount_longest [of "v_mounts example_vfs" "''/tmp/x''"] show ?thesis by (auto simp: mount_new_def)
qed

text \<open>The comparison is on characters, not on path components: a path such as \<^verbatim>\<open>/process\<close> is attributed to /proc.\<close>

lemma resolve_mount_not_component:
  "map_option mt_fs_type (resolve_mount (v_mounts example_vfs) ''/process'') = Some ''procfs'' \<and> \<not> is_proc_path ''/process''"
  by (simp add: example_vfs_def install_default_mounts_def register_mount_def mount_new_def resolve_mount_def starts_with_def is_proc_path_def)

definition example_env :: "unit vfs_env" where
  "example_env = \<lparr>e_fat32 = \<lparr>fs_read = (\<lambda>_ _. Inl FileNotFound), fs_write = (\<lambda>_ _ s. (Inl IoError, s)), fs_delete = (\<lambda>_ s. (Inl IoError, s)),
       fs_list = (\<lambda>_. []), fs_exists = (\<lambda>_ _. False), fs_used_space = (\<lambda>_. 0), fs_total_space = (\<lambda>_. 0),
       fs_mkdir = (\<lambda>_ s. (Inl IoError, s)), fs_rmdir = (\<lambda>_ s. (Inl IoError, s)), fs_list_dir = (\<lambda>_ _. Inr []),
       fs_is_directory = (\<lambda>_ _. False), fs_rename = (\<lambda>_ _ s. (Inl IoError, s)), fs_ino = (\<lambda>_ _. 0), fs_nlink = (\<lambda>_ _. 0)\<rparr>,
     e_read_proc = (\<lambda>_. None), e_proc_is_directory = (\<lambda>_. False), e_list_proc = [],
     e_dev = \<lparr>de_ticks = 0, de_tty_input = [], de_klog = [], de_memory = (0, 0, 0)\<rparr>\<rparr>"

theorem vfs_write_read_witness:
  "\<exists>v'. vfs_write example_env ''/l'' [1, 2] example_vfs = (Inr (), v') \<and> vfs_read example_env v' ''/l'' = Inr [1, 2]"
proof -
  have inv: "rd_invar (v_ramdisk example_vfs)" "tmp_invar (v_tmp example_vfs)" "v_fat32 example_vfs = None"
    by (simp_all add: example_vfs_def rd_invar_def tmp_invar_def example_link_def)
  have p: "\<not> is_dev_path ''/l''" "\<not> is_tmp_path ''/l''" "\<not> is_sys_path ''/l''" "\<not> is_proc_path ''/l''"
    by (simp_all add: is_dev_path_def is_tmp_path_def is_sys_path_def is_proc_path_def starts_with_def)
  have "fst (vfs_write example_env ''/l'' [1, 2] example_vfs) = Inr ()"
    by (simp add: vfs_write_def p example_vfs_def on_ramdisk_def write_file_def example_vfs_paths file_new_def named_def
        f_is_directory_def example_link_def Let_def)
  then obtain v' where w: "vfs_write example_env ''/l'' [1, 2] example_vfs = (Inr (), v')" by (metis prod.collapse)
  from vfs_write_read [OF inv p(1) _ w] p(2) w show ?thesis by blast
qed

theorem inode_spaces_disjoint_witness: "drop_bit 48 (vfs_ino example_env example_vfs ''/tmp/x'') = 0xfff3"
proof -
  have "v_fat32 example_vfs = None" by (simp add: example_vfs_def)
  from inode_spaces_disjoint [OF this, where p = "''/tmp/x''" and env = example_env] show ?thesis
    by (simp add: is_dev_path_def is_tmp_path_def is_sys_path_def is_proc_path_def starts_with_def)
qed


end
