(* ===== verification/Tty.thy ===== *)
theory Tty
  imports FsTypes
begin

text \<open>
  The terminal (\<^verbatim>\<open>src/tty.rs\<close>): the line discipline between the keyboard and the programs that read standard
  input. The line being edited is a Rust \<open>String\<close>, kept here as the list of its characters (code points below
  256, because every character is pushed as \<open>byte as char\<close>); the bytes it turns into are its UTF-8 encoding.
  Console output is returned by the operations as the list of printed bytes.
\<close>

section \<open>The terminal\<close>

record termios =
  tm_canonical :: bool
  tm_echo :: bool
  tm_signals :: bool
  tm_cr_translate :: bool

definition termios_default :: termios where
  "termios_default = \<lparr>tm_canonical = True, tm_echo = True, tm_signals = True, tm_cr_translate = True\<rparr>"

record win_size =
  ws_rows :: u16
  ws_cols :: u16
  ws_xpixel :: u16
  ws_ypixel :: u16

definition win_size_default :: win_size where
  "win_size_default = \<lparr>ws_rows = 25, ws_cols = 80, ws_xpixel = 0, ws_ypixel = 0\<rparr>"

datatype tty_signal = Interrupt | Suspend | Quit | Eof

record tty =
  tty_name :: string
  tty_termios :: termios
  tty_winsize :: win_size
  tty_input_buf :: "u8 list"
  tty_line_buf :: "u8 list"
  tty_fg_pgid :: nat
  tty_session_id :: nat
  tty_active :: bool

definition tty_new :: "string \<Rightarrow> tty" where
  "tty_new name = \<lparr>tty_name = name, tty_termios = termios_default, tty_winsize = win_size_default,
     tty_input_buf = [], tty_line_buf = [], tty_fg_pgid = 0, tty_session_id = 0, tty_active = True\<rparr>"

definition TTY0 :: tty where "TTY0 = tty_new ''tty0''"

text \<open>\<open>byte as char\<close> is the code point of that number; this is its UTF-8 encoding.\<close>

definition char_bytes :: "u8 \<Rightarrow> u8 list" where
  "char_bytes b = (if b < 0x80 then [b] else [0xC0 OR drop_bit 6 b, 0x80 OR (b AND 0x3F)])"

definition tty_signal_of :: "u8 \<Rightarrow> tty_signal option" where
  "tty_signal_of byte =
     (if byte = 0x03 then Some Interrupt
      else if byte = 0x1A then Some Suspend
      else if byte = 0x1C then Some Quit
      else if byte = 0x04 then Some Eof
      else None)"

definition echoed :: "tty \<Rightarrow> u8 list \<Rightarrow> u8 list" where
  "echoed t out = (if tm_echo (tty_termios t) then out else [])"

definition input_byte :: "tty \<Rightarrow> u8 \<Rightarrow> tty_signal option \<times> u8 list \<times> tty" where
  "input_byte t byte =
     (if \<not> tty_active t then (None, [], t)
      else case (if tm_signals (tty_termios t) then tty_signal_of byte else None) of
          Some sig \<Rightarrow> (Some sig, [], t)
        | None \<Rightarrow>
            if tm_canonical (tty_termios t) then
              (if byte = 0x0A \<or> byte = 0x0D then
                 (let line = tty_line_buf t @ [0x0A] in
                  (None, echoed t [0x0A],
                   t\<lparr>tty_input_buf := tty_input_buf t @ concat (map char_bytes line), tty_line_buf := []\<rparr>))
               else if byte = 0x7F \<or> byte = 0x08 then
                 (if tty_line_buf t \<noteq> []
                  then (None, echoed t [0x08, 0x20, 0x08], t\<lparr>tty_line_buf := butlast (tty_line_buf t)\<rparr>)
                  else (None, [], t))
               else (None, echoed t (char_bytes byte), t\<lparr>tty_line_buf := tty_line_buf t @ [byte]\<rparr>))
            else (None, echoed t (char_bytes byte), t\<lparr>tty_input_buf := tty_input_buf t @ [byte]\<rparr>))"

fun tty_read_loop :: "nat \<Rightarrow> u8 list \<Rightarrow> u8 list \<times> u8 list" where
  "tty_read_loop 0 input = ([], input)"
| "tty_read_loop (Suc n) [] = ([], [])"
| "tty_read_loop (Suc n) (byte # input) = (case tty_read_loop n input of (got, rest) \<Rightarrow> (byte # got, rest))"

text \<open>Reading into a buffer of \<open>len\<close> bytes: the bytes stored, and the terminal afterwards.\<close>

definition tty_read :: "tty \<Rightarrow> nat \<Rightarrow> u8 list \<times> tty" where
  "tty_read t len = (case tty_read_loop len (tty_input_buf t) of (got, rest) \<Rightarrow> (got, t\<lparr>tty_input_buf := rest\<rparr>))"

definition tty_write :: "u8 list \<Rightarrow> u8 list" where
  "tty_write data = (case from_utf8 data of Some s \<Rightarrow> as_bytes s | None \<Rightarrow> concat (map char_bytes data))"

definition bytes_available :: "tty \<Rightarrow> nat" where
  "bytes_available t = length (tty_input_buf t)"

definition set_raw :: "tty \<Rightarrow> tty" where
  "set_raw t = t\<lparr>tty_termios := (tty_termios t)\<lparr>tm_canonical := False, tm_echo := False\<rparr>\<rparr>"

definition set_cooked :: "tty \<Rightarrow> tty" where
  "set_cooked t = t\<lparr>tty_termios := (tty_termios t)\<lparr>tm_canonical := True, tm_echo := True\<rparr>\<rparr>"

definition flush_input :: "tty \<Rightarrow> tty" where
  "flush_input t = t\<lparr>tty_input_buf := [], tty_line_buf := []\<rparr>"

section \<open>What typing a text does\<close>

text \<open>The driver feeds bytes one after the other.\<close>

fun type_bytes :: "u8 list \<Rightarrow> tty \<Rightarrow> tty" where
  "type_bytes [] t = t"
| "type_bytes (b # bs) t = type_bytes bs (snd (snd (input_byte t b)))"

text \<open>
  The specification of the cooked mode: a line is what is left of the bytes typed since the last line end when
  each erase key has removed the last character in front of it, and lines are delivered only when they end.
\<close>

definition is_eol :: "u8 \<Rightarrow> bool" where "is_eol b \<longleftrightarrow> b = 0x0A \<or> b = 0x0D"
definition is_erase :: "u8 \<Rightarrow> bool" where "is_erase b \<longleftrightarrow> b = 0x7F \<or> b = 0x08"

definition edit :: "u8 list \<Rightarrow> u8 list \<Rightarrow> u8 list" where
  "edit line keys = fold (\<lambda>b l. if is_erase b then butlast l else l @ [b]) keys line"

text \<open>\<open>typed_lines\<close> cuts a typed text into its ended lines and the keys after the last line end.\<close>

fun typed_lines :: "u8 list \<Rightarrow> u8 list list \<times> u8 list" where
  "typed_lines [] = ([], [])"
| "typed_lines (b # bs) =
     (case typed_lines bs of (ls, r) \<Rightarrow>
        if is_eol b then ([] # ls, r)
        else case ls of [] \<Rightarrow> ([], b # r) | l # ls' \<Rightarrow> ((b # l) # ls', r))"

definition line_bytes :: "u8 list \<Rightarrow> u8 list" where
  "line_bytes keys = concat (map char_bytes (edit [] keys)) @ [0x0A]"

definition plain :: "tty \<Rightarrow> u8 \<Rightarrow> bool" where
  "plain t b \<longleftrightarrow> (tm_signals (tty_termios t) \<longrightarrow> tty_signal_of b = None)"

lemma char_bytes_lf [simp]: "char_bytes 0x0A = [0x0A]"
  by (simp add: char_bytes_def)

lemma edit_append: "edit l (a @ b) = edit (edit l a) b"
  by (simp add: edit_def)

text \<open>One key in cooked mode.\<close>

lemma input_cooked:
  assumes "tty_active t" and "tm_canonical (tty_termios t)" and "plain t b"
  shows "snd (snd (input_byte t b)) =
    (if is_eol b then t\<lparr>tty_input_buf := tty_input_buf t @ concat (map char_bytes (tty_line_buf t)) @ [0x0A], tty_line_buf := []\<rparr>
     else t\<lparr>tty_line_buf := edit (tty_line_buf t) [b]\<rparr>)"
  using assms by (auto simp: input_byte_def plain_def is_eol_def is_erase_def edit_def Let_def)

text \<open>With a line already begun, the first ended line continues it.\<close>

definition delivered :: "u8 list \<Rightarrow> u8 list \<Rightarrow> u8 list" where
  "delivered line bs =
     (case fst (typed_lines bs) of [] \<Rightarrow> []
      | l # ls \<Rightarrow> concat (map char_bytes (edit line l)) @ [0x0A] @ concat (map line_bytes ls))"

definition pending :: "u8 list \<Rightarrow> u8 list \<Rightarrow> u8 list" where
  "pending line bs = (case fst (typed_lines bs) of [] \<Rightarrow> edit line (snd (typed_lines bs)) | _ # _ \<Rightarrow> edit [] (snd (typed_lines bs)))"

lemma delivered_empty: "delivered [] bs = concat (map line_bytes (fst (typed_lines bs)))"
  by (auto simp: delivered_def line_bytes_def split: list.split)

lemma pending_empty: "pending [] bs = edit [] (snd (typed_lines bs))"
  by (auto simp: pending_def split: list.split)

lemma delivered_Cons:
  "delivered line (b # bs) =
     (if is_eol b then concat (map char_bytes line) @ [0x0A] @ delivered [] bs else delivered (edit line [b]) bs)"
  by (auto simp: delivered_def line_bytes_def edit_def split: prod.split list.split)

lemma pending_Cons: "pending line (b # bs) = (if is_eol b then pending [] bs else pending (edit line [b]) bs)"
  by (auto simp: pending_def edit_def split: prod.split list.split)

lemma type_cooked:
  assumes "tty_active t" and "tm_canonical (tty_termios t)" and "list_all (plain t) bs"
  shows "type_bytes bs t =
    t\<lparr>tty_input_buf := tty_input_buf t @ delivered (tty_line_buf t) bs, tty_line_buf := pending (tty_line_buf t) bs\<rparr>"
  using assms
proof (induction bs arbitrary: t)
  case Nil
  then show ?case by (simp add: delivered_def pending_def edit_def)
next
  case (Cons b bs)
  let ?t = "snd (snd (input_byte t b))"
  have step: "?t = (if is_eol b
      then t\<lparr>tty_input_buf := tty_input_buf t @ concat (map char_bytes (tty_line_buf t)) @ [0x0A], tty_line_buf := []\<rparr>
      else t\<lparr>tty_line_buf := edit (tty_line_buf t) [b]\<rparr>)"
    using Cons.prems by (intro input_cooked) auto
  have "type_bytes bs ?t = ?t\<lparr>tty_input_buf := tty_input_buf ?t @ delivered (tty_line_buf ?t) bs,
      tty_line_buf := pending (tty_line_buf ?t) bs\<rparr>"
    using Cons.prems by (intro Cons.IH) (auto simp: step plain_def [abs_def])
  then show ?case by (simp add: step delivered_Cons pending_Cons)
qed

lemma tty_read_loop_eq: "tty_read_loop n input = (take n input, drop n input)"
  by (induction n input rule: tty_read_loop.induct) simp_all

lemma tty_read_eq: "tty_read t n = (take n (tty_input_buf t), t\<lparr>tty_input_buf := drop n (tty_input_buf t)\<rparr>)"
  by (simp add: tty_read_def tty_read_loop_eq)

text \<open>
  In cooked mode, typing a text without signal keys on an active terminal with an empty line makes exactly its ended
  lines readable, each with its erased characters gone and its characters encoded in UTF-8, in order and behind
  what was readable before; the keys after the last line end stay in the line editor and cannot be read.
\<close>

theorem cooked_lines:
  assumes "tty_active t" and "tm_canonical (tty_termios t)" and "tty_line_buf t = []" and "list_all (plain t) bs"
  shows "fst (tty_read (type_bytes bs t) n) = take n (tty_input_buf t @ concat (map line_bytes (fst (typed_lines bs))))
    \<and> tty_line_buf (type_bytes bs t) = edit [] (snd (typed_lines bs))"
  using type_cooked [OF assms(1,2,4)] assms(3) by (simp_all add: tty_read_eq delivered_empty pending_empty)

theorem cooked_lines_witness:
  "fst (tty_read (type_bytes [0x6C, 0x78, 0x7F, 0x73, 0x0D, 0x70] TTY0) 10) = [0x6C, 0x73, 0x0A]"
proof -
  have *: "fst (typed_lines [0x6C, 0x78, 0x7F, 0x73, 0x0D, 0x70]) = [[0x6C, 0x78, 0x7F, 0x73]]"
    by (simp add: is_eol_def)
  have "list_all (plain TTY0) [0x6C, 0x78, 0x7F, 0x73, 0x0D, 0x70]"
    by (simp add: plain_def TTY0_def tty_new_def termios_default_def tty_signal_of_def)
  from cooked_lines [OF _ _ _ this, of 10]
  have "fst (tty_read (type_bytes [0x6C, 0x78, 0x7F, 0x73, 0x0D, 0x70] TTY0) 10) = take 10 (line_bytes [0x6C, 0x78, 0x7F, 0x73])"
    unfolding * by (simp add: TTY0_def tty_new_def termios_default_def del: type_bytes.simps)
  also have "\<dots> = [0x6C, 0x73, 0x0A]" by (simp add: line_bytes_def edit_def is_erase_def char_bytes_def)
  finally show ?thesis .
qed

text \<open>A character of two bytes typed in UTF-8 is read back as four bytes: each byte is encoded again.\<close>

lemma cooked_input_reencoded: "tty_input_buf (type_bytes [0xC3, 0xA9, 0x0A] TTY0) = [0xC3, 0x83, 0xC2, 0xA9, 0x0A]"
  by (simp add: TTY0_def tty_new_def termios_default_def input_byte_def tty_signal_of_def char_bytes_def Let_def)

end
