(* ===== verification/Bytes.thy ===== *)
theory Bytes
  imports Prelude
begin

text \<open>
  Byte buffers: fixed-width integers in little-endian and big-endian order (\<open>from_le_bytes\<close>, \<open>to_be_bytes\<close> and the
  shifts written out in the drivers and the network code), checked access to slices, and the sign extension of
  machine integers. The on-disk and on-the-wire formats of the other theories are built from these.
\<close>

section \<open>Widening of signed integers\<close>

lemma uint_eq_sint:
  fixes w :: "'n::len word"
  assumes "0 \<le> sint w"
  shows "uint w = sint w"
proof -
  have "sint w < 2 ^ (LENGTH('n) - 1)" by (rule sint_lt)
  also have "\<dots> \<le> 2 ^ LENGTH('n)" by simp
  finally have "take_bit LENGTH('n) (sint w) = sint w" using assms by (simp add: take_bit_int_eq_self)
  then show ?thesis by (simp add: uint_sint)
qed

lemma scast_nonneg:
  fixes w :: "'n::len word"
  shows "0 \<le> sint w \<Longrightarrow> (scast w :: 'm::len word) = ucast w"
  by (simp only: scast_eq ucast_eq uint_eq_sint)

lemma unat_ucast_up:
  fixes w :: "'n::len word"
  assumes "LENGTH('n) \<le> LENGTH('m)"
  shows "unat (ucast w :: 'm::len word) = unat w"
proof -
  have "unat w < 2 ^ LENGTH('n)" by (rule unsigned_less)
  also have "\<dots> \<le> 2 ^ LENGTH('m)" using assms by simp
  finally show ?thesis by (simp add: unsigned_ucast_eq take_bit_nat_eq_self)
qed

section \<open>Byte order\<close>

primrec from_le :: "u8 list \<Rightarrow> 'n::len word" where
  "from_le [] = 0"
| "from_le (b # bs) = ucast b OR push_bit 8 (from_le bs)"

definition from_be :: "u8 list \<Rightarrow> 'n::len word" where
  "from_be bs = from_le (rev bs)"

primrec to_le :: "nat \<Rightarrow> 'n::len word \<Rightarrow> u8 list" where
  "to_le 0 w = []"
| "to_le (Suc n) w = ucast w # to_le n (drop_bit 8 w)"

definition to_be :: "nat \<Rightarrow> 'n::len word \<Rightarrow> u8 list" where
  "to_be n w = rev (to_le n w)"

lemma length_to_le [simp]: "length (to_le n w) = n"
  by (induction n arbitrary: w) simp_all

lemma length_to_be [simp]: "length (to_be n w) = n"
  by (simp add: to_be_def)

lemma from_to_le_bits: "from_le (to_le n w) = take_bit (8 * n) (w :: 'n::len word)"
proof (induction n arbitrary: w)
  case (Suc n)
  show ?case
    by (rule bit_word_eqI) (auto simp: Suc bit_simps)
qed simp

lemma from_to_le: "LENGTH('n) \<le> 8 * n \<Longrightarrow> from_le (to_le n w) = (w :: 'n::len word)"
  by (simp add: from_to_le_bits) (rule bit_word_eqI, auto simp: bit_simps)

lemma from_to_be: "LENGTH('n) \<le> 8 * n \<Longrightarrow> from_be (to_be n w) = (w :: 'n::len word)"
  by (simp add: from_be_def to_be_def from_to_le)

lemma nth_to_le: "i < n \<Longrightarrow> to_le n w ! i = ucast (drop_bit (8 * i) w)"
proof (induction n arbitrary: w i)
  case (Suc n)
  then show ?case by (cases i) (simp_all add: drop_bit_drop_bit ac_simps)
qed simp

lemma bit_from_le:
  "bit (from_le bs :: 'n::len word) k \<longleftrightarrow> k < LENGTH('n) \<and> k < 8 * length bs \<and> bit (bs ! (k div 8)) (k mod 8)"
proof (induction bs arbitrary: k)
  case (Cons b bs)
  have b: "bit b k \<Longrightarrow> k < 8" by (auto dest: bit_imp_le_length)
  show ?case
  proof (cases "k < 8")
    case True
    then show ?thesis by (simp add: bit_or_iff bit_push_bit_iff bit_ucast_iff)
  next
    case False
    then obtain j where j: "k = j + 8" by (metis add.commute le_Suc_ex not_less)
    have "\<not> bit b k" using b False by blast
    moreover have "(j + 8) div 8 = Suc (j div 8)" by simp
    ultimately show ?thesis
      by (simp only: from_le.simps bit_or_iff bit_push_bit_iff bit_ucast_iff) (auto simp: j Cons.IH)
  qed
qed simp

lemma to_from_le:
  assumes "8 * length bs \<le> LENGTH('n)"
  shows "to_le (length bs) (from_le bs :: 'n::len word) = bs"
proof (rule nth_equalityI)
  fix i assume "i < length (to_le (length bs) (from_le bs :: 'n word))"
  then have i: "i < length bs" by simp
  show "to_le (length bs) (from_le bs :: 'n word) ! i = bs ! i"
    by (rule bit_word_eqI) (use i assms in \<open>auto simp: nth_to_le bit_simps bit_from_le\<close>)
qed simp

lemma to_from_be: "8 * length bs \<le> LENGTH('n) \<Longrightarrow> to_be (length bs) (from_be bs :: 'n::len word) = bs"
  using to_from_le [of "rev bs", where 'n = 'n] by (simp add: to_be_def from_be_def)

section \<open>Slices\<close>

text \<open>
  \<open>buf[i]\<close>, \<open>&buf[a..b]\<close> and \<open>buf[a..b].copy_from_slice(x)\<close> panic outside the buffer; \<open>buf.get(a..b)\<close> gives \<open>None\<close>.
\<close>

definition byte_at :: "'a list \<Rightarrow> nat \<Rightarrow> 'a outcome" where
  "byte_at bs i = (if i < length bs then Done (bs ! i) else Panic)"

definition slice_at :: "'a list \<Rightarrow> nat \<Rightarrow> nat \<Rightarrow> 'a list outcome" where
  "slice_at bs a b = (if a \<le> b \<and> b \<le> length bs then Done (take (b - a) (drop a bs)) else Panic)"

definition slice_get :: "'a list \<Rightarrow> nat \<Rightarrow> nat \<Rightarrow> 'a list option" where
  "slice_get bs a b = (if a \<le> b \<and> b \<le> length bs then Some (take (b - a) (drop a bs)) else None)"

definition overwrite :: "'a list \<Rightarrow> nat \<Rightarrow> 'a list \<Rightarrow> 'a list" where
  "overwrite bs a xs = take a bs @ xs @ drop (a + length xs) bs"

definition copy_at :: "'a list \<Rightarrow> nat \<Rightarrow> 'a list \<Rightarrow> 'a list outcome" where
  "copy_at bs a xs = (if a + length xs \<le> length bs then Done (overwrite bs a xs) else Panic)"

lemma length_overwrite [simp]: "a + length xs \<le> length bs \<Longrightarrow> length (overwrite bs a xs) = length bs"
  by (simp add: overwrite_def)

lemma slice_overwrite_same: "a + length xs \<le> length bs \<Longrightarrow> take (length xs) (drop a (overwrite bs a xs)) = xs"
  by (simp add: overwrite_def)

lemma nth_overwrite:
  "a + length xs \<le> length bs \<Longrightarrow> i < length bs \<Longrightarrow>
   overwrite bs a xs ! i = (if a \<le> i \<and> i < a + length xs then xs ! (i - a) else bs ! i)"
  by (auto simp: overwrite_def nth_append)

end
