(* ===== verification/Poll.thy ===== *)
theory Poll
  imports FileDesc Tty Bytes
begin

text \<open>
  \<open>poll\<close> and \<open>select\<close> (\<^verbatim>\<open>src/syscall/poll.rs\<close>). The wait is a loop that looks at the descriptors, returns when
  one is ready or the deadline has passed, and halts until the next interrupt otherwise. What it sees changes from
  one iteration to the next, so the loop runs over a sequence of observations: the descriptor tables, the pipes,
  the terminal and the tick counter at iteration 0, 1, 2 and so on. A loop that never returns is \<open>None\<close>.
\<close>

section \<open>Readiness of one descriptor\<close>

definition POLLIN :: u16 where "POLLIN = 0x0001"
definition POLLPRI :: u16 where "POLLPRI = 0x0002"
definition POLLOUT :: u16 where "POLLOUT = 0x0004"
definition POLLERR :: u16 where "POLLERR = 0x0008"
definition POLLHUP :: u16 where "POLLHUP = 0x0010"
definition POLLNVAL :: u16 where "POLLNVAL = 0x0020"
definition POLLRDNORM :: u16 where "POLLRDNORM = 0x0040"
definition POLLWRNORM :: u16 where "POLLWRNORM = 0x0100"

lemmas poll_flags = POLLIN_def POLLPRI_def POLLOUT_def POLLERR_def POLLHUP_def POLLNVAL_def POLLRDNORM_def POLLWRNORM_def

record poll_fd =
  pfd_fd :: u32
  pfd_events :: u16
  pfd_revents :: u16

text \<open>What one iteration of a waiting call observes.\<close>

record world =
  w_current :: "nat option"
  w_fds :: fd_state
  w_tty :: tty
  w_ticks :: u64

definition kind_readiness :: "world \<Rightarrow> file_kind \<Rightarrow> u16 \<Rightarrow> u16" where
  "kind_readiness w kind requested =
     (case kind of
        Regular \<Rightarrow>
          (if requested AND POLLIN \<noteq> 0 then POLLIN OR POLLRDNORM else 0)
          OR (if requested AND POLLOUT \<noteq> 0 then POLLOUT OR POLLWRNORM else 0)
      | PipeRead i \<Rightarrow>
          (if 0 < pipe_bytes_available (PIPE_TABLE (w_fds w)) i \<and> requested AND POLLIN \<noteq> 0 then POLLIN OR POLLRDNORM else 0)
          OR (if pipe_write_closed (PIPE_TABLE (w_fds w)) i then POLLHUP else 0)
      | PipeWrite i \<Rightarrow>
          (if pipe_writable (PIPE_TABLE (w_fds w)) i \<and> requested AND POLLOUT \<noteq> 0 then POLLOUT OR POLLWRNORM else 0)
          OR (if pipe_read_closed (PIPE_TABLE (w_fds w)) i then POLLERR else 0))"

definition stdio_readiness :: "world \<Rightarrow> u64 \<Rightarrow> u16 \<Rightarrow> u16" where
  "stdio_readiness w fd requested =
     (if fd = 0 \<and> requested AND POLLIN \<noteq> 0 \<and> 0 < bytes_available (w_tty w) then POLLIN OR POLLRDNORM else 0)
     OR (if (fd = 1 \<or> fd = 2) \<and> requested AND POLLOUT \<noteq> 0 then POLLOUT OR POLLWRNORM else 0)"

definition fd_readiness :: "world \<Rightarrow> u64 \<Rightarrow> u16 \<Rightarrow> u16 outcome" where
  "fd_readiness w fd requested =
     (if 4096 \<le> fd then Done POLLNVAL
      else obind (fdt_get (current_table (w_current w) (w_fds w)) (unat fd)) (\<lambda>r. case r of
          None \<Rightarrow> Done POLLNVAL
        | Some f \<Rightarrow> Done (kind_readiness w (of_kind f) requested OR stdio_readiness w fd requested)))"

section \<open>The poll loop\<close>

definition MS_PER_TICK :: u64 where "MS_PER_TICK = 55"

text \<open>The scan over the request: new \<open>revents\<close> for every entry, and how many are ready.\<close>

fun poll_scan :: "world \<Rightarrow> poll_fd list \<Rightarrow> (nat \<times> poll_fd list) outcome" where
  "poll_scan w [] = Done (0, [])"
| "poll_scan w (p # ps) =
     obind (fd_readiness w (scast (pfd_fd p)) (pfd_events p)) (\<lambda>r.
     obind (poll_scan w ps) (\<lambda>(n, qs). Done ((if r \<noteq> 0 then Suc n else n), p\<lparr>pfd_revents := r\<rparr> # qs)))"

definition poll_deadline :: "profile \<Rightarrow> u64 \<Rightarrow> u32 \<Rightarrow> u64 outcome" where
  "poll_deadline pf start timeout_ms =
     (if sint timeout_ms < 0 then Done (- 1)
      else add_checked pf start (max (scast timeout_ms div MS_PER_TICK) 1))"

partial_function (option) poll_loop ::
  "(nat \<Rightarrow> world) \<Rightarrow> nat \<Rightarrow> poll_fd list \<Rightarrow> u32 \<Rightarrow> u64 \<Rightarrow> (nat \<times> poll_fd list) outcome option" where
  "poll_loop obs i fds timeout_ms deadline =
     (case poll_scan (obs i) fds of
        Panic \<Rightarrow> Some Panic
      | Stuck \<Rightarrow> Some Stuck
      | Done (ready, fds') \<Rightarrow>
          if 0 < ready \<or> timeout_ms = 0 then Some (Done (ready, fds'))
          else if deadline \<le> w_ticks (obs i) then Some (Done (0, fds'))
          else poll_loop obs (Suc i) fds' timeout_ms deadline)"

definition do_poll :: "profile \<Rightarrow> (nat \<Rightarrow> world) \<Rightarrow> poll_fd list \<Rightarrow> u32 \<Rightarrow> (nat \<times> poll_fd list) outcome option" where
  "do_poll pf obs fds timeout_ms =
     (case poll_deadline pf (w_ticks (obs 0)) timeout_ms of
        Done deadline \<Rightarrow> poll_loop obs 0 fds timeout_ms deadline
      | Panic \<Rightarrow> Some Panic
      | Stuck \<Rightarrow> Some Stuck)"

section \<open>Descriptor sets and \<open>select\<close>\<close>

definition FD_SETSIZE :: nat where "FD_SETSIZE = 1024"

type_synonym fd_set = "u64 list"

definition fdset_empty :: fd_set where "fdset_empty = replicate (FD_SETSIZE div 64) 0"

definition fdset_set :: "fd_set \<Rightarrow> nat \<Rightarrow> fd_set" where
  "fdset_set s fd = (if fd < FD_SETSIZE then s[fd div 64 := (s ! (fd div 64)) OR bit_mask (fd mod 64)] else s)"

definition fdset_clear :: "fd_set \<Rightarrow> nat \<Rightarrow> fd_set" where
  "fdset_clear s fd = (if fd < FD_SETSIZE then s[fd div 64 := (s ! (fd div 64)) AND NOT (bit_mask (fd mod 64))] else s)"

definition fdset_is_set :: "fd_set \<Rightarrow> nat \<Rightarrow> bool" where
  "fdset_is_set s fd \<longleftrightarrow> fd < FD_SETSIZE \<and> (s ! (fd div 64)) AND bit_mask (fd mod 64) \<noteq> 0"

definition fdset_zero :: "fd_set \<Rightarrow> fd_set" where
  "fdset_zero s = map (\<lambda>_. 0) s"

definition select_events :: "fd_set \<Rightarrow> fd_set \<Rightarrow> fd_set \<Rightarrow> nat \<Rightarrow> u16" where
  "select_events readfds writefds exceptfds fd =
     (if fdset_is_set readfds fd then POLLIN else 0) OR (if fdset_is_set writefds fd then POLLOUT else 0)
     OR (if fdset_is_set exceptfds fd then POLLPRI else 0)"

definition select_request :: "nat \<Rightarrow> fd_set \<Rightarrow> fd_set \<Rightarrow> fd_set \<Rightarrow> poll_fd list" where
  "select_request nfds readfds writefds exceptfds =
     map (\<lambda>fd. \<lparr>pfd_fd = word_of_nat fd, pfd_events = select_events readfds writefds exceptfds fd, pfd_revents = 0\<rparr>)
       (filter (\<lambda>fd. select_events readfds writefds exceptfds fd \<noteq> 0) [0..<min nfds FD_SETSIZE])"

record select_sets =
  sel_read :: fd_set
  sel_write :: fd_set
  sel_except :: fd_set

definition select_mark :: "poll_fd \<Rightarrow> nat \<times> select_sets \<Rightarrow> nat \<times> select_sets" where
  "select_mark p = (\<lambda>(count, ss).
     if pfd_revents p = 0 then (count, ss)
     else
       let fd = unat (scast (pfd_fd p) :: u64);
           (count, ss) = (if pfd_revents p AND (POLLIN OR POLLRDNORM) \<noteq> 0
             then (count + 1, ss\<lparr>sel_read := fdset_set (sel_read ss) fd\<rparr>) else (count, ss));
           (count, ss) = (if pfd_revents p AND (POLLOUT OR POLLWRNORM) \<noteq> 0
             then (count + 1, ss\<lparr>sel_write := fdset_set (sel_write ss) fd\<rparr>) else (count, ss))
       in if pfd_revents p AND (POLLPRI OR POLLERR OR POLLHUP) \<noteq> 0
          then (count + 1, ss\<lparr>sel_except := fdset_set (sel_except ss) fd\<rparr>) else (count, ss))"

definition do_select :: "profile \<Rightarrow> (nat \<Rightarrow> world) \<Rightarrow> nat \<Rightarrow> select_sets \<Rightarrow> u32 \<Rightarrow> (nat \<times> select_sets) outcome option" where
  "do_select pf obs nfds ss timeout_ms =
     map_option (\<lambda>r. obind r (\<lambda>(ready, polls).
         let ss0 = \<lparr>sel_read = fdset_zero (sel_read ss), sel_write = fdset_zero (sel_write ss),
                     sel_except = fdset_zero (sel_except ss)\<rparr> in
         if ready = 0 then Done (ready, ss0) else Done (fold select_mark polls (0, ss0))))
       (do_poll pf obs (select_request nfds (sel_read ss) (sel_write ss) (sel_except ss)) timeout_ms)"

section \<open>What the loop returns\<close>

text \<open>In a world whose current table is initialised, readiness is a value.\<close>

definition world_ok :: "world \<Rightarrow> bool" where
  "world_ok w \<longleftrightarrow> fdt_invar (current_table (w_current w) (w_fds w))"

definition revents_of :: "world \<Rightarrow> u64 \<Rightarrow> u16 \<Rightarrow> u16" where
  "revents_of w fd requested =
     (case fdt_slot (current_table (w_current w) (w_fds w)) (unat fd) of
        None \<Rightarrow> POLLNVAL
      | Some f \<Rightarrow> kind_readiness w (of_kind f) requested OR stdio_readiness w fd requested)"

lemma fd_readiness_eq: "world_ok w \<Longrightarrow> fd_readiness w fd requested = Done (revents_of w fd requested)"
proof -
  assume ok: "world_ok w"
  have big: "4096 \<le> fd \<Longrightarrow> \<not> unat fd < MAX_OPEN_FILES"
    by (auto simp: MAX_OPEN_FILES_def word_le_nat_alt)
  show ?thesis
  proof (cases "unat fd < MAX_OPEN_FILES")
    case True
    with big have "\<not> 4096 \<le> fd" by blast
    with True ok show ?thesis
      by (simp add: fd_readiness_def world_ok_def fdt_get_def revents_of_def split: option.split)
  next
    case False
    then show ?thesis by (simp add: fd_readiness_def fdt_get_def revents_of_def fdt_slot_def)
  qed
qed

definition scanned :: "world \<Rightarrow> poll_fd list \<Rightarrow> poll_fd list" where
  "scanned w = map (\<lambda>p. p\<lparr>pfd_revents := revents_of w (scast (pfd_fd p)) (pfd_events p)\<rparr>)"

definition ready_fds :: "world \<Rightarrow> poll_fd list \<Rightarrow> nat" where
  "ready_fds w fds = length (filter (\<lambda>p. pfd_revents p \<noteq> 0) (scanned w fds))"

lemma poll_scan_eq: "world_ok w \<Longrightarrow> poll_scan w fds = Done (ready_fds w fds, scanned w fds)"
  by (induction fds) (simp_all add: fd_readiness_eq scanned_def ready_fds_def)

lemma scanned_scanned [simp]: "scanned w (scanned w' fds) = scanned w fds"
  by (simp add: scanned_def)

lemma ready_scanned [simp]: "ready_fds w (scanned w' fds) = ready_fds w fds"
  by (simp add: ready_fds_def)

text \<open>The condition under which iteration \<open>i\<close> is the last one.\<close>

definition poll_stops :: "(nat \<Rightarrow> world) \<Rightarrow> poll_fd list \<Rightarrow> u32 \<Rightarrow> u64 \<Rightarrow> nat \<Rightarrow> bool" where
  "poll_stops obs fds timeout_ms deadline i \<longleftrightarrow>
     0 < ready_fds (obs i) fds \<or> timeout_ms = 0 \<or> deadline \<le> w_ticks (obs i)"

lemma poll_loop_unfold:
  assumes "\<And>i. world_ok (obs i)"
  shows "poll_loop obs i fds timeout_ms deadline =
    (if poll_stops obs fds timeout_ms deadline i then Some (Done (ready_fds (obs i) fds, scanned (obs i) fds))
     else poll_loop obs (Suc i) (scanned (obs i) fds) timeout_ms deadline)"
  by (subst poll_loop.simps) (simp add: poll_scan_eq assms poll_stops_def)

lemma poll_stops_scanned [simp]:
  "poll_stops obs (scanned w fds) timeout_ms deadline i \<longleftrightarrow> poll_stops obs fds timeout_ms deadline i"
  by (simp add: poll_stops_def)

lemma poll_loop_first:
  assumes "\<And>i. world_ok (obs i)" and "poll_stops obs fds timeout_ms deadline (i + k)"
    and "\<And>j. j < k \<Longrightarrow> \<not> poll_stops obs fds timeout_ms deadline (i + j)"
  shows "poll_loop obs i fds timeout_ms deadline = Some (Done (ready_fds (obs (i + k)) fds, scanned (obs (i + k)) fds))"
  using assms(2,3)
proof (induction k arbitrary: i fds)
  case 0
  then show ?case by (subst poll_loop_unfold [OF assms(1)]) simp
next
  case (Suc k)
  from Suc.prems(2) [of 0] have "\<not> poll_stops obs fds timeout_ms deadline i" by simp
  moreover have "poll_loop obs (Suc i) (scanned (obs i) fds) timeout_ms deadline =
      Some (Done (ready_fds (obs (Suc i + k)) (scanned (obs i) fds), scanned (obs (Suc i + k)) (scanned (obs i) fds)))"
    using Suc.prems(1) Suc.prems(2) [of "Suc _"] by (intro Suc.IH) auto
  ultimately show ?case by (subst poll_loop_unfold [OF assms(1)]) simp
qed

lemma poll_loop_returns_stops:
  assumes "poll_loop obs i fds timeout_ms deadline = Some r"
  shows "(\<forall>i. world_ok (obs i)) \<longrightarrow> (\<exists>k \<ge> i. poll_stops obs fds timeout_ms deadline k)"
proof (rule poll_loop.raw_induct [OF _ assms], intro impI)
  fix f :: "(nat \<Rightarrow> world) \<Rightarrow> nat \<Rightarrow> poll_fd list \<Rightarrow> u32 \<Rightarrow> u64 \<Rightarrow> (nat \<times> poll_fd list) outcome option"
    and obs i fds t d r
  assume IH: "\<And>obs i fds t d r. f obs i fds t d = Some r \<Longrightarrow> (\<forall>i. world_ok (obs i)) \<longrightarrow> (\<exists>k \<ge> i. poll_stops obs fds t d k)"
    and body: "(case poll_scan (obs i) fds of
        Panic \<Rightarrow> Some Panic
      | Stuck \<Rightarrow> Some Stuck
      | Done (ready, fds') \<Rightarrow>
          if 0 < ready \<or> t = 0 then Some (Done (ready, fds'))
          else if d \<le> w_ticks (obs i) then Some (Done (0, fds'))
          else f obs (Suc i) fds' t d) = Some r"
    and ok: "\<forall>i. world_ok (obs i)"
  show "\<exists>k \<ge> i. poll_stops obs fds t d k"
  proof (cases "poll_stops obs fds t d i")
    case False
    then have stay: "ready_fds (obs i) fds = 0" "t \<noteq> 0" "\<not> d \<le> w_ticks (obs i)" by (auto simp: poll_stops_def)
    have "f obs (Suc i) (scanned (obs i) fds) t d = Some r"
      using body ok stay by (simp add: poll_scan_eq)
    from IH [OF this] ok obtain k where "Suc i \<le> k" "poll_stops obs fds t d k" by auto
    then show ?thesis by (auto intro: exI [of _ k])
  qed blast
qed

lemma poll_loop_spec:
  assumes "\<And>i. world_ok (obs i)" and "\<exists>i. poll_stops obs fds timeout_ms deadline i"
  shows "\<exists>k. poll_loop obs 0 fds timeout_ms deadline = Some (Done (ready_fds (obs k) fds, scanned (obs k) fds))
    \<and> poll_stops obs fds timeout_ms deadline k \<and> (\<forall>j < k. \<not> poll_stops obs fds timeout_ms deadline j)"
proof -
  obtain k where k: "poll_stops obs fds timeout_ms deadline k" "\<forall>j < k. \<not> poll_stops obs fds timeout_ms deadline j"
    using exists_least_iff [of "poll_stops obs fds timeout_ms deadline"] assms(2) by blast
  with poll_loop_first [OF assms(1), where i = 0 and k = k and fds = fds and timeout_ms = timeout_ms and deadline = deadline]
  show ?thesis by (intro exI [of _ k]) simp
qed

lemma poll_loop_forever:
  assumes "\<And>i. world_ok (obs i)" and "\<nexists>i. poll_stops obs fds timeout_ms deadline i"
  shows "poll_loop obs 0 fds timeout_ms deadline = None"
  using poll_loop_returns_stops [of obs 0 fds timeout_ms deadline] assms
  by (cases "poll_loop obs 0 fds timeout_ms deadline") auto

lemma poll_deadline_timed:
  assumes "0 \<le> sint timeout_ms" and "unat start + max (unat timeout_ms div 55) 1 < 2 ^ 64"
  shows "\<exists>d. poll_deadline pf start timeout_ms = Done d \<and> unat d = unat start + max (unat timeout_ms div 55) 1"
proof -
  have v: "unat (max (scast timeout_ms div MS_PER_TICK) 1 :: u64) = max (unat timeout_ms div 55) 1"
    by (simp add: scast_nonneg [OF assms(1)] max_def MS_PER_TICK_def word_le_nat_alt unat_div unat_ucast_up)
  have "poll_deadline pf start timeout_ms = Done (start + max (scast timeout_ms div MS_PER_TICK) 1)"
    using assms v by (simp add: poll_deadline_def add_checked_small)
  moreover have "unat (start + max (scast timeout_ms div MS_PER_TICK) 1) = unat start + max (unat timeout_ms div 55) 1"
    using assms(2) v by (simp add: unat_word_ariths)
  ultimately show ?thesis by blast
qed


lemma do_poll_first:
  assumes "\<And>i. world_ok (obs i)" and "poll_deadline pf (w_ticks (obs 0)) timeout_ms = Done d"
    and n: "poll_stops obs fds timeout_ms d n"
  shows "\<exists>k \<le> n. do_poll pf obs fds timeout_ms = Some (Done (ready_fds (obs k) fds, scanned (obs k) fds))
    \<and> poll_stops obs fds timeout_ms d k \<and> (\<forall>j < k. \<not> poll_stops obs fds timeout_ms d j)"
proof -
  from poll_loop_spec [OF assms(1) exI, OF n]
  obtain k where k: "poll_loop obs 0 fds timeout_ms d = Some (Done (ready_fds (obs k) fds, scanned (obs k) fds))"
      "poll_stops obs fds timeout_ms d k" "\<forall>j < k. \<not> poll_stops obs fds timeout_ms d j"
    by blast
  with n have "k \<le> n" by (meson not_le)
  with k show ?thesis by (intro exI [of _ k]) (simp add: do_poll_def assms(2))
qed

text \<open>
  C24: \<open>poll\<close> with a finite timeout returns as soon as the clock reaches the deadline, which is the timeout in ticks of 55 ms
  and at least one tick after the start. The value is that of the first iteration in which a descriptor was ready or the
  deadline had passed (the first one at all for a timeout of 0): the number of ready descriptors, with the events
  of every descriptor as they were in that iteration. No earlier iteration saw a ready descriptor.
\<close>

theorem poll_returns:
  assumes "\<And>i. world_ok (obs i)" and "0 \<le> sint timeout_ms"
    and "deadline = unat (w_ticks (obs 0)) + max (unat timeout_ms div 55) 1" and "deadline < 2 ^ 64"
    and "deadline \<le> unat (w_ticks (obs n))"
  shows "\<exists>k \<le> n. do_poll pf obs fds timeout_ms = Some (Done (ready_fds (obs k) fds, scanned (obs k) fds))
    \<and> (0 < ready_fds (obs k) fds \<or> timeout_ms = 0 \<or> deadline \<le> unat (w_ticks (obs k)))
    \<and> (\<forall>j < k. ready_fds (obs j) fds = 0 \<and> unat (w_ticks (obs j)) < deadline)"
proof -
  obtain d where d: "poll_deadline pf (w_ticks (obs 0)) timeout_ms = Done d" "unat d = deadline"
    using poll_deadline_timed [OF assms(2)] assms(3,4) by metis
  have stops: "poll_stops obs fds timeout_ms d i \<longleftrightarrow>
      0 < ready_fds (obs i) fds \<or> timeout_ms = 0 \<or> deadline \<le> unat (w_ticks (obs i))" for i
    by (simp add: poll_stops_def word_le_nat_alt d(2))
  with assms(5) have "poll_stops obs fds timeout_ms d n" by blast
  from do_poll_first [OF assms(1) d(1) this] show ?thesis by (simp add: stops not_le) blast
qed

text \<open>Without a timeout and without anything becoming ready, \<open>poll\<close> waits as long as the clock runs.\<close>

lemma poll_blocks:
  assumes "\<And>i. world_ok (obs i)" and "sint timeout_ms < 0"
    and "\<And>i. ready_fds (obs i) fds = 0" and "\<And>i. w_ticks (obs i) \<noteq> - 1"
  shows "do_poll pf obs fds timeout_ms = None"
proof -
  have "timeout_ms \<noteq> 0" using assms(2) by auto
  then have "\<not> poll_stops obs fds timeout_ms (- 1) i" for i
    using assms(3,4) by (simp add: poll_stops_def word_order.extremum_unique)
  then show ?thesis using assms(2) poll_loop_forever [OF assms(1)] by (simp add: do_poll_def poll_deadline_def)
qed

definition wit_world :: "nat \<Rightarrow> world" where
  "wit_world i = \<lparr>w_current = None,
     w_fds = \<lparr>KERNEL_FD_TABLE = \<lparr>fdt_files = map (\<lambda>p. Some (of_new p 0)) [''/dev/stdin'', ''/dev/stdout'', ''/dev/stderr'']
                 @ [Some (of_new_pipe_read 0)] @ replicate 252 None\<rparr>,
               PROCESS_FD_TABLES = Map.empty, PIPE_TABLE = \<lparr>pt_pipes = [Some pipe_new]\<rparr>\<rparr>,
     w_tty = TTY0, w_ticks = word_of_nat i\<rparr>"

lemma wit_world_ok: "world_ok (wit_world i)"
  by (auto simp: world_ok_def wit_world_def current_table_def fdt_invar_def MAX_OPEN_FILES_def of_new_def
      of_new_pipe_read_def less_Suc_eq numeral_3_eq_3)

theorem poll_returns_witness:
  "\<exists>k \<le> 2. do_poll Dev wit_world [\<lparr>pfd_fd = 3, pfd_events = 1, pfd_revents = 0\<rparr>] 110 =
     Some (Done (ready_fds (wit_world k) [\<lparr>pfd_fd = 3, pfd_events = 1, pfd_revents = 0\<rparr>],
                 scanned (wit_world k) [\<lparr>pfd_fd = 3, pfd_events = 1, pfd_revents = 0\<rparr>]))"
proof -
  have t: "unat (w_ticks (wit_world 0)) = 0" "unat (w_ticks (wit_world 2)) = 2" by (simp_all add: wit_world_def)
  have "(0 :: int) \<le> sint (110 :: u32)" by simp
  from poll_returns [of wit_world 110 2 2 Dev "[\<lparr>pfd_fd = 3, pfd_events = 1, pfd_revents = 0\<rparr>]", OF wit_world_ok this]
  show ?thesis by (auto simp: t)
qed

text \<open>Standard input is an ordinary entry of the table, so it is reported readable even when the terminal has nothing to read.\<close>

lemma stdin_always_ready: "revents_of (wit_world i) 0 POLLIN = POLLIN OR POLLRDNORM" "bytes_available (w_tty (wit_world i)) = 0"
  by (simp_all add: revents_of_def wit_world_def current_table_def fdt_slot_def MAX_OPEN_FILES_def of_new_def kind_readiness_def
      stdio_readiness_def poll_flags bytes_available_def TTY0_def tty_new_def)

section \<open>Descriptor sets as sets\<close>

definition fdset_ok :: "fd_set \<Rightarrow> bool" where
  "fdset_ok s \<longleftrightarrow> length s = FD_SETSIZE div 64"

definition fdset_abs :: "fd_set \<Rightarrow> nat set" where
  "fdset_abs s = {fd. fdset_is_set s fd}"

lemma fdset_ok_ops [simp]:
  "fdset_ok fdset_empty" "fdset_ok s \<Longrightarrow> fdset_ok (fdset_set s fd)" "fdset_ok s \<Longrightarrow> fdset_ok (fdset_clear s fd)"
  "fdset_ok s \<Longrightarrow> fdset_ok (fdset_zero s)"
  by (simp_all add: fdset_ok_def fdset_empty_def fdset_set_def fdset_clear_def fdset_zero_def)

lemma same_word_bit: "(x :: nat) div 64 = y div 64 \<Longrightarrow> x mod 64 = y mod 64 \<Longrightarrow> x = y"
  by (metis div_mod_decomp)

lemma fdset_index: "fdset_ok s \<Longrightarrow> fd < FD_SETSIZE \<Longrightarrow> fd div 64 < length s"
  by (simp add: fdset_ok_def FD_SETSIZE_def)

lemma is_set_iff: "fdset_is_set s fd \<longleftrightarrow> fd < FD_SETSIZE \<and> bit (s ! (fd div 64)) (fd mod 64)"
  by (simp add: fdset_is_set_def bit_flag_simps)

lemma is_set_set:
  "fdset_ok s \<Longrightarrow> fdset_is_set (fdset_set s fd) x \<longleftrightarrow> x < FD_SETSIZE \<and> (x = fd \<or> fdset_is_set s x)"
  using fdset_index [of s fd] fdset_index [of s x] same_word_bit [of x fd]
  by (auto simp: fdset_set_def is_set_iff nth_list_update bit_set_mask)

lemma is_set_clear: "fdset_ok s \<Longrightarrow> fdset_is_set (fdset_clear s fd) x \<longleftrightarrow> x \<noteq> fd \<and> fdset_is_set s x"
  using fdset_index [of s fd] fdset_index [of s x] same_word_bit [of x fd]
  by (auto simp: fdset_clear_def is_set_iff nth_list_update bit_clear_mask)

lemma is_set_zero [simp]: "fdset_ok s \<Longrightarrow> \<not> fdset_is_set (fdset_zero s) x"
  using fdset_index [of s x] by (auto simp: is_set_iff fdset_zero_def)

lemma is_set_empty [simp]: "\<not> fdset_is_set fdset_empty x"
proof -
  have "x < FD_SETSIZE \<Longrightarrow> x div 64 < FD_SETSIZE div 64" by (simp add: FD_SETSIZE_def)
  then show ?thesis by (auto simp: is_set_iff fdset_empty_def)
qed

lemma fdset_abs_ops:
  "fdset_abs fdset_empty = {}" "fdset_ok s \<Longrightarrow> fdset_abs (fdset_zero s) = {}"
  "fdset_ok s \<Longrightarrow> fdset_abs (fdset_set s fd) = (if fd < FD_SETSIZE then insert fd (fdset_abs s) else fdset_abs s)"
  "fdset_ok s \<Longrightarrow> fdset_abs (fdset_clear s fd) = fdset_abs s - {fd}"
  by (auto simp: fdset_abs_def is_set_set is_set_clear) (auto simp: is_set_iff)


section \<open>What \<open>select\<close> returns\<close>

definition pfd_index :: "poll_fd \<Rightarrow> nat" where
  "pfd_index p = unat (scast (pfd_fd p) :: u64)"

definition hits :: "u16 \<Rightarrow> poll_fd list \<Rightarrow> poll_fd list" where
  "hits m ps = filter (\<lambda>p. pfd_revents p AND m \<noteq> 0) ps"

abbreviation "read_mask \<equiv> POLLIN OR POLLRDNORM"
abbreviation "write_mask \<equiv> POLLOUT OR POLLWRNORM"
abbreviation "except_mask \<equiv> POLLPRI OR POLLERR OR POLLHUP"

definition sets_ok :: "select_sets \<Rightarrow> bool" where
  "sets_ok ss \<longleftrightarrow> fdset_ok (sel_read ss) \<and> fdset_ok (sel_write ss) \<and> fdset_ok (sel_except ss)"

lemma select_mark_spec:
  assumes "sets_ok ss" and "pfd_index p < FD_SETSIZE" and "select_mark p (n, ss) = (n', ss')"
  shows "sets_ok ss' \<and> fdset_abs (sel_read ss') = fdset_abs (sel_read ss) \<union> pfd_index ` set (hits read_mask [p])
    \<and> fdset_abs (sel_write ss') = fdset_abs (sel_write ss) \<union> pfd_index ` set (hits write_mask [p])
    \<and> fdset_abs (sel_except ss') = fdset_abs (sel_except ss) \<union> pfd_index ` set (hits except_mask [p])
    \<and> n' = n + length (hits read_mask [p]) + length (hits write_mask [p]) + length (hits except_mask [p])"
  using assms by (auto simp: select_mark_def sets_ok_def hits_def fdset_abs_ops pfd_index_def Let_def split: if_splits)

lemma hits_Cons: "hits m (p # ps) = hits m [p] @ hits m ps"
  by (simp add: hits_def)

lemma select_fold_spec:
  assumes "sets_ok ss" and "\<forall>p \<in> set ps. pfd_index p < FD_SETSIZE" and "fold select_mark ps (n, ss) = (n', ss')"
  shows "sets_ok ss' \<and> fdset_abs (sel_read ss') = fdset_abs (sel_read ss) \<union> pfd_index ` set (hits read_mask ps)
    \<and> fdset_abs (sel_write ss') = fdset_abs (sel_write ss) \<union> pfd_index ` set (hits write_mask ps)
    \<and> fdset_abs (sel_except ss') = fdset_abs (sel_except ss) \<union> pfd_index ` set (hits except_mask ps)
    \<and> n' = n + length (hits read_mask ps) + length (hits write_mask ps) + length (hits except_mask ps)"
  using assms
proof (induction ps arbitrary: n ss)
  case Nil
  then show ?case by (simp add: hits_def)
next
  case (Cons p ps)
  obtain n1 ss1 where st: "select_mark p (n, ss) = (n1, ss1)" by fastforce
  with Cons.prems have "fold select_mark ps (n1, ss1) = (n', ss')" by simp
  note IH = Cons.IH [OF _ _ this] and S = select_mark_spec [OF Cons.prems(1) _ st]
  from IH S Cons.prems(2) show ?case unfolding hits_Cons [of _ p ps] by (simp add: image_Un Un_assoc)
qed

text \<open>The requested descriptors and what a set is answered with when the loop ends in world \<open>w\<close>.\<close>

definition select_revents :: "world \<Rightarrow> select_sets \<Rightarrow> nat \<Rightarrow> u16" where
  "select_revents w ss fd = revents_of w (word_of_nat fd) (select_events (sel_read ss) (sel_write ss) (sel_except ss) fd)"

definition selected :: "world \<Rightarrow> nat \<Rightarrow> select_sets \<Rightarrow> u16 \<Rightarrow> nat set" where
  "selected w nfds ss m =
     {fd. fd < nfds \<and> fd \<in> fdset_abs (sel_read ss) \<union> fdset_abs (sel_write ss) \<union> fdset_abs (sel_except ss)
          \<and> select_revents w ss fd AND m \<noteq> 0}"

lemma select_events_nonzero:
  "select_events r w e fd \<noteq> 0 \<longleftrightarrow> fdset_is_set r fd \<or> fdset_is_set w fd \<or> fdset_is_set e fd"
  by (auto simp: select_events_def poll_flags)

lemma small_fd: "fd < FD_SETSIZE \<Longrightarrow> (scast (word_of_nat fd :: u32) :: u64) = word_of_nat fd"
proof -
  assume "fd < FD_SETSIZE"
  then have fd: "fd < 1024" by (simp add: FD_SETSIZE_def)
  then have "sint (word_of_nat fd :: u32) = int fd"
    by (simp add: signed_of_nat signed_take_bit_int_eq_self)
  then show ?thesis by (simp add: scast_eq)
qed

definition select_list :: "nat \<Rightarrow> select_sets \<Rightarrow> nat list" where
  "select_list nfds ss =
     filter (\<lambda>fd. select_events (sel_read ss) (sel_write ss) (sel_except ss) fd \<noteq> 0) [0..<min nfds FD_SETSIZE]"

definition answer :: "world \<Rightarrow> select_sets \<Rightarrow> nat \<Rightarrow> poll_fd" where
  "answer w ss fd = \<lparr>pfd_fd = word_of_nat fd, pfd_events = select_events (sel_read ss) (sel_write ss) (sel_except ss) fd,
     pfd_revents = select_revents w ss fd\<rparr>"

lemma scanned_request:
  "scanned w (select_request nfds (sel_read ss) (sel_write ss) (sel_except ss)) = map (answer w ss) (select_list nfds ss)"
proof -
  have "fd \<in> set (select_list nfds ss) \<Longrightarrow> fd < FD_SETSIZE" for fd by (simp add: select_list_def)
  then show ?thesis
    by (simp add: scanned_def select_request_def select_list_def answer_def select_revents_def small_fd)
qed

lemma answer_index: "fd < FD_SETSIZE \<Longrightarrow> pfd_index (answer w ss fd) = fd"
  by (simp add: pfd_index_def answer_def small_fd FD_SETSIZE_def unat_of_nat)

lemma set_select_list:
  "set (select_list nfds ss) = {fd. fd < nfds \<and> fd \<in> fdset_abs (sel_read ss) \<union> fdset_abs (sel_write ss) \<union> fdset_abs (sel_except ss)}"
  by (auto simp: select_list_def select_events_nonzero fdset_abs_def is_set_iff)

lemma hits_answers:
  fixes w ss nfds m
  defines "hs \<equiv> hits m (map (answer w ss) (select_list nfds ss))"
  shows "pfd_index ` set hs = selected w nfds ss m" and "length hs = card (selected w nfds ss m)"
proof -
  let ?L = "filter (\<lambda>fd. select_revents w ss fd AND m \<noteq> 0) (select_list nfds ss)"
  have hs: "hs = map (answer w ss) ?L" by (simp add: hs_def hits_def filter_map comp_def answer_def)
  have sel: "set ?L = selected w nfds ss m" by (auto simp: set_select_list selected_def)
  have "pfd_index ` set hs = (\<lambda>fd. pfd_index (answer w ss fd)) ` set ?L" by (auto simp: hs image_iff)
  also have "\<dots> = (\<lambda>fd. fd) ` set ?L" by (rule image_cong) (auto simp: select_list_def answer_index)
  finally show "pfd_index ` set hs = selected w nfds ss m" using sel by simp
  have "distinct ?L" by (simp add: select_list_def)
  then show "length hs = card (selected w nfds ss m)" using distinct_card [of ?L] sel by (simp add: hs)
qed

lemma no_hits: "ready_fds w req = 0 \<Longrightarrow> hits m (scanned w req) = []"
  by (auto simp: ready_fds_def hits_def filter_empty_conv)

lemma select_answer:
  assumes "sets_ok ss" and "req = select_request nfds (sel_read ss) (sel_write ss) (sel_except ss)"
    and "do_poll pf obs req timeout_ms = Some (Done (ready_fds w req, scanned w req))"
  shows "\<exists>c ss'. do_select pf obs nfds ss timeout_ms = Some (Done (c, ss'))
    \<and> fdset_abs (sel_read ss') = selected w nfds ss read_mask \<and> fdset_abs (sel_write ss') = selected w nfds ss write_mask
    \<and> fdset_abs (sel_except ss') = selected w nfds ss except_mask
    \<and> c = card (selected w nfds ss read_mask) + card (selected w nfds ss write_mask) + card (selected w nfds ss except_mask)"
proof -
  let ?z = "\<lparr>sel_read = fdset_zero (sel_read ss), sel_write = fdset_zero (sel_write ss), sel_except = fdset_zero (sel_except ss)\<rparr>"
  have sc: "scanned w req = map (answer w ss) (select_list nfds ss)" by (simp add: assms(2) scanned_request)
  have z: "sets_ok ?z" "fdset_abs (sel_read ?z) = {}" "fdset_abs (sel_write ?z) = {}" "fdset_abs (sel_except ?z) = {}"
    using assms(1) by (simp_all add: sets_ok_def fdset_abs_ops)
  have small: "\<forall>p \<in> set (scanned w req). pfd_index p < FD_SETSIZE" by (auto simp: sc select_list_def answer_index)
  note h = hits_answers [where w = w and ss = ss and nfds = nfds, folded sc]
  show ?thesis
  proof (cases "ready_fds w req = 0")
    case True
    have none: "selected w nfds ss m = {}" for m using h(1) [of m] no_hits [OF True] by simp
    show ?thesis
      by (rule exI [of _ 0], rule exI [of _ ?z]) (use assms(2,3) z True none in \<open>simp add: do_select_def\<close>)
  next
    case False
    obtain c ss' where f: "fold select_mark (scanned w req) (0, ?z) = (c, ss')" by fastforce
    from select_fold_spec [OF z(1) small f] z(2-4) h
    have "fdset_abs (sel_read ss') = selected w nfds ss read_mask" "fdset_abs (sel_write ss') = selected w nfds ss write_mask"
      "fdset_abs (sel_except ss') = selected w nfds ss except_mask"
      "c = card (selected w nfds ss read_mask) + card (selected w nfds ss write_mask) + card (selected w nfds ss except_mask)"
      by simp_all
    then show ?thesis
      by (intro exI [of _ c] exI [of _ ss']) (use assms(2,3) False f in \<open>simp add: do_select_def\<close>)
  qed
qed

text \<open>
  C23: \<open>select\<close> with a finite timeout returns, and its answer is that of one iteration: each returned set holds exactly the
  requested descriptors below \<open>nfds\<close> for which that iteration saw an event of the set's kind (readable; writable;
  exceptional, error or hang-up), and the count is the sum of the sizes of the three sets. In no earlier iteration was any
  requested descriptor ready.
\<close>

theorem select_spec:
  assumes "\<And>i. world_ok (obs i)" and "0 \<le> sint timeout_ms" and "sets_ok ss"
    and "deadline = unat (w_ticks (obs 0)) + max (unat timeout_ms div 55) 1" and "deadline < 2 ^ 64"
    and "deadline \<le> unat (w_ticks (obs n))"
  shows "\<exists>k c ss'. k \<le> n \<and> do_select pf obs nfds ss timeout_ms = Some (Done (c, ss'))
    \<and> fdset_abs (sel_read ss') = selected (obs k) nfds ss read_mask
    \<and> fdset_abs (sel_write ss') = selected (obs k) nfds ss write_mask
    \<and> fdset_abs (sel_except ss') = selected (obs k) nfds ss except_mask
    \<and> c = card (selected (obs k) nfds ss read_mask) + card (selected (obs k) nfds ss write_mask)
          + card (selected (obs k) nfds ss except_mask)
    \<and> (\<forall>j < k. \<forall>m. selected (obs j) nfds ss m = {})"
proof -
  let ?req = "select_request nfds (sel_read ss) (sel_write ss) (sel_except ss)"
  obtain d where d: "poll_deadline pf (w_ticks (obs 0)) timeout_ms = Done d" "unat d = deadline"
    using poll_deadline_timed [OF assms(2)] assms(4,5) by metis
  have "poll_stops obs ?req timeout_ms d n" using assms(6) d(2) by (simp add: poll_stops_def word_le_nat_alt)
  from do_poll_first [OF assms(1) d(1) this] obtain k where k: "k \<le> n"
      "do_poll pf obs ?req timeout_ms = Some (Done (ready_fds (obs k) ?req, scanned (obs k) ?req))"
      "\<forall>j < k. \<not> poll_stops obs ?req timeout_ms d j"
    by blast
  have "selected (obs j) nfds ss m = {}" if "j < k" for j m
    using k(3) that hits_answers(1) [of m "obs j" ss nfds] no_hits [of "obs j" ?req m]
    by (simp add: poll_stops_def scanned_request)
  with k(1) select_answer [OF assms(3) refl k(2)] show ?thesis by blast
qed

lemma wit_sets_ok: "sets_ok \<lparr>sel_read = fdset_set fdset_empty 3, sel_write = fdset_set fdset_empty 2, sel_except = fdset_empty\<rparr>"
  by (simp add: sets_ok_def)

theorem select_spec_witness:
  "\<exists>c ss'. do_select Dev wit_world 4
      \<lparr>sel_read = fdset_set fdset_empty 3, sel_write = fdset_set fdset_empty 2, sel_except = fdset_empty\<rparr> 110 = Some (Done (c, ss'))"
proof -
  have t: "unat (w_ticks (wit_world 0)) = 0" "unat (w_ticks (wit_world 2)) = 2" by (simp_all add: wit_world_def)
  have "(0 :: int) \<le> sint (110 :: u32)" by simp
  from select_spec [of wit_world 110 _ 2 2 Dev 4, OF wit_world_ok this wit_sets_ok] show ?thesis by (auto simp: t)
qed

text \<open>A closed descriptor makes \<open>select\<close> return at once with a count of 0 and no descriptor set: the \<open>POLLNVAL\<close> it polls as is dropped.\<close>

lemma selected_nval: "fdt_slot (current_table (w_current w) (w_fds w)) fd = None \<Longrightarrow> fd < FD_SETSIZE \<Longrightarrow>
  fd \<notin> selected w nfds ss read_mask \<union> selected w nfds ss write_mask \<union> selected w nfds ss except_mask"
  by (simp add: selected_def select_revents_def revents_of_def unat_of_nat FD_SETSIZE_def poll_flags)

end
