(* ===== verification/Epoll.thy ===== *)
theory Epoll
  imports Poll
begin

text \<open>
  \<open>epoll\<close> (\<^verbatim>\<open>src/syscall/epoll.rs\<close>): the table of instances, the interest map of an instance (a \<open>BTreeMap\<close>, here the
  association list of its entries in ascending order of the signed descriptor), and the wait loop, which looks at a
  sequence of worlds like the one of \<open>poll\<close>. No other process touches the table while a call waits.
\<close>

section \<open>Instances and the table\<close>

definition EPOLLIN :: u32 where "EPOLLIN = 0x001"
definition EPOLLPRI :: u32 where "EPOLLPRI = 0x002"
definition EPOLLOUT :: u32 where "EPOLLOUT = 0x004"
definition EPOLLERR :: u32 where "EPOLLERR = 0x008"
definition EPOLLHUP :: u32 where "EPOLLHUP = 0x010"
definition EPOLLET :: u32 where "EPOLLET = 0x80000000"

lemmas epoll_flags = EPOLLIN_def EPOLLPRI_def EPOLLOUT_def EPOLLERR_def EPOLLHUP_def EPOLLET_def

definition EPOLL_CTL_ADD :: u32 where "EPOLL_CTL_ADD = 1"
definition EPOLL_CTL_DEL :: u32 where "EPOLL_CTL_DEL = 2"
definition EPOLL_CTL_MOD :: u32 where "EPOLL_CTL_MOD = 3"

record epoll_event =
  ev_events :: u32
  ev_data :: u64

record interest_entry =
  ie_events :: u32
  ie_data :: u64
  ie_last_revents :: u16

type_synonym interest = "(u32 \<times> interest_entry) list"
type_synonym epoll_table = "interest option list"

text \<open>\<open>BTreeMap::insert\<close>, \<open>get_mut\<close> and \<open>remove\<close> on the ordered entries.\<close>

fun bt_insert :: "u32 \<Rightarrow> 'v \<Rightarrow> (u32 \<times> 'v) list \<Rightarrow> (u32 \<times> 'v) list" where
  "bt_insert k v [] = [(k, v)]"
| "bt_insert k v ((k', v') # xs) =
     (if k = k' then (k, v) # xs else if sint k < sint k' then (k, v) # (k', v') # xs else (k', v') # bt_insert k v xs)"

definition bt_remove :: "u32 \<Rightarrow> (u32 \<times> 'v) list \<Rightarrow> (u32 \<times> 'v) list" where
  "bt_remove k xs = filter (\<lambda>(k', v). k' \<noteq> k) xs"

definition ep_create :: "epoll_table \<Rightarrow> u32 \<times> epoll_table" where
  "ep_create t =
     (case position ((=) None) t of
        Some i \<Rightarrow> (word_of_nat i, t[i := Some []])
      | None \<Rightarrow> (word_of_nat (length t), t @ [Some []]))"

definition ep_get_mut :: "epoll_table \<Rightarrow> u32 \<Rightarrow> interest option" where
  "ep_get_mut t ep =
     (if sint ep < 0 then None else if unat ep < length t then t ! unat ep else None)"

definition ep_store :: "epoll_table \<Rightarrow> u32 \<Rightarrow> interest \<Rightarrow> epoll_table" where
  "ep_store t ep inst = t[unat ep := Some inst]"

definition ep_close :: "epoll_table \<Rightarrow> u32 \<Rightarrow> epoll_table" where
  "ep_close t ep = (if 0 \<le> sint ep \<and> unat ep < length t then t[unat ep := None] else t)"

definition epoll_create :: "epoll_table \<Rightarrow> u32 \<times> epoll_table" where
  "epoll_create t = ep_create t"

definition epoll_close :: "epoll_table \<Rightarrow> u32 \<Rightarrow> epoll_table" where
  "epoll_close t epfd = ep_close t epfd"

section \<open>\<open>epoll_ctl\<close>\<close>

definition epoll_ctl :: "epoll_table \<Rightarrow> u32 \<Rightarrow> u32 \<Rightarrow> u32 \<Rightarrow> epoll_event \<Rightarrow> int \<times> epoll_table" where
  "epoll_ctl t epfd op fd ev =
     (case ep_get_mut t epfd of
        None \<Rightarrow> (- 22, t)
      | Some inst \<Rightarrow>
          if op = EPOLL_CTL_ADD then
            (if map_of inst fd \<noteq> None then (- 17, t)
             else (0, ep_store t epfd (bt_insert fd \<lparr>ie_events = ev_events ev, ie_data = ev_data ev, ie_last_revents = 0\<rparr> inst)))
          else if op = EPOLL_CTL_MOD then
            (case map_of inst fd of
               Some e \<Rightarrow> (0, ep_store t epfd (bt_insert fd (e\<lparr>ie_events := ev_events ev, ie_data := ev_data ev\<rparr>) inst))
             | None \<Rightarrow> (- 2, t))
          else if op = EPOLL_CTL_DEL then
            (if map_of inst fd \<noteq> None then (0, ep_store t epfd (bt_remove fd inst)) else (- 2, t))
          else (- 22, t))"

section \<open>\<open>epoll_wait\<close>\<close>

definition poll_request :: "u32 \<Rightarrow> u16" where
  "poll_request events =
     (if events AND EPOLLIN \<noteq> 0 then POLLIN else 0) OR (if events AND EPOLLOUT \<noteq> 0 then POLLOUT else 0)
     OR (if events AND EPOLLPRI \<noteq> 0 then POLLPRI else 0)"

definition emitted :: "u16 \<Rightarrow> u32" where
  "emitted revents =
     (if revents AND POLLIN \<noteq> 0 then EPOLLIN else 0) OR (if revents AND POLLOUT \<noteq> 0 then EPOLLOUT else 0)
     OR (if revents AND POLLPRI \<noteq> 0 then EPOLLPRI else 0) OR (if revents AND POLLERR \<noteq> 0 then EPOLLERR else 0)
     OR (if revents AND POLLHUP \<noteq> 0 then EPOLLHUP else 0)"

text \<open>One pass over the interest list; \<open>out\<close> holds the events written so far, at most \<open>cap\<close>.\<close>

fun epoll_scan :: "world \<Rightarrow> nat \<Rightarrow> interest \<Rightarrow> epoll_event list \<Rightarrow> (epoll_event list \<times> interest) outcome" where
  "epoll_scan w cap [] out = Done (out, [])"
| "epoll_scan w cap ((fd, entry) # rest) out =
     obind (fd_readiness w (scast fd) (poll_request (ie_events entry))) (\<lambda>revents.
       if revents = 0 \<or> (ie_events entry AND EPOLLET \<noteq> 0 \<and> revents = ie_last_revents entry)
       then obind (epoll_scan w cap rest out) (\<lambda>(out', rest'). Done (out', (fd, entry) # rest'))
       else
         let out1 = (if length out < cap then out @ [\<lparr>ev_events = emitted revents, ev_data = ie_data entry\<rparr>] else out)
         in obind (epoll_scan w cap rest out1) (\<lambda>(out', rest').
              Done (out', (fd, entry\<lparr>ie_last_revents := revents\<rparr>) # rest')))"

partial_function (option) epoll_loop ::
  "(nat \<Rightarrow> world) \<Rightarrow> nat \<Rightarrow> epoll_table \<Rightarrow> u32 \<Rightarrow> nat \<Rightarrow> u32 \<Rightarrow> u64 \<Rightarrow> (int \<times> epoll_event list \<times> epoll_table) outcome option" where
  "epoll_loop obs i t epfd cap timeout_ms deadline =
     (case ep_get_mut t epfd of
        None \<Rightarrow> Some (Done (- 22, [], t))
      | Some inst \<Rightarrow>
          (case epoll_scan (obs i) cap inst [] of
             Panic \<Rightarrow> Some Panic
           | Stuck \<Rightarrow> Some Stuck
           | Done (out, inst') \<Rightarrow>
               let t' = ep_store t epfd inst' in
               if out \<noteq> [] \<or> timeout_ms = 0 then Some (Done (int (length out), out, t'))
               else if deadline \<le> w_ticks (obs i) then Some (Done (0, out, t'))
               else epoll_loop obs (Suc i) t' epfd cap timeout_ms deadline))"

text \<open>\<open>cap\<close> is the length of the caller's buffer; the result holds the entries written to it.\<close>

definition epoll_wait ::
  "profile \<Rightarrow> (nat \<Rightarrow> world) \<Rightarrow> epoll_table \<Rightarrow> u32 \<Rightarrow> nat \<Rightarrow> u32 \<Rightarrow> (int \<times> epoll_event list \<times> epoll_table) outcome option" where
  "epoll_wait pf obs t epfd cap timeout_ms =
     (if cap = 0 then Some (Done (0, [], t))
      else case poll_deadline pf (w_ticks (obs 0)) timeout_ms of
          Done deadline \<Rightarrow> epoll_loop obs 0 t epfd cap timeout_ms deadline
        | Panic \<Rightarrow> Some Panic
        | Stuck \<Rightarrow> Some Stuck)"

section \<open>The interest map\<close>

definition bt_ok :: "(u32 \<times> 'v) list \<Rightarrow> bool" where
  "bt_ok xs \<longleftrightarrow> sorted_wrt (\<lambda>a b. sint (fst a) < sint (fst b)) xs"

lemma sint_eq_iff: "sint (a :: u32) = sint b \<longleftrightarrow> a = b"
  by (metis int_word_sint signed_word_eqI)

lemma bt_set_insert: "set (bt_insert k v xs) \<subseteq> insert (k, v) (set xs)"
  by (induction k v xs rule: bt_insert.induct) auto

lemma bt_ok_Cons: "bt_ok (x # xs) \<longleftrightarrow> (\<forall>y \<in> set xs. sint (fst x) < sint (fst y)) \<and> bt_ok xs"
  by (simp add: bt_ok_def)

lemma bt_ok_insert: "bt_ok xs \<Longrightarrow> bt_ok (bt_insert k v xs)"
proof (induction k v xs rule: bt_insert.induct)
  case (2 k v k' v' xs)
  consider "k = k'" | "k \<noteq> k'" "sint k < sint k'" | "k \<noteq> k'" "sint k' < sint k" using sint_eq_iff [of k k'] by linarith
  then show ?case
  proof cases
    case 2
    then show ?thesis using \<open>bt_ok ((k', v') # xs)\<close> by (auto simp: bt_ok_Cons)
  next
    case 3
    then have "bt_ok (bt_insert k v xs)" using 2 by (simp add: bt_ok_Cons)
    then show ?thesis using 2(2) 3 bt_set_insert [of k v xs] by (auto simp: bt_ok_Cons)
  qed (use 2 in \<open>simp add: bt_ok_Cons\<close>)
qed (simp add: bt_ok_def)

lemma bt_ok_remove: "bt_ok xs \<Longrightarrow> bt_ok (bt_remove k xs)"
  by (simp add: bt_ok_def bt_remove_def sorted_wrt_filter)

lemma bt_get_insert: "bt_ok xs \<Longrightarrow> map_of (bt_insert k v xs) = (map_of xs)(k \<mapsto> v)"
proof (induction k v xs rule: bt_insert.induct)
  case (2 k v k' v' xs)
  then have IH: "map_of (bt_insert k v xs) = (map_of xs)(k \<mapsto> v)" if "k \<noteq> k'" "\<not> sint k < sint k'"
    using that by (simp add: bt_ok_def fun_eq_iff)
  show ?case by (auto simp: IH fun_eq_iff)
qed simp

lemma bt_get_remove: "map_of (bt_remove k xs) = (map_of xs)(k := None)"
  by (induction xs) (auto simp: bt_remove_def)


definition ep_ok :: "epoll_table \<Rightarrow> bool" where
  "ep_ok t \<longleftrightarrow> (\<forall>inst. Some inst \<in> set t \<longrightarrow> bt_ok inst) \<and> length t < 2 ^ 31"

text \<open>The table as the kernel documents it: numbered instances, each a map from descriptors to interest entries.\<close>

definition ep_abs :: "epoll_table \<Rightarrow> nat \<Rightarrow> (u32 \<Rightarrow> interest_entry option) option" where
  "ep_abs t i = (if i < length t then map_option map_of (t ! i) else None)"

lemma ep_index: "0 \<le> sint ep \<Longrightarrow> unat ep = nat (sint ep)" for ep :: u32
  using uint_eq_sint [of ep] by (metis nat_uint_eq)

lemma ep_get_mutD:
  assumes "ep_ok t" and "ep_get_mut t ep = Some inst"
  shows "0 \<le> sint ep \<and> unat ep < length t \<and> t ! unat ep = Some inst \<and> bt_ok inst"
  using assms by (auto simp: ep_get_mut_def ep_ok_def split: if_splits) (metis nth_mem)

lemma ep_store_abs:
  assumes "ep_ok t" and "ep_get_mut t ep = Some inst" and "bt_ok inst'"
  shows "ep_ok (ep_store t ep inst') \<and> ep_abs (ep_store t ep inst') = (ep_abs t)(unat ep \<mapsto> map_of inst')"
proof -
  have "unat ep < length t" using ep_get_mutD [OF assms(1,2)] by simp
  moreover from assms(1,3) have "ep_ok (ep_store t ep inst')"
    using set_update_subset_insert [of t "unat ep" "Some inst'"] by (auto simp: ep_ok_def ep_store_def)
  ultimately show ?thesis by (auto simp: ep_abs_def ep_store_def fun_eq_iff)
qed

section \<open>Control operations and the map\<close>

datatype ep_call = EpCreate | EpClose u32 | EpCtl u32 u32 u32 epoll_event

fun ep_step :: "ep_call \<Rightarrow> epoll_table \<Rightarrow> int \<times> epoll_table" where
  "ep_step EpCreate t = (case epoll_create t of (ep, t') \<Rightarrow> (sint ep, t'))"
| "ep_step (EpClose ep) t = (0, epoll_close t ep)"
| "ep_step (EpCtl ep op fd ev) t = epoll_ctl t ep op fd ev"

text \<open>The specification: an operation on a partial map of partial maps, with the error codes of the manual page.\<close>

type_synonym aepoll = "nat \<Rightarrow> (u32 \<Rightarrow> interest_entry option) option"

definition aep_ctl :: "nat \<Rightarrow> u32 \<Rightarrow> u32 \<Rightarrow> epoll_event \<Rightarrow> aepoll \<Rightarrow> int \<times> aepoll" where
  "aep_ctl i op fd ev m =
     (case m i of
        None \<Rightarrow> (- 22, m)
      | Some f \<Rightarrow>
          if op = 1 then
            (if f fd = None then (0, m(i \<mapsto> f(fd \<mapsto> \<lparr>ie_events = ev_events ev, ie_data = ev_data ev, ie_last_revents = 0\<rparr>)))
             else (- 17, m))
          else if op = 2 then (if f fd = None then (- 2, m) else (0, m(i \<mapsto> f(fd := None))))
          else if op = 3 then
            (case f fd of None \<Rightarrow> (- 2, m)
             | Some e \<Rightarrow> (0, m(i \<mapsto> f(fd \<mapsto> e\<lparr>ie_events := ev_events ev, ie_data := ev_data ev\<rparr>))))
          else (- 22, m))"

definition aep_create :: "aepoll \<Rightarrow> int \<times> aepoll" where
  "aep_create m = (let i = LEAST i. m i = None in (int i, m(i \<mapsto> Map.empty)))"

fun aep_step :: "ep_call \<Rightarrow> aepoll \<Rightarrow> int \<times> aepoll" where
  "aep_step EpCreate m = aep_create m"
| "aep_step (EpClose ep) m = (0, if 0 \<le> sint ep then m(nat (sint ep) := None) else m)"
| "aep_step (EpCtl ep op fd ev) m = (if sint ep < 0 then (- 22, m) else aep_ctl (nat (sint ep)) op fd ev m)"

lemma ep_abs_get: "0 \<le> sint ep \<Longrightarrow> ep_abs t (unat ep) = map_option map_of (ep_get_mut t ep)"
  by (simp add: ep_abs_def ep_get_mut_def)

lemma ep_ctl_refines:
  assumes "ep_ok t" and "epoll_ctl t ep op fd ev = (r, t')"
  shows "ep_ok t' \<and> aep_step (EpCtl ep op fd ev) (ep_abs t) = (r, ep_abs t')"
proof (cases "ep_get_mut t ep")
  case None
  then have "r = - 22" "t' = t" using assms(2) by (simp_all add: epoll_ctl_def)
  with None assms(1) show ?thesis
    using ep_abs_get [of ep t] by (cases "sint ep < 0") (simp_all add: aep_ctl_def ep_index)
next
  case (Some inst)
  then have nn: "0 \<le> sint ep" and inst: "bt_ok inst" using ep_get_mutD [OF assms(1)] by auto
  have abs: "ep_abs t (nat (sint ep)) = Some (map_of inst)" using ep_abs_get [OF nn, of t] Some by (simp add: ep_index [OF nn])
  note store = ep_store_abs [OF assms(1) Some, unfolded ep_index [OF nn]]
  show ?thesis
    using assms Some nn inst abs store [OF bt_ok_insert [OF inst]] store [OF bt_ok_remove [OF inst]]
    by (auto simp: epoll_ctl_def aep_ctl_def EPOLL_CTL_ADD_def EPOLL_CTL_DEL_def EPOLL_CTL_MOD_def bt_get_insert [OF inst]
        bt_get_remove split: if_splits option.splits)
qed

lemma ep_create_refines:
  assumes "ep_ok t" and "length t < 2 ^ 31 - 1" and "epoll_create t = (ep, t')"
  shows "ep_ok t' \<and> aep_step EpCreate (ep_abs t) = (sint ep, ep_abs t') \<and> length t' \<le> Suc (length t)"
proof -
  define i where "i = (case position ((=) None) t of Some i \<Rightarrow> i | None \<Rightarrow> length t)"
  have i: "i \<le> length t \<and> ep_abs t i = None \<and> (\<forall>j < i. ep_abs t j \<noteq> None)"
  proof (cases "position ((=) None) t")
    case None
    then have "None \<notin> set t" by (auto simp: position_None_iff)
    then have "\<forall>j < length t. t ! j \<noteq> None" by (metis nth_mem)
    then show ?thesis using None by (simp add: i_def ep_abs_def)
  next
    case (Some y)
    from position_SomeD [OF this] Some show ?thesis by (simp add: i_def ep_abs_def) (metis not_None_eq)
  qed
  then have least: "(LEAST i. ep_abs t i = None) = i" by (intro Least_equality) (meson not_le)+
  have "sint (word_of_nat i :: u32) = int i"
    using i assms(2) by (simp add: signed_of_nat signed_take_bit_int_eq_self)
  with assms(3) have ep: "sint ep = int i" by (auto simp: epoll_create_def ep_create_def i_def split: option.splits)
  have t': "t' = (if i < length t then t[i := Some []] else t @ [Some []])"
    using assms(3) position_SomeD [of "(=) None" t] by (auto simp: epoll_create_def ep_create_def i_def split: option.splits)
  have "ep_abs t' = (ep_abs t)(i \<mapsto> Map.empty)" using i by (auto simp: t' ep_abs_def fun_eq_iff nth_append)
  moreover have "bt_ok ([] :: interest)" by (simp add: bt_ok_def)
  then have "ep_ok t'" using assms(1,2) set_update_subset_insert [of t i "Some []"] by (auto simp: t' ep_ok_def)
  ultimately show ?thesis by (simp add: aep_create_def least ep t')
qed

lemma ep_close_refines:
  assumes "ep_ok t" and "epoll_close t ep = t'"
  shows "ep_ok t' \<and> aep_step (EpClose ep) (ep_abs t) = (0, ep_abs t') \<and> length t' = length t"
proof (cases "0 \<le> sint ep \<and> unat ep < length t")
  case True
  then have t': "t' = t[unat ep := None]" using assms(2) by (simp add: epoll_close_def ep_close_def)
  with assms(1) have "ep_ok t'" using set_update_subset_insert [of t "unat ep" None] by (auto simp: ep_ok_def)
  with True show ?thesis by (auto simp: t' ep_abs_def fun_eq_iff simp flip: ep_index)
next
  case False
  then have "t' = t" using assms(2) by (auto simp: epoll_close_def ep_close_def)
  with False assms(1) show ?thesis by (auto simp: ep_abs_def fun_eq_iff simp flip: ep_index)
qed

lemma ep_ctl_length: "epoll_ctl t ep op fd ev = (r, t') \<Longrightarrow> length t' = length t"
  by (auto simp: epoll_ctl_def ep_store_def split: option.splits if_splits)

lemma ep_step_refines:
  assumes "ep_ok t" and "length t < 2 ^ 31 - 1" and "ep_step c t = (r, t')"
  shows "ep_ok t' \<and> aep_step c (ep_abs t) = (r, ep_abs t') \<and> length t' \<le> Suc (length t)"
proof (cases c)
  case EpCreate
  with assms ep_create_refines [OF assms(1,2)] show ?thesis by (auto split: prod.splits)
next
  case (EpClose ep)
  with assms ep_close_refines [OF assms(1)] show ?thesis by auto
next
  case (EpCtl ep op fd ev)
  with assms ep_ctl_refines [OF assms(1)] ep_ctl_length show ?thesis by fastforce
qed

fun ep_run :: "ep_call list \<Rightarrow> epoll_table \<Rightarrow> int list \<times> epoll_table" where
  "ep_run [] t = ([], t)"
| "ep_run (c # cs) t = (case ep_step c t of (r, t1) \<Rightarrow> case ep_run cs t1 of (rs, t2) \<Rightarrow> (r # rs, t2))"

fun aep_run :: "ep_call list \<Rightarrow> aepoll \<Rightarrow> int list \<times> aepoll" where
  "aep_run [] m = ([], m)"
| "aep_run (c # cs) m = (case aep_step c m of (r, m1) \<Rightarrow> case aep_run cs m1 of (rs, m2) \<Rightarrow> (r # rs, m2))"

lemma ep_run_refines:
  "ep_ok t \<Longrightarrow> length t + length cs < 2 ^ 31 \<Longrightarrow> ep_run cs t = (rs, t') \<Longrightarrow>
   ep_ok t' \<and> aep_run cs (ep_abs t) = (rs, ep_abs t')"
proof (induction cs arbitrary: t rs)
  case (Cons c cs)
  obtain r t1 where st: "ep_step c t = (r, t1)" by fastforce
  from ep_step_refines [OF Cons.prems(1) _ st] Cons.prems(2)
  have 1: "ep_ok t1" "aep_step c (ep_abs t) = (r, ep_abs t1)" "length t1 \<le> Suc (length t)" by simp_all
  obtain rs1 where run: "ep_run cs t1 = (rs1, t')" "rs = r # rs1" using Cons.prems(3) st by (auto split: prod.splits)
  from Cons.IH [OF 1(1) _ run(1)] 1 Cons.prems(2) run(2) show ?case by simp
qed simp

text \<open>
  C22: any sequence of fewer than \<open>2\<^sup>3\<^sup>1\<close> calls that create, close and control epoll instances gives the results, and leads to the
  table, of the specification: a partial map from instance numbers to maps from descriptors to interest entries, where
  creation takes the least free number, \<open>ADD\<close> refuses a present descriptor with \<open>EEXIST\<close>, \<open>MOD\<close> and \<open>DEL\<close> an absent one with
  \<open>ENOENT\<close>, and a closed, negative or unknown instance or operation gives \<open>EINVAL\<close>.
\<close>

theorem epoll_refines:
  assumes "length cs < 2 ^ 31" and "ep_run cs [] = (rs, t)"
  shows "aep_run cs Map.empty = (rs, ep_abs t)"
proof -
  have "ep_abs [] = Map.empty" by (simp add: ep_abs_def fun_eq_iff)
  with ep_run_refines [of "[]" cs rs t] assms show ?thesis by (simp add: ep_ok_def)
qed

theorem epoll_refines_witness:
  "fst (aep_run [EpCreate, EpCtl 0 1 7 \<lparr>ev_events = 1, ev_data = 9\<rparr>, EpCtl 0 1 7 \<lparr>ev_events = 1, ev_data = 9\<rparr>, EpClose 0,
      EpCtl 0 2 7 \<lparr>ev_events = 1, ev_data = 9\<rparr>] Map.empty) = [0, 0, - 17, 0, - 22]"
proof -
  define cs where "cs = [EpCreate, EpCtl 0 1 7 \<lparr>ev_events = 1, ev_data = 9\<rparr>, EpCtl 0 1 7 \<lparr>ev_events = 1, ev_data = 9\<rparr>, EpClose 0,
      EpCtl 0 2 7 \<lparr>ev_events = 1, ev_data = 9\<rparr>]"
  have "ep_run cs [] = ([0, 0, - 17, 0, - 22], [None])"
    by (simp add: cs_def epoll_create_def ep_create_def epoll_ctl_def ep_get_mut_def EPOLL_CTL_ADD_def ep_store_def
        epoll_close_def ep_close_def)
  from epoll_refines [OF _ this] show ?thesis by (simp add: cs_def [symmetric]) (simp add: cs_def)
qed

section \<open>What a wait returns\<close>

definition entry_revents :: "world \<Rightarrow> u32 \<times> interest_entry \<Rightarrow> u16" where
  "entry_revents w x = revents_of w (scast (fst x)) (poll_request (ie_events (snd x)))"

text \<open>An entry is due when it has events, in edge-triggered mode only if they differ from the last ones reported.\<close>

definition due :: "world \<Rightarrow> u32 \<times> interest_entry \<Rightarrow> bool" where
  "due w x \<longleftrightarrow> entry_revents w x \<noteq> 0
     \<and> (ie_events (snd x) AND EPOLLET \<noteq> 0 \<longrightarrow> entry_revents w x \<noteq> ie_last_revents (snd x))"

definition noted :: "world \<Rightarrow> u32 \<times> interest_entry \<Rightarrow> u32 \<times> interest_entry" where
  "noted w x = (if due w x then (fst x, snd x\<lparr>ie_last_revents := entry_revents w x\<rparr>) else x)"

definition event_of :: "world \<Rightarrow> u32 \<times> interest_entry \<Rightarrow> epoll_event" where
  "event_of w x = \<lparr>ev_events = emitted (entry_revents w x), ev_data = ie_data (snd x)\<rparr>"

lemma epoll_scan_eq:
  "world_ok w \<Longrightarrow> length out \<le> cap \<Longrightarrow>
   epoll_scan w cap inst out = Done (take cap (out @ map (event_of w) (filter (due w) inst)), map (noted w) inst)"
proof (induction inst arbitrary: out)
  case (Cons x inst)
  obtain fd entry where x: "x = (fd, entry)" by fastforce
  have r: "fd_readiness w (scast fd) (poll_request (ie_events entry)) = Done (entry_revents w x)"
    using Cons.prems(1) by (simp add: fd_readiness_eq entry_revents_def x)
  show ?case
  proof (cases "due w x")
    case True
    define out1 where "out1 = (if length out < cap then out @ [event_of w x] else out)"
    from True have report: "\<not> (entry_revents w x = 0 \<or> (ie_events entry AND EPOLLET \<noteq> 0 \<and> entry_revents w x = ie_last_revents entry))"
      by (auto simp: due_def x)
    have "epoll_scan w cap (x # inst) out = obind (epoll_scan w cap inst out1) (\<lambda>(out', rest'). Done (out', noted w x # rest'))"
      using True unfolding x epoll_scan.simps r [unfolded x] obind.simps if_not_P [OF report [unfolded x]]
      by (simp add: x out1_def event_of_def noted_def Let_def)
    moreover have "length out1 \<le> cap" using Cons.prems(2) by (auto simp: out1_def)
    moreover have "take cap (out1 @ es) = take cap (out @ event_of w x # es)" for es
      using Cons.prems(2) by (auto simp: out1_def take_Cons')
    ultimately show ?thesis using Cons.IH [OF Cons.prems(1), of out1] True by simp
  next
    case False
    then have skip: "entry_revents w x = 0 \<or> (ie_events entry AND EPOLLET \<noteq> 0 \<and> entry_revents w x = ie_last_revents entry)"
      by (auto simp: due_def x)
    have "epoll_scan w cap (x # inst) out = obind (epoll_scan w cap inst out) (\<lambda>(out', rest'). Done (out', (fd, entry) # rest'))"
      using skip r by (simp add: x)
    then show ?thesis using Cons False by (simp add: noted_def) (simp add: x)
  qed
qed simp

definition wait_stops :: "(nat \<Rightarrow> world) \<Rightarrow> interest \<Rightarrow> u32 \<Rightarrow> u64 \<Rightarrow> nat \<Rightarrow> bool" where
  "wait_stops obs inst timeout_ms deadline i \<longleftrightarrow>
     filter (due (obs i)) inst \<noteq> [] \<or> timeout_ms = 0 \<or> deadline \<le> w_ticks (obs i)"

lemma noted_none: "filter (due w) inst = [] \<Longrightarrow> map (noted w) inst = inst"
  by (rule map_idI) (auto simp: noted_def filter_empty_conv)

lemma epoll_loop_unfold:
  assumes "\<And>i. world_ok (obs i)" and "ep_get_mut t epfd = Some inst" and "0 < cap"
  shows "epoll_loop obs i t epfd cap timeout_ms deadline =
    (if wait_stops obs inst timeout_ms deadline i
     then let evs = take cap (map (event_of (obs i)) (filter (due (obs i)) inst)) in
       Some (Done (int (length evs), evs, ep_store t epfd (map (noted (obs i)) inst)))
     else epoll_loop obs (Suc i) (ep_store t epfd inst) epfd cap timeout_ms deadline)"
proof -
  have "take cap (map (event_of (obs i)) (filter (due (obs i)) inst)) = [] \<longleftrightarrow> filter (due (obs i)) inst = []"
    using assms(3) by simp
  then show ?thesis
    by (subst epoll_loop.simps)
       (auto simp: assms(2) epoll_scan_eq [OF assms(1)] wait_stops_def Let_def noted_none split: if_split)
qed

lemma ep_store_same: "ep_get_mut t ep = Some inst \<Longrightarrow> ep_store t ep inst = t"
  by (auto simp: ep_get_mut_def ep_store_def split: if_splits) (metis list_update_id)

lemma epoll_loop_first:
  assumes "\<And>i. world_ok (obs i)" and "ep_get_mut t epfd = Some inst" and "0 < cap"
    and "wait_stops obs inst timeout_ms deadline (i + k)" and "\<And>j. j < k \<Longrightarrow> \<not> wait_stops obs inst timeout_ms deadline (i + j)"
    and "evs = take cap (map (event_of (obs (i + k))) (filter (due (obs (i + k))) inst))"
  shows "epoll_loop obs i t epfd cap timeout_ms deadline =
    Some (Done (int (length evs), evs, ep_store t epfd (map (noted (obs (i + k))) inst)))"
  using assms(4-6)
proof (induction k arbitrary: i)
  case 0
  then show ?case by (subst epoll_loop_unfold [OF assms(1-3)]) (simp add: Let_def)
next
  case (Suc k)
  from Suc.prems(2) [of 0] have "\<not> wait_stops obs inst timeout_ms deadline i" by simp
  moreover have "epoll_loop obs (Suc i) t epfd cap timeout_ms deadline =
      Some (Done (int (length evs), evs, ep_store t epfd (map (noted (obs (Suc i + k))) inst)))"
    using Suc.prems(1,3) Suc.prems(2) [of "Suc _"] by (intro Suc.IH) auto
  ultimately show ?case by (subst epoll_loop_unfold [OF assms(1-3)]) (simp add: ep_store_same [OF assms(2)])
qed

text \<open>
  C38: \<open>epoll_wait\<close> on a valid instance with a buffer of at least one entry and a finite timeout returns by the deadline. It
  reports, in ascending order of the descriptors and up to the size of the buffer, the entries that were due in the first
  iteration that had any (each with its own data word and with the events translated), marks every due entry with its
  events, and changes nothing else; no entry was due in an earlier iteration.
\<close>

theorem epoll_wait_spec:
  assumes "\<And>i. world_ok (obs i)" and "0 \<le> sint timeout_ms" and "ep_get_mut t epfd = Some inst" and "0 < cap"
    and "deadline = unat (w_ticks (obs 0)) + max (unat timeout_ms div 55) 1" and "deadline < 2 ^ 64"
    and "deadline \<le> unat (w_ticks (obs n))"
  shows "\<exists>k evs. k \<le> n \<and> evs = take cap (map (event_of (obs k)) (filter (due (obs k)) inst))
    \<and> epoll_wait pf obs t epfd cap timeout_ms =
        Some (Done (int (length evs), evs, ep_store t epfd (map (noted (obs k)) inst)))
    \<and> (evs = [] \<longrightarrow> timeout_ms = 0 \<or> deadline \<le> unat (w_ticks (obs k))) \<and> (\<forall>j < k. filter (due (obs j)) inst = [])"
proof -
  obtain d where d: "poll_deadline pf (w_ticks (obs 0)) timeout_ms = Done d" "unat d = deadline"
    using poll_deadline_timed [OF assms(2)] assms(5,6) by metis
  have n: "wait_stops obs inst timeout_ms d n" using assms(7) d(2) by (simp add: wait_stops_def word_le_nat_alt)
  then obtain k where k: "wait_stops obs inst timeout_ms d k" "\<forall>j < k. \<not> wait_stops obs inst timeout_ms d j"
    using exists_least_iff [of "wait_stops obs inst timeout_ms d"] by blast
  with n have kn: "k \<le> n" by (meson not_le)
  define evs where "evs = take cap (map (event_of (obs k)) (filter (due (obs k)) inst))"
  have "epoll_loop obs 0 t epfd cap timeout_ms d = Some (Done (int (length evs), evs, ep_store t epfd (map (noted (obs k)) inst)))"
    using epoll_loop_first [OF assms(1,3,4), where i = 0 and k = k] k by (simp add: evs_def)
  then have "epoll_wait pf obs t epfd cap timeout_ms = Some (Done (int (length evs), evs, ep_store t epfd (map (noted (obs k)) inst)))"
    using assms(4) d(1) by (simp add: epoll_wait_def)
  moreover have "evs = [] \<longrightarrow> timeout_ms = 0 \<or> deadline \<le> unat (w_ticks (obs k))"
    using k(1) assms(4) d(2) by (auto simp: wait_stops_def evs_def word_le_nat_alt)
  moreover have "\<forall>j < k. filter (due (obs j)) inst = []" using k(2) by (auto simp: wait_stops_def)
  ultimately show ?thesis using kn evs_def by blast
qed

theorem epoll_wait_spec_witness:
  "\<exists>evs k. epoll_wait Dev wit_world [Some [(3, \<lparr>ie_events = 1, ie_data = 9, ie_last_revents = 0\<rparr>)]] 0 4 110 =
     Some (Done (int (length evs), evs,
       ep_store [Some [(3, \<lparr>ie_events = 1, ie_data = 9, ie_last_revents = 0\<rparr>)]] 0
         (map (noted (wit_world k)) [(3, \<lparr>ie_events = 1, ie_data = 9, ie_last_revents = 0\<rparr>)])))"
proof -
  have t: "unat (w_ticks (wit_world 0)) = 0" "unat (w_ticks (wit_world 2)) = 2" by (simp_all add: wit_world_def)
  have g: "ep_get_mut [Some [(3, \<lparr>ie_events = 1, ie_data = 9, ie_last_revents = 0\<rparr>)]] 0 = Some [(3, \<lparr>ie_events = 1, ie_data = 9, ie_last_revents = 0\<rparr>)]"
    by (simp add: ep_get_mut_def)
  have s: "(0 :: int) \<le> sint (110 :: u32)" by simp
  have p: "(0 :: nat) < 4" "(2 :: nat) = unat (w_ticks (wit_world 0)) + max (unat (110 :: u32) div 55) 1" "(2 :: nat) < 2 ^ 64"
    "(2 :: nat) \<le> unat (w_ticks (wit_world 2))" by (simp_all add: t)
  from epoll_wait_spec [where obs = wit_world and pf = Dev, OF wit_world_ok s g p] show ?thesis by blast
qed

text \<open>
  Edge-triggered entries lose events. An entry is marked even when the buffer was full, so it is not due again while its
  events stay the same. And a scan in which an entry has no events leaves its mark, so an entry that becomes unready and then
  ready again with the same events is not due either.
\<close>

lemma et_not_due_again: "ie_events (snd x) AND EPOLLET \<noteq> 0 \<Longrightarrow> \<not> due w (noted w x)"
  by (auto simp: due_def noted_def entry_revents_def)

lemma et_edge_missed:
  assumes "ie_events (snd x) AND EPOLLET \<noteq> 0" and "entry_revents w0 (noted w x) = 0"
  shows "\<not> due w (noted w0 (noted w x))"
  using assms et_not_due_again [of x w] by (simp add: noted_def [of w0] due_def [of w0])

end
