(* ===== verification/FrameAlloc.thy ===== *)
theory FrameAlloc
  imports Bytes
begin

text \<open>
  The physical frame allocator (\<^verbatim>\<open>src/memory.rs\<close>): a bitmap with one bit for each of the 1048576 frames of 4 GiB (1 is used), a
  search hint, and the two statistics counters (atomics, so subtraction wraps). The theory opens with the contract that every allocator of
  distinguishable objects has to meet, frames here and slab objects elsewhere: what it hands out is not handed out again
  before it comes back.
\<close>

section \<open>The contract of an object pool\<close>

text \<open>A client takes objects and gives held ones back, by their position in its list.\<close>

datatype pool_op = Take | Give nat

fun pool_run :: "('s \<Rightarrow> 'a option \<times> 's) \<Rightarrow> ('a \<Rightarrow> 's \<Rightarrow> 's) \<Rightarrow> pool_op list \<Rightarrow> 'a list \<times> 's \<Rightarrow> 'a list \<times> 's" where
  "pool_run take_one give [] st = st"
| "pool_run take_one give (Take # ops) (held, s) =
     (case take_one s of
        (None, s') \<Rightarrow> pool_run take_one give ops (held, s')
      | (Some x, s') \<Rightarrow> pool_run take_one give ops (held @ [x], s'))"
| "pool_run take_one give (Give i # ops) (held, s) =
     (if i < length held
      then pool_run take_one give ops (take i held @ drop (Suc i) held, give (held ! i) s)
      else pool_run take_one give ops (held, s))"

locale object_pool =
  fixes inv :: "'s \<Rightarrow> bool"
    and out :: "'s \<Rightarrow> 'a set"
    and take_one :: "'s \<Rightarrow> 'a option \<times> 's"
    and give :: "'a \<Rightarrow> 's \<Rightarrow> 's"
  assumes take_inv: "inv s \<Longrightarrow> take_one s = (Some x, s') \<Longrightarrow> inv s'"
    and take_fresh: "inv s \<Longrightarrow> take_one s = (Some x, s') \<Longrightarrow> x \<notin> out s"
    and take_out: "inv s \<Longrightarrow> take_one s = (Some x, s') \<Longrightarrow> out s' = insert x (out s)"
    and take_none: "inv s \<Longrightarrow> take_one s = (None, s') \<Longrightarrow> inv s' \<and> out s' = out s"
    and give_inv: "inv s \<Longrightarrow> x \<in> out s \<Longrightarrow> inv (give x s)"
    and give_out: "inv s \<Longrightarrow> x \<in> out s \<Longrightarrow> out (give x s) = out s - {x}"
begin

text \<open>What a client holds is distinct and accounted for; what was out before and not held by it stays out.\<close>

lemma run_held:
  "inv s \<Longrightarrow> distinct held \<Longrightarrow> set held \<subseteq> out s \<Longrightarrow> pool_run take_one give ops (held, s) = (held', s') \<Longrightarrow>
   inv s' \<and> distinct held' \<and> set held' \<subseteq> out s' \<and> out s' - set held' = out s - set held"
proof (induction ops arbitrary: held s)
  case (Cons a ops)
  show ?case
  proof (cases a)
    case Take
    show ?thesis
    proof (cases "fst (take_one s)")
      case None
      then obtain s1 where r: "take_one s = (None, s1)" by (metis surjective_pairing)
      with Take Cons.prems(4) have run: "pool_run take_one give ops (held, s1) = (held', s')" by simp
      note f = take_none [OF Cons.prems(1) r]
      with Cons.IH [OF _ Cons.prems(2) _ run] Cons.prems(3) show ?thesis by simp
    next
      case (Some x)
      then obtain s1 where r: "take_one s = (Some x, s1)" by (metis surjective_pairing)
      with Take Cons.prems(4) have run: "pool_run take_one give ops (held @ [x], s1) = (held', s')" by simp
      note f = take_inv [OF Cons.prems(1) r] take_fresh [OF Cons.prems(1) r] take_out [OF Cons.prems(1) r]
      from f Cons.prems(2,3) have "distinct (held @ [x])" "set (held @ [x]) \<subseteq> out s1" by auto
      moreover have "out s1 - set (held @ [x]) = out s - set held" using f by auto
      ultimately show ?thesis using Cons.IH [OF f(1) _ _ run] by simp
    qed
  next
    case (Give i)
    show ?thesis
    proof (cases "i < length held")
      case True
      let ?x = "held ! i" and ?rest = "take i held @ drop (Suc i) held"
      have h: "held = take i held @ ?x # drop (Suc i) held" using True by (simp add: id_take_nth_drop)
      have "distinct (take i held @ ?x # drop (Suc i) held)" using Cons.prems(2) h by metis
      then have d: "distinct ?rest" "?x \<notin> set ?rest" by auto
      have d3: "set held = insert ?x (set ?rest)" by (subst h) simp
      have x: "?x \<in> out s" using Cons.prems(3) True by auto
      from True Give Cons.prems(4) have run: "pool_run take_one give ops (?rest, give ?x s) = (held', s')" by simp
      have sub: "set ?rest \<subseteq> out (give ?x s)" using give_out [OF Cons.prems(1) x] Cons.prems(3) d d3 by auto
      have "out (give ?x s) - set ?rest = out s - set held" using give_out [OF Cons.prems(1) x] d3 by auto
      then show ?thesis using Cons.IH [OF give_inv [OF Cons.prems(1) x] d(1) sub run] by simp
    qed (use Give Cons in simp)
  qed
qed simp

end

section \<open>The allocator\<close>

definition MAX_FRAMES :: nat where "MAX_FRAMES = 1048576"
definition BITMAP_SIZE :: nat where "BITMAP_SIZE = MAX_FRAMES div 8"

record frame_allocator =
  FRAME_BITMAP :: "u8 list"
  next_free :: nat
  num_frames :: nat
  TOTAL_FRAMES :: nat
  ALLOCATED_FRAMES :: u64

text \<open>The memory map is a list of regions, usable or not, with their first byte and the byte after the last one.\<close>

record mem_region =
  mr_usable :: bool
  mr_start :: nat
  mr_end :: nat

definition clear_bit :: "u8 list \<Rightarrow> nat \<Rightarrow> u8 list" where
  "clear_bit bm idx = bm[idx div 8 := bm ! (idx div 8) AND NOT (bit_mask (idx mod 8))]"

definition set_bit_at :: "u8 list \<Rightarrow> nat \<Rightarrow> u8 list" where
  "set_bit_at bm idx = bm[idx div 8 := bm ! (idx div 8) OR bit_mask (idx mod 8)]"

definition region_frames :: "mem_region \<Rightarrow> nat list" where
  "region_frames r = [(mr_start r + 4095) div 4096 ..< mr_end r div 4096]"

definition free_region :: "mem_region \<Rightarrow> u8 list \<times> nat \<Rightarrow> u8 list \<times> nat" where
  "free_region r st =
     (if \<not> mr_usable r then st
      else fold (\<lambda>idx (bm, n). if idx < MAX_FRAMES then (clear_bit bm idx, n + 1) else (bm, n)) (region_frames r) st)"

definition fa_init :: "mem_region list \<Rightarrow> frame_allocator" where
  "fa_init memory_map =
     (case fold free_region memory_map (replicate BITMAP_SIZE 0xFF, 0) of (bm, usable_count) \<Rightarrow>
        \<lparr>FRAME_BITMAP = bm, next_free = 0, num_frames = MAX_FRAMES, TOTAL_FRAMES = usable_count, ALLOCATED_FRAMES = 0\<rparr>)"

text \<open>The search: the bits of one byte, a range of bytes, and from the hint to the end and then from the start.\<close>

fun find_bit :: "nat \<Rightarrow> u8 \<Rightarrow> nat \<Rightarrow> nat list \<Rightarrow> nat option" where
  "find_bit n byte byte_idx [] = None"
| "find_bit n byte byte_idx (b # bs) =
     (if byte AND bit_mask b = 0 \<and> byte_idx * 8 + b < n then Some (byte_idx * 8 + b) else find_bit n byte byte_idx bs)"

fun scan_bytes :: "nat \<Rightarrow> u8 list \<Rightarrow> nat list \<Rightarrow> nat option" where
  "scan_bytes n bm [] = None"
| "scan_bytes n bm (i # is) =
     (if bm ! i = 0xFF then scan_bytes n bm is
      else case find_bit n (bm ! i) i [0..<8] of Some f \<Rightarrow> Some f | None \<Rightarrow> scan_bytes n bm is)"

definition find_free_frame :: "frame_allocator \<Rightarrow> nat option" where
  "find_free_frame fa =
     (let start_byte = next_free fa div 8 in
      case scan_bytes (num_frames fa) (FRAME_BITMAP fa) [start_byte..<BITMAP_SIZE] of
        Some f \<Rightarrow> Some f
      | None \<Rightarrow> scan_bytes (num_frames fa) (FRAME_BITMAP fa) [0..<start_byte])"

definition mark_used :: "nat \<Rightarrow> frame_allocator \<Rightarrow> frame_allocator" where
  "mark_used idx fa = fa\<lparr>FRAME_BITMAP := set_bit_at (FRAME_BITMAP fa) idx\<rparr>"

definition mark_free :: "nat \<Rightarrow> frame_allocator \<Rightarrow> frame_allocator" where
  "mark_free idx fa = fa\<lparr>FRAME_BITMAP := clear_bit (FRAME_BITMAP fa) idx\<rparr>"

text \<open>Frames are named by their number; the physical address is the number times 4096.\<close>

definition deallocate_frame :: "nat \<Rightarrow> frame_allocator \<Rightarrow> frame_allocator" where
  "deallocate_frame idx fa =
     (if idx < num_frames fa
      then let fa1 = mark_free idx fa;
               fa2 = (if idx < next_free fa1 then fa1\<lparr>next_free := idx\<rparr> else fa1)
           in fa2\<lparr>ALLOCATED_FRAMES := ALLOCATED_FRAMES fa2 - 1\<rparr>
      else fa)"

definition allocate_frame :: "frame_allocator \<Rightarrow> nat option \<times> frame_allocator" where
  "allocate_frame fa =
     (case find_free_frame fa of
        None \<Rightarrow> (None, fa)
      | Some idx \<Rightarrow>
          let fa1 = mark_used idx fa
          in (Some idx, fa1\<lparr>next_free := idx + 1, ALLOCATED_FRAMES := ALLOCATED_FRAMES fa1 + 1\<rparr>))"

definition memory_stats :: "frame_allocator \<Rightarrow> nat \<times> nat \<times> nat" where
  "memory_stats fa =
     (let tot = TOTAL_FRAMES fa; allocated = unat (ALLOCATED_FRAMES fa) in (tot, allocated, tot - allocated))"

definition total_usable_memory :: "frame_allocator \<Rightarrow> u64" where
  "total_usable_memory fa = word_of_nat (TOTAL_FRAMES fa) * 4096"

definition free_memory :: "frame_allocator \<Rightarrow> u64" where
  "free_memory fa = (case memory_stats fa of (tot, allocated, _) \<Rightarrow> word_of_nat (tot - allocated) * 4096)"

text \<open>The search for \<open>n\<close> frames in a row: the start of the current run of free frames and its length.\<close>

fun contig_scan :: "u8 list \<Rightarrow> nat \<Rightarrow> nat list \<Rightarrow> nat option \<Rightarrow> nat \<Rightarrow> nat option" where
  "contig_scan bm n [] run_start run_len = None"
| "contig_scan bm n (i # is) run_start run_len =
     (if drop_bit (i mod 8) (bm ! (i div 8)) AND 1 \<noteq> 0 then contig_scan bm n is None 0
      else
        let start = (case run_start of None \<Rightarrow> i | Some s \<Rightarrow> s) in
        if run_len + 1 = n then Some start else contig_scan bm n is (Some start) (run_len + 1))"

definition allocate_contiguous_frames :: "nat \<Rightarrow> frame_allocator \<Rightarrow> (nat \<times> frame_allocator) option" where
  "allocate_contiguous_frames n fa =
     (if n = 0 then None
      else case contig_scan (FRAME_BITMAP fa) n [0..<num_frames fa] None 0 of
          None \<Rightarrow> None
        | Some start \<Rightarrow>
            let fa1 = fold (\<lambda>i. mark_used (start + i)) [0..<n] fa
            in Some (start, fa1\<lparr>ALLOCATED_FRAMES := ALLOCATED_FRAMES fa1 + word_of_nat n, next_free := start + n\<rparr>))"

definition alloc_dma_contig :: "nat \<Rightarrow> frame_allocator \<Rightarrow> (nat \<times> frame_allocator) option" where
  "alloc_dma_contig sz fa = allocate_contiguous_frames ((sz + 4095) div 4096) fa"

definition dealloc_dma_contig :: "nat \<Rightarrow> nat \<Rightarrow> frame_allocator \<Rightarrow> frame_allocator" where
  "dealloc_dma_contig start_frame sz fa =
     (let pages = (sz + 4095) div 4096;
          fa1 = fold (\<lambda>i. mark_free (start_frame + i)) [0..<pages] fa;
          fa2 = fa1\<lparr>ALLOCATED_FRAMES := ALLOCATED_FRAMES fa1 - word_of_nat pages\<rparr>
      in if start_frame < next_free fa2 then fa2\<lparr>next_free := start_frame\<rparr> else fa2)"

section \<open>The bitmap as a set of free frames\<close>

definition used :: "u8 list \<Rightarrow> nat \<Rightarrow> bool" where
  "used bm i \<longleftrightarrow> bit (bm ! (i div 8)) (i mod 8)"

definition free_frames :: "frame_allocator \<Rightarrow> nat set" where
  "free_frames fa = {i. i < num_frames fa \<and> \<not> used (FRAME_BITMAP fa) i}"

definition fa_ok :: "frame_allocator \<Rightarrow> bool" where
  "fa_ok fa \<longleftrightarrow> length (FRAME_BITMAP fa) = BITMAP_SIZE \<and> num_frames fa = MAX_FRAMES"

lemma same_byte_bit: "(x :: nat) div 8 = y div 8 \<Longrightarrow> x mod 8 = y mod 8 \<Longrightarrow> x = y"
  by (metis div_mod_decomp)

lemma frame_byte: "i < MAX_FRAMES \<Longrightarrow> i div 8 < BITMAP_SIZE"
  by (simp add: MAX_FRAMES_def BITMAP_SIZE_def)

lemma used_set: "i div 8 < length bm \<Longrightarrow> used (set_bit_at bm i) j \<longleftrightarrow> j = i \<or> used bm j"
  using same_byte_bit [of j i] by (auto simp: used_def set_bit_at_def nth_list_update bit_set_mask)

lemma used_clear: "i div 8 < length bm \<Longrightarrow> used (clear_bit bm i) j \<longleftrightarrow> j \<noteq> i \<and> used bm j"
  using same_byte_bit [of j i] by (auto simp: used_def clear_bit_def nth_list_update bit_clear_mask)

lemma length_bitmap [simp]: "length (set_bit_at bm i) = length bm" "length (clear_bit bm i) = length bm"
  by (simp_all add: set_bit_at_def clear_bit_def)

text \<open>The byte-wise search is a search for the first free frame whose byte is in the range.\<close>

lemma and_bit_mask_zero: "w AND bit_mask n = 0 \<longleftrightarrow> \<not> bit w n" for w :: "'n::len word"
  using and_bit_mask_nonzero [of w n] by blast

lemma find_bit_eq: "find_bit n byte i bs = map_option (\<lambda>b. i * 8 + b) (find (\<lambda>b. \<not> bit byte b \<and> i * 8 + b < n) bs)"
  by (induction bs) (simp_all add: and_bit_mask_zero)

lemma full_byte: "b < 8 \<Longrightarrow> bit (0xFF :: u8) b"
proof -
  assume "b < 8"
  moreover have "(0xFF :: u8) = - 1" by simp
  ultimately show ?thesis by (simp only: bit_minus_1_iff) simp
qed

definition byte_frames :: "nat list \<Rightarrow> nat list" where
  "byte_frames is = concat (map (\<lambda>i. map (\<lambda>b. i * 8 + b) [0..<8]) is)"

lemma used_in_byte: "b < 8 \<Longrightarrow> used bm (i * 8 + b) \<longleftrightarrow> bit (bm ! i) b"
  by (simp add: used_def)

lemma find_map_bits: "find P (map f xs) = map_option f (find (P \<circ> f) xs)"
  by (induction xs) auto

lemma find_cong_set: "(\<And>x. x \<in> set xs \<Longrightarrow> P x = Q x) \<Longrightarrow> find P xs = find Q xs"
  by (induction xs) auto

lemma scan_bytes_eq: "scan_bytes n bm is = find (\<lambda>f. f < n \<and> \<not> used bm f) (byte_frames is)"
proof (induction "is")
  case (Cons i "is")
  let ?B = "map (\<lambda>b. i * 8 + b) [0..<8]"
  have bf: "byte_frames (i # is) = ?B @ byte_frames is" by (simp add: byte_frames_def)
  have one: "find (\<lambda>f. f < n \<and> \<not> used bm f) ?B = find_bit n (bm ! i) i [0..<8]"
    unfolding find_map_bits find_bit_eq
    by (rule arg_cong [where f = "map_option _"], rule find_cong_set) (auto simp: used_in_byte)
  have full: "find (\<lambda>f. f < n \<and> \<not> used bm f) ?B = None" if "bm ! i = 0xFF"
    unfolding one find_bit_eq using that full_byte by (auto simp: find_eq_None simp del: upt_Suc)
  have "find (\<lambda>f. f < n \<and> \<not> used bm f) (byte_frames (i # is)) =
      (case find_bit n (bm ! i) i [0..<8] of None \<Rightarrow> scan_bytes n bm is | Some f \<Rightarrow> Some f)"
    by (simp only: bf find_append one Cons.IH)
  then show ?case using full one by (auto simp: del: upt_Suc)
qed (simp add: byte_frames_def)

lemma byte_frames_upt: "byte_frames [a..<b] = [a * 8..<b * 8]"
proof (induction b)
  case (Suc b)
  have "map (\<lambda>c. b * 8 + c) [0..<8] = [b * 8..<Suc b * 8]"
    using map_add_upt [of "b * 8" 8] by (simp only: add.commute mult_Suc)
  moreover have "a \<le> b \<Longrightarrow> [a * 8..<Suc b * 8] = [a * 8..<b * 8] @ [b * 8..<Suc b * 8]"
    using upt_add_eq_append [of "a * 8" "b * 8" 8] by (simp only: mult_Suc add.commute mult_le_mono1)
  ultimately show ?case using Suc by (auto simp: byte_frames_def)
qed (simp add: byte_frames_def)


text \<open>The frame found is the first free one from the byte of the hint on, or the first free one at all if there is none.\<close>

lemma find_free_frame_eq:
  "find_free_frame fa =
     (let h = next_free fa div 8 * 8 in
      case find (\<lambda>f. f < num_frames fa \<and> \<not> used (FRAME_BITMAP fa) f) [h..<BITMAP_SIZE * 8] of
        Some f \<Rightarrow> Some f
      | None \<Rightarrow> find (\<lambda>f. f < num_frames fa \<and> \<not> used (FRAME_BITMAP fa) f) [0..<h])"
  unfolding find_free_frame_def scan_bytes_eq byte_frames_upt Let_def mult_0 by (rule refl)

lemma bitmap_frames: "BITMAP_SIZE * 8 = MAX_FRAMES"
  by (simp add: BITMAP_SIZE_def MAX_FRAMES_def)

lemma find_free_frame_Some: "find_free_frame fa = Some f \<Longrightarrow> f \<in> free_frames fa"
  by (auto simp: find_free_frame_eq free_frames_def Let_def dest: find_SomeD split: option.splits)

lemma find_free_frame_None:
  assumes "fa_ok fa"
  shows "find_free_frame fa = None \<longleftrightarrow> free_frames fa = {}"
proof -
  let ?P = "\<lambda>f. f < num_frames fa \<and> \<not> used (FRAME_BITMAP fa) f" and ?h = "next_free fa div 8 * 8"
  have "find_free_frame fa = None \<longleftrightarrow> find ?P [?h..<MAX_FRAMES] = None \<and> find ?P [0..<?h] = None"
    by (simp add: find_free_frame_eq bitmap_frames Let_def split: option.split)
  also have "\<dots> \<longleftrightarrow> (\<forall>f. f < num_frames fa \<longrightarrow> used (FRAME_BITMAP fa) f)"
    using assms by (simp only: find_eq_None set_upt fa_ok_def) (meson atLeastLessThan_iff not_le zero_le)
  finally show ?thesis by (auto simp: free_frames_def)
qed

lemma fa_ok_marks [simp]: "fa_ok fa \<Longrightarrow> fa_ok (mark_used i fa)" "fa_ok fa \<Longrightarrow> fa_ok (mark_free i fa)"
  by (simp_all add: fa_ok_def mark_used_def mark_free_def)

lemma free_mark_used: "fa_ok fa \<Longrightarrow> i < MAX_FRAMES \<Longrightarrow> free_frames (mark_used i fa) = free_frames fa - {i}"
  using frame_byte [of i] by (auto simp: free_frames_def mark_used_def fa_ok_def used_set)

lemma free_mark_free: "fa_ok fa \<Longrightarrow> i < MAX_FRAMES \<Longrightarrow> free_frames (mark_free i fa) = insert i (free_frames fa)"
  using frame_byte [of i] by (auto simp: free_frames_def mark_free_def fa_ok_def used_clear)

lemma fa_upd_simps [simp]:
  "fa_ok (fa\<lparr>next_free := h\<rparr>) = fa_ok fa" "fa_ok (fa\<lparr>ALLOCATED_FRAMES := c\<rparr>) = fa_ok fa"
  "free_frames (fa\<lparr>next_free := h\<rparr>) = free_frames fa" "free_frames (fa\<lparr>ALLOCATED_FRAMES := c\<rparr>) = free_frames fa"
  by (simp_all add: fa_ok_def free_frames_def)

lemma free_frames_bound: "fa_ok fa \<Longrightarrow> free_frames fa \<subseteq> {..<MAX_FRAMES}"
  by (auto simp: free_frames_def fa_ok_def)

lemma allocate_frame_spec:
  assumes "fa_ok fa" and "allocate_frame fa = (Some f, fa')"
  shows "fa_ok fa' \<and> f \<in> free_frames fa \<and> free_frames fa' = free_frames fa - {f}
    \<and> ALLOCATED_FRAMES fa' = ALLOCATED_FRAMES fa + 1 \<and> TOTAL_FRAMES fa' = TOTAL_FRAMES fa"
proof -
  have ff: "find_free_frame fa = Some f"
    and fa': "fa' = (mark_used f fa)\<lparr>next_free := f + 1, ALLOCATED_FRAMES := ALLOCATED_FRAMES (mark_used f fa) + 1\<rparr>"
    using assms(2) by (auto simp: allocate_frame_def Let_def split: option.splits)
  have f: "f \<in> free_frames fa" using find_free_frame_Some [OF ff] .
  then have "f < MAX_FRAMES" using free_frames_bound [OF assms(1)] by auto
  with assms(1) f show ?thesis by (simp add: fa' free_mark_used) (simp add: mark_used_def)
qed

lemma allocate_frame_None: "fa_ok fa \<Longrightarrow> fst (allocate_frame fa) = None \<longleftrightarrow> free_frames fa = {}"
  by (simp add: allocate_frame_def Let_def find_free_frame_None [symmetric] split: option.split)

lemma allocate_frame_failed: "allocate_frame fa = (None, fa') \<Longrightarrow> fa' = fa"
  by (auto simp: allocate_frame_def Let_def split: option.splits)

lemma deallocate_frame_spec:
  assumes "fa_ok fa" and "f < MAX_FRAMES"
  shows "fa_ok (deallocate_frame f fa)" "free_frames (deallocate_frame f fa) = insert f (free_frames fa)"
    "ALLOCATED_FRAMES (deallocate_frame f fa) = ALLOCATED_FRAMES fa - 1" "TOTAL_FRAMES (deallocate_frame f fa) = TOTAL_FRAMES fa"
  using assms by (simp_all add: deallocate_frame_def free_mark_free Let_def) (simp_all add: fa_ok_def mark_free_def)

interpretation frames: object_pool fa_ok "\<lambda>fa. {..<MAX_FRAMES} - free_frames fa" allocate_frame deallocate_frame
proof
  fix fa f fa' assume a: "fa_ok fa" "allocate_frame fa = (Some f, fa')"
  note s = allocate_frame_spec [OF a]
  show "fa_ok fa'" using s by simp
  show "f \<notin> {..<MAX_FRAMES} - free_frames fa" using s by simp
  show "{..<MAX_FRAMES} - free_frames fa' = insert f ({..<MAX_FRAMES} - free_frames fa)"
    using s free_frames_bound [OF a(1)] by auto
next
  fix fa fa' assume "fa_ok fa" "allocate_frame fa = (None, fa')"
  then show "fa_ok fa' \<and> {..<MAX_FRAMES} - free_frames fa' = {..<MAX_FRAMES} - free_frames fa"
    using allocate_frame_failed by blast
next
  fix fa f assume a: "fa_ok fa" "f \<in> {..<MAX_FRAMES} - free_frames fa"
  then show "fa_ok (deallocate_frame f fa)" by (simp add: deallocate_frame_spec)
  from a show "{..<MAX_FRAMES} - free_frames (deallocate_frame f fa) = {..<MAX_FRAMES} - free_frames fa - {f}"
    by (auto simp: deallocate_frame_spec)
qed

section \<open>Frames in a row\<close>

definition free_run :: "(nat \<Rightarrow> bool) \<Rightarrow> nat \<Rightarrow> nat \<Rightarrow> bool" where
  "free_run u n s \<longleftrightarrow> (\<forall>j. s \<le> j \<and> j < s + n \<longrightarrow> \<not> u j)"

lemma shifted_bit: "drop_bit k w AND 1 \<noteq> 0 \<longleftrightarrow> bit w k" for w :: u8
  by (simp add: and_one_eq bit_iff_odd_drop_bit odd_iff_mod_2_eq_one)

text \<open>
  When a scan is at position \<open>i\<close> with a run of \<open>len\<close> free positions behind it, no run of \<open>n\<close> positions starts before that run. The
  two steps of such a scan, over a used and over a free position, keep this; the virtual memory allocator scans in the same way.
\<close>

definition run_state :: "(nat \<Rightarrow> bool) \<Rightarrow> nat \<Rightarrow> nat \<Rightarrow> nat \<Rightarrow> bool" where
  "run_state u n i len \<longleftrightarrow> len < n \<and> len \<le> i \<and> free_run u len (i - len) \<and> (\<forall>s < i - len. \<not> free_run u n s)"

lemma run_state_start: "0 < n \<Longrightarrow> run_state u n 0 0"
  by (simp add: run_state_def free_run_def)

lemma run_state_used:
  assumes "run_state u n i len" and "u i"
  shows "run_state u n (Suc i) 0"
proof -
  have "\<not> free_run u n s" if "s < Suc i" for s
  proof (cases "s < i - len")
    case False
    then have "s \<le> i" "i < s + n" using that assms(1) by (auto simp: run_state_def)
    with assms(2) show ?thesis by (auto simp: free_run_def)
  qed (use assms(1) in \<open>simp add: run_state_def\<close>)
  with assms(1) show ?thesis by (auto simp: run_state_def free_run_def)
qed

lemma run_state_free:
  assumes "run_state u n i len" and "\<not> u i"
  shows "free_run u (Suc len) (i - len)" and "Suc len \<noteq> n \<Longrightarrow> run_state u n (Suc i) (Suc len)"
proof -
  show run: "free_run u (Suc len) (i - len)" using assms by (auto simp: run_state_def free_run_def less_Suc_eq)
  assume "Suc len \<noteq> n"
  with run assms(1) show "run_state u n (Suc i) (Suc len)" by (auto simp: run_state_def)
qed

lemma run_state_end: "run_state u n N len \<Longrightarrow> s + n \<le> N \<Longrightarrow> \<not> free_run u n s"
  by (auto simp: run_state_def)

lemma contig_scan_spec:
  assumes "i \<le> N" and "run_state (used bm) n i len" and "st = (if len = 0 then None else Some (i - len))"
  shows "case contig_scan bm n [i..<N] st len of
      Some s \<Rightarrow> s + n \<le> N \<and> free_run (used bm) n s \<and> (\<forall>s' < s. \<not> free_run (used bm) n s')
    | None \<Rightarrow> \<forall>s. s + n \<le> N \<longrightarrow> \<not> free_run (used bm) n s"
  using assms
proof (induction "N - i" arbitrary: i st len)
  case 0
  then have "i = N" by simp
  with 0 run_state_end show ?case by auto
next
  case (Suc k)
  then have i: "[i..<N] = i # [Suc i..<N]" "k = N - Suc i" "Suc i \<le> N" by (simp_all add: upt_conv_Cons)
  show ?case
  proof (cases "used bm i")
    case True
    then have "contig_scan bm n [i..<N] st len = contig_scan bm n [Suc i..<N] None 0"
      by (simp add: i(1) shifted_bit used_def)
    with Suc.hyps(1) [OF i(2,3) run_state_used [OF Suc.prems(2) True]] show ?thesis by simp
  next
    case False
    note fr = run_state_free [OF Suc.prems(2) False]
    have s: "(case st of None \<Rightarrow> i | Some s \<Rightarrow> s) = i - len" "len \<le> i" "len < n"
      using Suc.prems(2,3) by (auto simp: run_state_def)
    have step: "contig_scan bm n [i..<N] st len =
        (if Suc len = n then Some (i - len) else contig_scan bm n [Suc i..<N] (Some (i - len)) (Suc len))"
      using False s(1) by (simp add: i(1) shifted_bit used_def Let_def)
    show ?thesis
    proof (cases "Suc len = n")
      case True
      with step fr(1) s Suc.prems(2) i(3) show ?thesis by (auto simp: run_state_def)
    next
      case False
      from Suc.hyps(1) [OF i(2,3) fr(2) [OF False], of "Some (i - len)"] False show ?thesis by (simp add: step)
    qed
  qed
qed

lemma contig_result:
  assumes "0 < n"
  shows "case contig_scan bm n [0..<N] None 0 of
      Some s \<Rightarrow> s + n \<le> N \<and> free_run (used bm) n s \<and> (\<forall>s' < s. \<not> free_run (used bm) n s')
    | None \<Rightarrow> \<forall>s. s + n \<le> N \<longrightarrow> \<not> free_run (used bm) n s"
  by (rule contig_scan_spec) (use assms in \<open>simp_all add: run_state_start\<close>)


lemma free_fold_used:
  "fa_ok fa \<Longrightarrow> start + n \<le> MAX_FRAMES \<Longrightarrow>
   fa_ok (fold (\<lambda>i. mark_used (start + i)) [0..<n] fa)
   \<and> free_frames (fold (\<lambda>i. mark_used (start + i)) [0..<n] fa) = free_frames fa - {start..<start + n}"
proof (induction n)
  case (Suc n)
  define fa1 where "fa1 = fold (\<lambda>i. mark_used (start + i)) [0..<n] fa"
  have 1: "fa_ok fa1" "free_frames fa1 = free_frames fa - {start..<start + n}" using Suc by (simp_all add: fa1_def)
  have 2: "fold (\<lambda>i. mark_used (start + i)) [0..<Suc n] fa = mark_used (start + n) fa1" by (simp add: fa1_def)
  have "start + n < MAX_FRAMES" using Suc.prems(2) by simp
  then have "free_frames (mark_used (start + n) fa1) = free_frames fa - {start..<start + Suc n}"
    unfolding free_mark_used [OF 1(1) \<open>start + n < MAX_FRAMES\<close>] 1(2) add_Suc_right atLeastLessThanSuc by auto
  with 1(1) show ?case unfolding 2 by simp
qed simp

lemma free_fold_free:
  "fa_ok fa \<Longrightarrow> start + n \<le> MAX_FRAMES \<Longrightarrow>
   fa_ok (fold (\<lambda>i. mark_free (start + i)) [0..<n] fa)
   \<and> free_frames (fold (\<lambda>i. mark_free (start + i)) [0..<n] fa) = free_frames fa \<union> {start..<start + n}"
proof (induction n)
  case (Suc n)
  define fa1 where "fa1 = fold (\<lambda>i. mark_free (start + i)) [0..<n] fa"
  have 1: "fa_ok fa1" "free_frames fa1 = free_frames fa \<union> {start..<start + n}" using Suc by (simp_all add: fa1_def)
  have 2: "fold (\<lambda>i. mark_free (start + i)) [0..<Suc n] fa = mark_free (start + n) fa1" by (simp add: fa1_def)
  have "start + n < MAX_FRAMES" using Suc.prems(2) by simp
  then have "free_frames (mark_free (start + n) fa1) = free_frames fa \<union> {start..<start + Suc n}"
    unfolding free_mark_free [OF 1(1) \<open>start + n < MAX_FRAMES\<close>] 1(2) add_Suc_right atLeastLessThanSuc by auto
  with 1(1) show ?case unfolding 2 by simp
qed simp

lemma free_run_frames: "fa_ok fa \<Longrightarrow> s + n \<le> MAX_FRAMES \<Longrightarrow> free_run (used (FRAME_BITMAP fa)) n s \<longleftrightarrow> {s..<s + n} \<subseteq> free_frames fa"
  by (auto simp: free_run_def free_frames_def fa_ok_def subset_iff)

lemma dma_alloc_spec:
  assumes "fa_ok fa" and "allocate_contiguous_frames n fa = Some (s, fa')"
  shows "fa_ok fa' \<and> 0 < n \<and> s + n \<le> MAX_FRAMES \<and> {s..<s + n} \<subseteq> free_frames fa
    \<and> free_frames fa' = free_frames fa - {s..<s + n} \<and> (\<forall>s' < s. \<not> {s'..<s' + n} \<subseteq> free_frames fa)"
proof -
  have n: "0 < n" and scan: "contig_scan (FRAME_BITMAP fa) n [0..<num_frames fa] None 0 = Some s"
    and fa': "fa' = (let fa1 = fold (\<lambda>i. mark_used (s + i)) [0..<n] fa in
        fa1\<lparr>ALLOCATED_FRAMES := ALLOCATED_FRAMES fa1 + word_of_nat n, next_free := s + n\<rparr>)"
    using assms(2) by (auto simp: allocate_contiguous_frames_def Let_def split: if_splits option.splits)
  have N: "num_frames fa = MAX_FRAMES" using assms(1) by (simp add: fa_ok_def)
  from contig_result [OF n, where bm = "FRAME_BITMAP fa" and N = MAX_FRAMES] scan N
  have s: "s + n \<le> MAX_FRAMES" "free_run (used (FRAME_BITMAP fa)) n s" "\<forall>s' < s. \<not> free_run (used (FRAME_BITMAP fa)) n s'" by simp_all
  then have "\<forall>s' < s. \<not> {s'..<s' + n} \<subseteq> free_frames fa" using free_run_frames [OF assms(1)] by auto
  with n s free_run_frames [OF assms(1) s(1)] free_fold_used [OF assms(1) s(1)] show ?thesis by (simp add: fa' Let_def)
qed

lemma dma_alloc_None:
  assumes "fa_ok fa" and "0 < n"
  shows "allocate_contiguous_frames n fa = None \<longleftrightarrow> (\<forall>s. s + n \<le> MAX_FRAMES \<longrightarrow> \<not> {s..<s + n} \<subseteq> free_frames fa)"
proof -
  have N: "num_frames fa = MAX_FRAMES" using assms(1) by (simp add: fa_ok_def)
  show ?thesis
  proof (cases "contig_scan (FRAME_BITMAP fa) n [0..<MAX_FRAMES] None 0")
    case None
    with contig_result [OF assms(2), where bm = "FRAME_BITMAP fa" and N = MAX_FRAMES] free_run_frames [OF assms(1)] assms(2) N show ?thesis
      by (simp add: allocate_contiguous_frames_def)
  next
    case (Some s)
    with contig_result [OF assms(2), where bm = "FRAME_BITMAP fa" and N = MAX_FRAMES] free_run_frames [OF assms(1)] assms(2) N show ?thesis
      by (auto simp: allocate_contiguous_frames_def Let_def)
  qed
qed

section \<open>The boot state\<close>

lemma free_region_fold:
  assumes "length bm = BITMAP_SIZE"
  shows "length (fst (fold (\<lambda>idx (bm, n). if idx < MAX_FRAMES then (clear_bit bm idx, n + 1) else (bm, n)) xs (bm, c))) = BITMAP_SIZE
    \<and> (\<forall>i. used (fst (fold (\<lambda>idx (bm, n). if idx < MAX_FRAMES then (clear_bit bm idx, n + 1) else (bm, n)) xs (bm, c))) i
          \<longleftrightarrow> used bm i \<and> \<not> (i \<in> set xs \<and> i < MAX_FRAMES))"
  using assms
proof (induction xs arbitrary: bm c)
  case (Cons x xs)
  show ?case
  proof (cases "x < MAX_FRAMES")
    case True
    with Cons.IH [of "clear_bit bm x"] Cons.prems frame_byte [OF True] show ?thesis by (auto simp: used_clear)
  next
    case False
    with Cons show ?thesis by auto
  qed
qed simp

definition usable :: "mem_region list \<Rightarrow> nat set" where
  "usable mm = {f. f < MAX_FRAMES \<and> (\<exists>r \<in> set mm. mr_usable r \<and> mr_start r \<le> f * 4096 \<and> (f + 1) * 4096 \<le> mr_end r)}"

lemma region_frames_iff: "f \<in> set (region_frames r) \<longleftrightarrow> mr_start r \<le> f * 4096 \<and> (f + 1) * 4096 \<le> mr_end r"
proof -
  have "(mr_start r + 4095) div 4096 \<le> f \<longleftrightarrow> mr_start r \<le> f * 4096"
    using div_less_iff_less_mult [of 4096 "mr_start r + 4095" "Suc f"] by (simp only: less_Suc_eq_le mult_Suc) linarith
  moreover have "f < mr_end r div 4096 \<longleftrightarrow> (f + 1) * 4096 \<le> mr_end r"
    using less_eq_div_iff_mult_less_eq [of 4096 "Suc f" "mr_end r"] by (simp only: Suc_le_eq Suc_eq_plus1 [symmetric])
  ultimately show ?thesis by (simp add: region_frames_def)
qed

lemma init_fold:
  assumes "length bm = BITMAP_SIZE"
  shows "length (fst (fold free_region mm (bm, c))) = BITMAP_SIZE
    \<and> (\<forall>i. used (fst (fold free_region mm (bm, c))) i \<longleftrightarrow> used bm i \<and> i \<notin> usable mm)"
  using assms
proof (induction mm arbitrary: bm c)
  case (Cons r mm)
  obtain bm1 c1 where st: "free_region r (bm, c) = (bm1, c1)" by fastforce
  have "length bm1 = BITMAP_SIZE \<and> (\<forall>i. used bm1 i \<longleftrightarrow> used bm i \<and> i \<notin> usable [r])"
    using free_region_fold [OF Cons.prems, of "region_frames r" c] st Cons.prems
    by (auto simp: free_region_def usable_def region_frames_iff split: if_splits)
  moreover have "usable (r # mm) = usable [r] \<union> usable mm" by (auto simp: usable_def)
  ultimately show ?case using Cons.IH [of bm1 c1] st by auto
qed (simp add: usable_def)

lemma fa_init_spec: "fa_ok (fa_init mm)" "free_frames (fa_init mm) = usable mm"
proof -
  have "i < MAX_FRAMES \<Longrightarrow> used (replicate BITMAP_SIZE 0xFF) i" for i
    using frame_byte [of i] full_byte [of "i mod 8"] by (simp add: used_def)
  then show "fa_ok (fa_init mm)" "free_frames (fa_init mm) = usable mm"
    using init_fold [of "replicate BITMAP_SIZE 0xFF" mm 0]
    by (auto simp: fa_init_def fa_ok_def free_frames_def usable_def split: prod.split)
qed


section \<open>Properties\<close>

text \<open>
  C13: from the boot state on, whatever sequence of allocations and frees of frames a kernel performs, the frames it holds are pairwise
  distinct, lie entirely inside usable memory, and together with the free frames they make up all of the usable memory: no frame is
  handed out twice, invented or lost.
\<close>

theorem frames_exclusive:
  assumes "pool_run allocate_frame deallocate_frame ops ([], fa_init mm) = (held, fa)"
  shows "distinct held \<and> set held \<subseteq> usable mm \<and> free_frames fa = usable mm - set held"
proof -
  note r = frames.run_held [OF fa_init_spec(1) _ _ assms]
  have ok: "fa_ok fa" and d: "distinct held" and sub: "set held \<subseteq> {..<MAX_FRAMES} - free_frames fa"
    and rest: "({..<MAX_FRAMES} - free_frames fa) - set held = {..<MAX_FRAMES} - usable mm"
    using r by (simp_all add: fa_init_spec(2))
  have "free_frames fa \<subseteq> {..<MAX_FRAMES}" "usable mm \<subseteq> {..<MAX_FRAMES}"
    using free_frames_bound [OF ok] free_frames_bound [OF fa_init_spec(1)] by (auto simp: fa_init_spec(2))
  with d sub rest show ?thesis by blast
qed

theorem frames_exclusive_witness:
  "\<exists>held fa. pool_run allocate_frame deallocate_frame [Take, Take, Give 0, Take]
       ([], fa_init [\<lparr>mr_usable = True, mr_start = 4096, mr_end = 20480\<rparr>]) = (held, fa) \<and> distinct held
     \<and> free_frames fa = usable [\<lparr>mr_usable = True, mr_start = 4096, mr_end = 20480\<rparr>] - set held"
proof -
  obtain held fa where "pool_run allocate_frame deallocate_frame [Take, Take, Give 0, Take]
       ([], fa_init [\<lparr>mr_usable = True, mr_start = 4096, mr_end = 20480\<rparr>]) = (held, fa)" by fastforce
  with frames_exclusive [OF this] show ?thesis by blast
qed

text \<open>
  The contiguous (DMA) allocator is first fit. It fails only if the \<open>n\<close> frames asked for are nowhere free in a row, it returns the
  lowest place where they are, exactly those frames stop being free, and freeing the region of the same size makes
  exactly them free again.
\<close>

theorem dma_first_fit:
  assumes "fa_ok fa" and "0 < sz" and "n = (sz + 4095) div 4096"
  shows "case alloc_dma_contig sz fa of
      None \<Rightarrow> \<forall>s. s + n \<le> MAX_FRAMES \<longrightarrow> \<not> {s..<s + n} \<subseteq> free_frames fa
    | Some (s, fa') \<Rightarrow> s + n \<le> MAX_FRAMES \<and> {s..<s + n} \<subseteq> free_frames fa \<and> (\<forall>s' < s. \<not> {s'..<s' + n} \<subseteq> free_frames fa)
        \<and> free_frames fa' = free_frames fa - {s..<s + n} \<and> free_frames (dealloc_dma_contig s sz fa') = free_frames fa"
proof -
  have n: "0 < n" using assms(2,3) by simp
  show ?thesis
  proof (cases "alloc_dma_contig sz fa")
    case None
    with dma_alloc_None [OF assms(1) n] show ?thesis by (simp add: alloc_dma_contig_def assms(3))
  next
    case (Some r)
    obtain s fa' where r: "r = (s, fa')" by fastforce
    have alloc: "allocate_contiguous_frames n fa = Some (s, fa')" using Some by (simp add: alloc_dma_contig_def r assms(3))
    note sp = dma_alloc_spec [OF assms(1) alloc]
    have "free_frames (dealloc_dma_contig s sz fa') = free_frames fa' \<union> {s..<s + n}"
      using free_fold_free [of fa' s n] sp by (simp add: dealloc_dma_contig_def Let_def assms(3))
    also have "\<dots> = free_frames fa" using sp by blast
    finally show ?thesis using sp Some by (simp add: r)
  qed
qed

theorem dma_first_fit_witness:
  "case alloc_dma_contig 8192 (fa_init [\<lparr>mr_usable = True, mr_start = 4096, mr_end = 20480\<rparr>]) of
      None \<Rightarrow> False
    | Some (s, fa') \<Rightarrow> s = 1 \<and> free_frames fa' = {3, 4}"
proof -
  define fa where "fa = fa_init [\<lparr>mr_usable = True, mr_start = 4096, mr_end = 20480\<rparr>]"
  have "f < MAX_FRAMES \<and> 4096 \<le> f * 4096 \<and> (f + 1) * 4096 \<le> (20480 :: nat) \<longleftrightarrow> f \<in> {1, 2, 3, 4}" for f
    by (auto simp: MAX_FRAMES_def)
  then have free: "free_frames fa = {1, 2, 3, 4}" by (auto simp: fa_def fa_init_spec usable_def)
  have "fa_ok fa" by (simp add: fa_def fa_init_spec)
  from dma_first_fit [OF this, of 8192 2]
  have spec: "case alloc_dma_contig 8192 fa of None \<Rightarrow> \<forall>s. s + 2 \<le> MAX_FRAMES \<longrightarrow> \<not> {s..<s + 2} \<subseteq> free_frames fa
    | Some (s, fa') \<Rightarrow> {s..<s + 2} \<subseteq> free_frames fa \<and> (\<forall>s' < s. \<not> {s'..<s' + 2} \<subseteq> free_frames fa)
        \<and> free_frames fa' = free_frames fa - {s..<s + 2}" by (auto split: option.splits)
  have run: "{1..<1 + 2} \<subseteq> free_frames fa" "\<not> {0..<0 + 2} \<subseteq> free_frames fa" by (auto simp: free)
  show ?thesis
  proof (cases "alloc_dma_contig 8192 fa")
    case None
    with spec run(1) show ?thesis by (auto simp: MAX_FRAMES_def)
  next
    case (Some r)
    obtain s fa' where r: "r = (s, fa')" by fastforce
    with spec Some have s: "{s..<s + 2} \<subseteq> free_frames fa" "\<forall>s' < s. \<not> {s'..<s' + 2} \<subseteq> free_frames fa"
      "free_frames fa' = free_frames fa - {s..<s + 2}" by auto
    from s(2) run(1) have "s \<le> 1" by (meson not_le)
    moreover from s(1) run(2) have "s \<noteq> 0" by metis
    ultimately have "s = 1" by simp
    moreover have "{1, 2, 3, 4} - {1..<1 + 2 :: nat} = {3, 4}" by (simp add: atLeastLessThan_def) auto
    ultimately have "free_frames fa' = {3, 4}" using s(3) free by metis
    with \<open>s = 1\<close> Some r show ?thesis unfolding fa_def [symmetric] by simp
  qed
qed

end
