(* ===== verification/Slab.thy ===== *)
theory Slab
  imports FrameAlloc
begin

text \<open>
  The slab allocator (\<^verbatim>\<open>src/slab.rs\<close>). Free objects are linked through their own memory: the first word of a free slot holds the address of
  the next free slot. The model keeps that memory as a map from addresses to links, so the free list is a pointer structure here
  too, and relates it to a list of slots. The backing memory comes from the global allocator, which is an argument: for the \<open>k\<close>-th attempt to
  grow, with a size and an alignment, it gives an address (0 for failure). The number of attempts is the one field of the state that the code
  does not have.
\<close>

section \<open>Slabs and caches\<close>

record slab =
  sl_base :: nat
  sl_bytes :: nat
  sl_used :: nat
  sl_capacity :: nat

record slab_cache =
  obj_stride :: nat
  obj_align :: nat
  objs_per_slab :: nat
  free_list :: "nat option"
  slabs :: "slab list"
  allocs :: nat
  frees :: nat
  grew :: nat
  node_next :: "nat \<Rightarrow> nat option"
  heap_calls :: nat

type_synonym heap_alloc = "nat \<Rightarrow> nat \<Rightarrow> nat \<Rightarrow> nat"

text \<open>\<open>usize::next_power_of_two\<close>, and \<open>Layout::from_size_align\<close>, which wants a power of two and a size that does not overflow \<open>isize\<close>.\<close>

fun next_power_of_two :: "nat \<Rightarrow> nat" where
  "next_power_of_two n = (if n \<le> 1 then 1 else 2 * next_power_of_two ((n + 1) div 2))"

declare next_power_of_two.simps [simp del]

definition is_power_of_two :: "nat \<Rightarrow> bool" where
  "is_power_of_two n \<longleftrightarrow> n \<noteq> 0 \<and> next_power_of_two n = n"

definition layout_ok :: "nat \<Rightarrow> nat \<Rightarrow> bool" where
  "layout_ok sz al \<longleftrightarrow> is_power_of_two al \<and> sz \<le> 2 ^ 63 - al"

definition slab_new :: "heap_alloc \<Rightarrow> nat \<Rightarrow> nat \<Rightarrow> nat \<Rightarrow> nat \<Rightarrow> slab option" where
  "slab_new ga k stride al capacity =
     (if 2 ^ 64 \<le> stride * capacity then None
      else if \<not> layout_ok (stride * capacity) al then None
      else if ga k (stride * capacity) al = 0 then None
      else Some \<lparr>sl_base = ga k (stride * capacity) al, sl_bytes = stride * capacity, sl_used = 0, sl_capacity = capacity\<rparr>)"

definition slot_addrs :: "nat \<Rightarrow> slab \<Rightarrow> nat list" where
  "slot_addrs stride sl = map (\<lambda>i. sl_base sl + i * stride) [0..<sl_capacity sl]"

definition slab_contains :: "slab \<Rightarrow> nat \<Rightarrow> bool" where
  "slab_contains sl p \<longleftrightarrow> sl_base sl \<le> p \<and> p < sl_base sl + sl_bytes sl"

definition cache_new :: "nat \<Rightarrow> nat \<Rightarrow> nat \<Rightarrow> slab_cache" where
  "cache_new obj_size al per =
     (let raw_align = next_power_of_two (max al 8);
          raw_size = max obj_size 8;
          stride = unat ((word_of_nat (raw_size + raw_align - 1) :: u64) AND NOT (word_of_nat (raw_align - 1)))
      in \<lparr>obj_stride = stride, obj_align = raw_align, objs_per_slab = max per 1, free_list = None, slabs = [],
          allocs = 0, frees = 0, grew = 0, node_next = Map.empty, heap_calls = 0\<rparr>)"

definition push_slot :: "nat \<Rightarrow> slab_cache \<Rightarrow> slab_cache" where
  "push_slot p c = c\<lparr>node_next := (node_next c)(p := free_list c), free_list := Some p\<rparr>"

definition cache_grow :: "heap_alloc \<Rightarrow> slab_cache \<Rightarrow> bool \<times> slab_cache" where
  "cache_grow ga c =
     (case slab_new ga (heap_calls c) (obj_stride c) (obj_align c) (objs_per_slab c) of
        None \<Rightarrow> (False, c\<lparr>heap_calls := heap_calls c + 1\<rparr>)
      | Some sl \<Rightarrow>
          (let c1 = fold push_slot (slot_addrs (obj_stride c) sl) (c\<lparr>slabs := slabs c @ [sl], heap_calls := heap_calls c + 1\<rparr>)
           in (True, c1\<lparr>grew := grew c1 + 1\<rparr>)))"

definition bump_used :: "nat \<Rightarrow> slab list \<Rightarrow> slab list" where
  "bump_used p = update_first (\<lambda>sl. slab_contains sl p) (\<lambda>sl. sl\<lparr>sl_used := sl_used sl + 1\<rparr>)"

definition drop_used :: "nat \<Rightarrow> slab list \<Rightarrow> slab list" where
  "drop_used p = update_first (\<lambda>sl. slab_contains sl p) (\<lambda>sl. sl\<lparr>sl_used := sl_used sl - 1\<rparr>)"

definition cache_pop :: "slab_cache \<Rightarrow> nat option \<times> slab_cache" where
  "cache_pop c =
     (case free_list c of
        None \<Rightarrow> (None, c)
      | Some p \<Rightarrow> (Some p, c\<lparr>free_list := node_next c p, slabs := bump_used p (slabs c), allocs := allocs c + 1\<rparr>))"

definition cache_alloc :: "heap_alloc \<Rightarrow> slab_cache \<Rightarrow> nat option \<times> slab_cache" where
  "cache_alloc ga c =
     (if free_list c = None
      then (case cache_grow ga c of (ok, c1) \<Rightarrow> if ok then cache_pop c1 else (None, c1))
      else cache_pop c)"

definition cache_free :: "nat \<Rightarrow> slab_cache \<Rightarrow> slab_cache" where
  "cache_free p c =
     (let c1 = push_slot p (c\<lparr>slabs := drop_used p (slabs c)\<rparr>) in c1\<lparr>frees := frees c1 + 1\<rparr>)"

record slab_stats =
  st_obj_size :: nat
  st_objs_per_slab :: nat
  st_total_slabs :: nat
  st_total_objs :: nat
  st_free_objs :: nat
  st_used_objs :: nat

definition cache_stats :: "slab_cache \<Rightarrow> slab_stats" where
  "cache_stats c =
     (let total_objs = sum_list (map sl_capacity (slabs c)); used_objs = sum_list (map sl_used (slabs c))
      in \<lparr>st_obj_size = obj_stride c, st_objs_per_slab = objs_per_slab c, st_total_slabs = length (slabs c),
          st_total_objs = total_objs, st_free_objs = total_objs - used_objs, st_used_objs = used_objs\<rparr>)"

definition KMALLOC_SIZES :: "nat list" where "KMALLOC_SIZES = [16, 32, 64, 128, 256, 512, 1024, 2048, 4096]"

section \<open>Strides and alignments\<close>

lemma next_power_of_two_spec: "\<exists>k. next_power_of_two n = 2 ^ k \<and> n \<le> 2 ^ k \<and> (\<forall>j. n \<le> 2 ^ j \<longrightarrow> k \<le> j)"
proof (induction n rule: next_power_of_two.induct)
  case (1 n)
  show ?case
  proof (cases "n \<le> 1")
    case True
    then show ?thesis by (intro exI [of _ 0]) (auto simp: next_power_of_two.simps)
  next
    case False
    from 1 [OF False] obtain k where k: "next_power_of_two ((n + 1) div 2) = 2 ^ k" "(n + 1) div 2 \<le> 2 ^ k"
      "\<forall>j. (n + 1) div 2 \<le> 2 ^ j \<longrightarrow> k \<le> j" by blast
    have "Suc k \<le> j" if "n \<le> 2 ^ j" for j
    proof (cases j)
      case 0
      with that False show ?thesis by simp
    next
      case (Suc i)
      with that have "(n + 1) div 2 \<le> 2 ^ i" by simp
      with k(3) Suc show ?thesis by simp
    qed
    moreover have "n \<le> 2 ^ Suc k" using k(2) by simp
    ultimately show ?thesis using k(1) False by (intro exI [of _ "Suc k"]) (simp add: next_power_of_two.simps [of n])
  qed
qed

lemma power_is_power_of_two: "is_power_of_two (2 ^ k)"
proof -
  obtain j where j: "next_power_of_two (2 ^ k) = 2 ^ j" "(2 :: nat) ^ k \<le> 2 ^ j" "\<forall>i. (2 :: nat) ^ k \<le> 2 ^ i \<longrightarrow> j \<le> i"
    using next_power_of_two_spec [of "2 ^ k"] by blast
  then have "j = k" by (metis le_antisym order_refl power_le_imp_le_exp one_less_numeral_iff semiring_norm(76))
  with j(1) show ?thesis by (simp add: is_power_of_two_def)
qed

lemma align_up_word:
  assumes "x + 2 ^ k - 1 < 2 ^ 64" and "k < 64"
  shows "unat ((word_of_nat (x + 2 ^ k - 1) :: u64) AND NOT (word_of_nat (2 ^ k - 1))) = (x + 2 ^ k - 1) div 2 ^ k * 2 ^ k"
proof -
  have m: "(word_of_nat (2 ^ k - 1) :: u64) = mask k"
    by (simp add: mask_eq_exp_minus_1 of_nat_diff)
  have "w AND NOT (mask k) = push_bit k (drop_bit k w)" for w :: u64
    by (rule bit_word_eqI) (auto simp: bit_simps)
  then have "unat ((word_of_nat (x + 2 ^ k - 1) :: u64) AND NOT (mask k)) = unat (push_bit k (drop_bit k (word_of_nat (x + 2 ^ k - 1) :: u64)))"
    by simp
  also have "\<dots> = (x + 2 ^ k - 1) div 2 ^ k * 2 ^ k"
  proof -
    have w: "unat (word_of_nat (x + 2 ^ k - 1) :: u64) = x + 2 ^ k - 1" using assms(1) by (simp add: unat_of_nat)
    have "(x + 2 ^ k - 1) div 2 ^ k * 2 ^ k < 2 ^ 64" using assms(1) by (meson div_times_less_eq_dividend order_le_less_trans)
    moreover have "unat (push_bit k (drop_bit k v)) = take_bit 64 (push_bit k (drop_bit k (unat v)))" for v :: u64
    proof -
      have "take_bit 64 (unat v) = unat v" using unsigned_less [of v] by (intro take_bit_nat_eq_self) simp
      then show ?thesis by (simp add: unsigned_push_bit_eq unsigned_drop_bit_eq)
    qed
    ultimately show ?thesis by (simp only: w push_bit_eq_mult drop_bit_eq_div take_bit_nat_eq_self)
  qed
  finally show ?thesis using m by simp
qed


lemma cache_new_spec:
  assumes "obj_size + next_power_of_two (max al 8) < 2 ^ 63" and "8 \<le> obj_size"
  shows "is_power_of_two (obj_align (cache_new obj_size al per)) \<and> al \<le> obj_align (cache_new obj_size al per)
    \<and> obj_align (cache_new obj_size al per) dvd obj_stride (cache_new obj_size al per)
    \<and> obj_size \<le> obj_stride (cache_new obj_size al per) \<and> 0 < objs_per_slab (cache_new obj_size al per)"
proof -
  obtain k where k: "next_power_of_two (max al 8) = 2 ^ k" "max al 8 \<le> 2 ^ k" using next_power_of_two_spec by blast
  have lt: "2 ^ k < (2 :: nat) ^ 63" using assms(1) k(1) by linarith
  then have "k < 63" by (rule power_less_imp_less_exp [rotated]) simp
  then have k64: "k < 64" by simp
  have ob: "max obj_size 8 = obj_size" using assms(2) by simp
  have "obj_size + 2 ^ k - 1 < 2 ^ 64" using assms(1) k(1) by simp
  note stride = align_up_word [OF this k64]
  have ge: "obj_size \<le> (obj_size + 2 ^ k - 1) div 2 ^ k * 2 ^ k"
  proof -
    have "obj_size + 2 ^ k - 1 = (obj_size + 2 ^ k - 1) div 2 ^ k * 2 ^ k + (obj_size + 2 ^ k - 1) mod 2 ^ k" by (rule div_mult_mod_eq [symmetric])
    moreover have "(obj_size + 2 ^ k - 1) mod 2 ^ k < 2 ^ k" by simp
    ultimately show ?thesis by linarith
  qed
  have st: "obj_stride (cache_new obj_size al per) = (obj_size + 2 ^ k - 1) div 2 ^ k * 2 ^ k"
    by (simp only: cache_new_def Let_def k(1) ob stride slab_cache.simps)
  have al: "obj_align (cache_new obj_size al per) = 2 ^ k" "objs_per_slab (cache_new obj_size al per) = max per 1"
    by (simp_all only: cache_new_def Let_def k(1) slab_cache.simps)
  have "0 < max per 1" by (simp add: max_def)
  with k(2) ge show ?thesis unfolding st al by (simp add: power_is_power_of_two)
qed

section \<open>The free list in memory\<close>

fun chain :: "(nat \<Rightarrow> nat option) \<Rightarrow> nat option \<Rightarrow> nat list \<Rightarrow> bool" where
  "chain m h [] \<longleftrightarrow> h = None"
| "chain m h (p # ps) \<longleftrightarrow> h = Some p \<and> chain m (m p) ps"

lemma chain_upd: "p \<notin> set ps \<Longrightarrow> chain (m(p := v)) h ps = chain m h ps"
  by (induction ps arbitrary: h) auto

definition all_slots :: "slab_cache \<Rightarrow> nat list" where
  "all_slots c = concat (map (slot_addrs (obj_stride c)) (slabs c))"

text \<open>The documented contract of the global allocator, for the block sizes a cache asks for: live blocks are aligned and do not overlap.\<close>

definition heap_ok :: "heap_alloc \<Rightarrow> nat \<Rightarrow> nat \<Rightarrow> bool" where
  "heap_ok ga bytes al \<longleftrightarrow> (\<forall>k. al dvd ga k bytes al)
     \<and> (\<forall>j k. j \<noteq> k \<and> ga j bytes al \<noteq> 0 \<and> ga k bytes al \<noteq> 0 \<longrightarrow>
          ga j bytes al + bytes \<le> ga k bytes al \<or> ga k bytes al + bytes \<le> ga j bytes al)"

definition apart :: "slab \<Rightarrow> slab \<Rightarrow> bool" where
  "apart a b \<longleftrightarrow> sl_base a + sl_bytes a \<le> sl_base b \<or> sl_base b + sl_bytes b \<le> sl_base a"

definition slab_geom :: "heap_alloc \<Rightarrow> slab_cache \<Rightarrow> bool" where
  "slab_geom ga c \<longleftrightarrow> 0 < obj_stride c \<and> 0 < objs_per_slab c \<and> obj_align c dvd obj_stride c
     \<and> heap_ok ga (obj_stride c * objs_per_slab c) (obj_align c) \<and> sorted_wrt apart (slabs c)
     \<and> (\<forall>sl \<in> set (slabs c). sl_base sl \<noteq> 0 \<and> sl_capacity sl = objs_per_slab c \<and> sl_bytes sl = obj_stride c * objs_per_slab c
          \<and> (\<exists>k < heap_calls c. sl_base sl = ga k (obj_stride c * objs_per_slab c) (obj_align c)))"

definition slots_used :: "nat \<Rightarrow> nat list \<Rightarrow> slab \<Rightarrow> bool" where
  "slots_used stride fl sl \<longleftrightarrow> sl_used sl = card (set (slot_addrs stride sl) - set fl)"

definition slab_inv :: "heap_alloc \<Rightarrow> slab_cache \<Rightarrow> nat list \<Rightarrow> bool" where
  "slab_inv ga c fl \<longleftrightarrow> slab_geom ga c \<and> chain (node_next c) (free_list c) fl \<and> distinct fl \<and> set fl \<subseteq> set (all_slots c)
     \<and> (\<forall>sl \<in> set (slabs c). slots_used (obj_stride c) fl sl)"

definition cache_ok :: "heap_alloc \<Rightarrow> nat \<Rightarrow> nat \<Rightarrow> slab_cache \<Rightarrow> bool" where
  "cache_ok ga stride al c \<longleftrightarrow> obj_stride c = stride \<and> obj_align c = al \<and> (\<exists>fl. slab_inv ga c fl)"

lemma chain_unique: "chain m h xs \<Longrightarrow> chain m h ys \<Longrightarrow> xs = ys"
proof (induction xs arbitrary: h ys)
  case Nil
  then show ?case by (cases ys) auto
next
  case (Cons x xs)
  then show ?case by (cases ys) auto
qed

text \<open>The objects that are out: slots that the chain of free nodes does not reach.\<close>

fun walk :: "nat \<Rightarrow> (nat \<Rightarrow> nat option) \<Rightarrow> nat option \<Rightarrow> nat list" where
  "walk 0 m h = []"
| "walk (Suc n) m None = []"
| "walk (Suc n) m (Some p) = p # walk n m (m p)"

definition objects_out :: "slab_cache \<Rightarrow> nat set" where
  "objects_out c = set (all_slots c) - set (walk (length (all_slots c)) (node_next c) (free_list c))"

lemma walk_chain: "chain m h xs \<Longrightarrow> length xs \<le> n \<Longrightarrow> walk n m h = xs"
proof (induction xs arbitrary: h n)
  case Nil
  then show ?case by (cases n) auto
next
  case (Cons x xs)
  then show ?case by (cases n) auto
qed


section \<open>Slots\<close>

definition sized :: "nat \<Rightarrow> slab \<Rightarrow> bool" where
  "sized stride sl \<longleftrightarrow> sl_bytes sl = stride * sl_capacity sl"

lemma slot_addrs_contained:
  assumes "sized stride sl" and "0 < stride" and "p \<in> set (slot_addrs stride sl)"
  shows "slab_contains sl p \<and> p + stride \<le> sl_base sl + sl_bytes sl"
proof -
  from assms(3) obtain i where i: "p = sl_base sl + i * stride" "i < sl_capacity sl" unfolding slot_addrs_def by fastforce
  then have "Suc i * stride \<le> sl_capacity sl * stride" by (intro mult_le_mono1) simp
  with i assms(1,2) show ?thesis by (auto simp: slab_contains_def sized_def mult.commute)
qed

lemma slot_addrs_distinct: "0 < stride \<Longrightarrow> distinct (slot_addrs stride sl)"
  by (auto simp: slot_addrs_def distinct_map inj_on_def)

lemma apart_contains: "apart a b \<Longrightarrow> slab_contains a p \<Longrightarrow> \<not> slab_contains b p"
  by (auto simp: apart_def slab_contains_def)

lemma update_unique:
  "sorted_wrt (\<lambda>a b. P a \<longrightarrow> \<not> P b) xs \<Longrightarrow> update_first P f xs = map (\<lambda>x. if P x then f x else x) xs"
proof (induction xs)
  case (Cons x xs)
  show ?case
  proof (cases "P x")
    case True
    with Cons.prems have "map (\<lambda>x. if P x then f x else x) xs = xs" by (intro map_idI) auto
    with True show ?thesis by simp
  qed (use Cons in simp)
qed simp

lemma update_contains:
  assumes "sorted_wrt apart sls"
  shows "update_first (\<lambda>sl. slab_contains sl p) f sls = map (\<lambda>sl. if slab_contains sl p then f sl else sl) sls"
  by (rule update_unique, rule sorted_wrt_mono_rel [OF _ assms]) (auto dest: apart_contains)

lemma slots_unaffected [simp]:
  "slot_addrs st (sl\<lparr>sl_used := u\<rparr>) = slot_addrs st sl" "slab_contains (sl\<lparr>sl_used := u\<rparr>) p = slab_contains sl p"
  "apart (a\<lparr>sl_used := u\<rparr>) b = apart a b" "apart a (b\<lparr>sl_used := u\<rparr>) = apart a b"
  by (simp_all add: slot_addrs_def slab_contains_def apart_def)

lemma all_slots_distinct:
  assumes "sorted_wrt apart sls" and "\<forall>sl \<in> set sls. sized stride sl" and "0 < stride"
  shows "distinct (concat (map (slot_addrs stride) sls))"
  using assms(1,2)
proof (induction sls)
  case (Cons sl sls)
  have "set (slot_addrs stride sl) \<inter> set (concat (map (slot_addrs stride) sls)) = {}"
  proof (rule ccontr)
    assume "set (slot_addrs stride sl) \<inter> set (concat (map (slot_addrs stride) sls)) \<noteq> {}"
    then obtain p sl' where p: "p \<in> set (slot_addrs stride sl)" "sl' \<in> set sls" "p \<in> set (slot_addrs stride sl')" by auto
    with Cons.prems slot_addrs_contained [OF _ assms(3)] have "slab_contains sl p" "slab_contains sl' p" by auto
    with Cons.prems(1) p(2) apart_contains show False by auto
  qed
  with Cons slot_addrs_distinct [OF assms(3)] show ?case by simp
qed simp

lemma slab_inv_sized: "slab_inv ga c fl \<Longrightarrow> \<forall>sl \<in> set (slabs c). sized (obj_stride c) sl"
  by (auto simp: slab_inv_def slab_geom_def sized_def)

lemma slab_inv_distinct: "slab_inv ga c fl \<Longrightarrow> distinct (all_slots c)"
  unfolding all_slots_def
  by (rule all_slots_distinct) (auto simp: slab_inv_def slab_geom_def sized_def)

lemma objects_out_eq:
  assumes "slab_inv ga c fl"
  shows "objects_out c = set (all_slots c) - set fl"
proof -
  have "length fl \<le> length (all_slots c)"
    using assms card_mono [of "set (all_slots c)" "set fl"] distinct_card [of fl] card_length [of "all_slots c"]
    by (auto simp: slab_inv_def intro: le_trans)
  with assms walk_chain [of "node_next c" "free_list c" fl] show ?thesis by (simp add: objects_out_def slab_inv_def)
qed

lemma slot_in_slab:
  assumes "slab_inv ga c fl" and "sl \<in> set (slabs c)" and "p \<in> set (all_slots c)"
  shows "slab_contains sl p \<longleftrightarrow> p \<in> set (slot_addrs (obj_stride c) sl)"
proof
  assume c: "slab_contains sl p"
  from assms(3) obtain sl' where sl': "sl' \<in> set (slabs c)" "p \<in> set (slot_addrs (obj_stride c) sl')" by (auto simp: all_slots_def)
  have "slab_contains sl' p"
    using slot_addrs_contained [OF _ _ sl'(2)] slab_inv_sized [OF assms(1)] sl'(1) assms(1) by (auto simp: slab_inv_def slab_geom_def)
  moreover have "sl = sl' \<or> apart sl sl' \<or> apart sl' sl"
    using assms(1,2) sl'(1) by (auto simp: slab_inv_def slab_geom_def sorted_wrt_iff_nth_less in_set_conv_nth) (metis nat_neq_iff)
  ultimately have "sl = sl'" using c apart_contains by blast
  with sl'(2) show "p \<in> set (slot_addrs (obj_stride c) sl)" by simp
next
  assume "p \<in> set (slot_addrs (obj_stride c) sl)"
  with slot_addrs_contained [OF _ _ this] slab_inv_sized [OF assms(1)] assms(1,2) show "slab_contains sl p"
    by (auto simp: slab_inv_def slab_geom_def)
qed

section \<open>The operations keep the invariant\<close>

lemma slots_used_pop:
  assumes "slots_used st (p # fl) sl" and "p \<notin> set fl"
  shows "slots_used st fl (if p \<in> set (slot_addrs st sl) then sl\<lparr>sl_used := sl_used sl + 1\<rparr> else sl)"
proof (cases "p \<in> set (slot_addrs st sl)")
  case True
  have "Suc (card (set (slot_addrs st sl) - set fl - {p})) = card (set (slot_addrs st sl) - set fl)"
    using True assms(2) by (intro card_Suc_Diff1) auto
  moreover have "set (slot_addrs st sl) - set (p # fl) = set (slot_addrs st sl) - set fl - {p}" by auto
  ultimately show ?thesis using assms(1) True by (simp only: slots_used_def slots_unaffected if_True slab.simps) simp
next
  case False
  then have "set (slot_addrs st sl) - set (p # fl) = set (slot_addrs st sl) - set fl" by auto
  with assms(1) False show ?thesis by (simp only: slots_used_def if_False)
qed

lemma slots_used_push:
  assumes "slots_used st fl sl" and "p \<notin> set fl"
  shows "slots_used st (p # fl) (if p \<in> set (slot_addrs st sl) then sl\<lparr>sl_used := sl_used sl - 1\<rparr> else sl)"
proof (cases "p \<in> set (slot_addrs st sl)")
  case True
  have "card (set (slot_addrs st sl) - set fl - {p}) = card (set (slot_addrs st sl) - set fl) - 1"
    using True assms(2) by (intro card_Diff_singleton) auto
  moreover have "set (slot_addrs st sl) - set (p # fl) = set (slot_addrs st sl) - set fl - {p}" by auto
  ultimately show ?thesis using assms(1) True by (simp only: slots_used_def slots_unaffected if_True slab.simps) simp
next
  case False
  then have "set (slot_addrs st sl) - set (p # fl) = set (slot_addrs st sl) - set fl" by auto
  with assms(1) False show ?thesis by (simp only: slots_used_def if_False)
qed

lemma slab_geom_upd:
  assumes "slab_geom ga c" and "slabs c' = map (\<lambda>sl. if Q sl then sl\<lparr>sl_used := f sl\<rparr> else sl) (slabs c)"
    and "obj_stride c' = obj_stride c" "obj_align c' = obj_align c" "objs_per_slab c' = objs_per_slab c" "heap_calls c' = heap_calls c"
  shows "slab_geom ga c' \<and> all_slots c' = all_slots c"
proof -
  have "sorted_wrt apart (slabs c')" using assms(1)
    unfolding assms(2) slab_geom_def sorted_wrt_map by (auto elim!: sorted_wrt_mono_rel [rotated])
  moreover have "map (slot_addrs (obj_stride c)) (slabs c') = map (slot_addrs (obj_stride c)) (slabs c)"
    by (simp add: assms(2))
  then have "all_slots c' = all_slots c" by (simp only: all_slots_def assms(3))
  ultimately show ?thesis using assms by (auto simp: slab_geom_def)
qed

lemma pop_inv:
  assumes "slab_inv ga c (p # fl)"
  shows "\<exists>c'. cache_pop c = (Some p, c') \<and> slab_inv ga c' fl \<and> all_slots c' = all_slots c
    \<and> obj_stride c' = obj_stride c \<and> obj_align c' = obj_align c"
proof -
  let ?c = "c\<lparr>free_list := node_next c p, slabs := bump_used p (slabs c), allocs := allocs c + 1\<rparr>"
  have p: "p \<in> set (all_slots c)" "p \<notin> set fl" "free_list c = Some p" using assms by (auto simp: slab_inv_def)
  have geom: "slab_geom ga c" "sorted_wrt apart (slabs c)" using assms by (auto simp: slab_inv_def slab_geom_def)
  have sl: "slabs ?c = map (\<lambda>sl. if slab_contains sl p then sl\<lparr>sl_used := sl_used sl + 1\<rparr> else sl) (slabs c)"
    by (simp add: bump_used_def update_contains [OF geom(2)])
  have g: "slab_geom ga ?c \<and> all_slots ?c = all_slots c" by (rule slab_geom_upd [OF geom(1) sl]) simp_all
  have "\<forall>sl \<in> set (slabs ?c). slots_used (obj_stride c) fl sl"
  proof
    fix sl' assume "sl' \<in> set (slabs ?c)"
    then obtain sl where s: "sl \<in> set (slabs c)" "sl' = (if slab_contains sl p then sl\<lparr>sl_used := sl_used sl + 1\<rparr> else sl)"
      unfolding \<open>slabs ?c = _\<close> by auto
    have "slots_used (obj_stride c) (p # fl) sl" using assms s(1) by (auto simp: slab_inv_def)
    from slots_used_pop [OF this p(2)] show "slots_used (obj_stride c) fl sl'"
      unfolding s(2) slot_in_slab [OF assms s(1) p(1)] .
  qed
  with g assms have "slab_inv ga ?c fl" by (auto simp: slab_inv_def)
  with g p(3) show ?thesis by (auto simp: cache_pop_def)
qed

lemma free_inv:
  assumes "slab_inv ga c fl" and "p \<in> set (all_slots c)" and "p \<notin> set fl"
  shows "slab_inv ga (cache_free p c) (p # fl) \<and> all_slots (cache_free p c) = all_slots c
    \<and> obj_stride (cache_free p c) = obj_stride c \<and> obj_align (cache_free p c) = obj_align c"
proof -
  let ?c = "cache_free p c"
  have geom: "slab_geom ga c" "sorted_wrt apart (slabs c)" using assms by (auto simp: slab_inv_def slab_geom_def)
  have sl: "slabs ?c = map (\<lambda>sl. if slab_contains sl p then sl\<lparr>sl_used := sl_used sl - 1\<rparr> else sl) (slabs c)"
    by (simp add: cache_free_def push_slot_def drop_used_def update_contains [OF geom(2)])
  have f: "obj_stride ?c = obj_stride c" "obj_align ?c = obj_align c" "objs_per_slab ?c = objs_per_slab c" "heap_calls ?c = heap_calls c"
    "node_next ?c = (node_next c)(p := free_list c)" "free_list ?c = Some p"
    by (simp_all add: cache_free_def push_slot_def)
  have g: "slab_geom ga ?c \<and> all_slots ?c = all_slots c" by (rule slab_geom_upd [OF geom(1) sl f(1-4)])
  have "\<forall>sl \<in> set (slabs ?c). slots_used (obj_stride c) (p # fl) sl"
  proof
    fix sl' assume "sl' \<in> set (slabs ?c)"
    then obtain sl where s: "sl \<in> set (slabs c)" "sl' = (if slab_contains sl p then sl\<lparr>sl_used := sl_used sl - 1\<rparr> else sl)"
      unfolding sl by auto
    have "slots_used (obj_stride c) fl sl" using assms(1) s(1) by (auto simp: slab_inv_def)
    from slots_used_push [OF this assms(3)] show "slots_used (obj_stride c) (p # fl) sl'"
      unfolding s(2) slot_in_slab [OF assms(1) s(1) assms(2)] .
  qed
  with g f assms show ?thesis by (auto simp: slab_inv_def chain_upd)
qed

lemma push_fold:
  "chain (node_next c) (free_list c) fl \<Longrightarrow> distinct xs \<Longrightarrow> set xs \<inter> set fl = {} \<Longrightarrow>
   chain (node_next (fold push_slot xs c)) (free_list (fold push_slot xs c)) (rev xs @ fl)"
proof (induction xs arbitrary: c fl)
  case (Cons x xs)
  have "chain (node_next (push_slot x c)) (free_list (push_slot x c)) (x # fl)"
    using Cons.prems by (simp add: push_slot_def chain_upd)
  from Cons.IH [OF this] Cons.prems show ?case by auto
qed simp

lemma push_fold_fields:
  "slabs (fold push_slot xs c) = slabs c" "obj_stride (fold push_slot xs c) = obj_stride c" "obj_align (fold push_slot xs c) = obj_align c"
  "objs_per_slab (fold push_slot xs c) = objs_per_slab c" "heap_calls (fold push_slot xs c) = heap_calls c"
  by (induction xs arbitrary: c) (simp_all add: push_slot_def)

lemma slab_new_apart:
  assumes "slab_geom ga c" and "slab_new ga (heap_calls c) (obj_stride c) (obj_align c) (objs_per_slab c) = Some sl" and "sl' \<in> set (slabs c)"
  shows "apart sl' sl"
proof -
  let ?B = "obj_stride c * objs_per_slab c"
  from assms(3,1) obtain k where k: "k < heap_calls c" "sl_base sl' = ga k ?B (obj_align c)" "sl_base sl' \<noteq> 0" "sl_bytes sl' = ?B"
    by (auto simp: slab_geom_def)
  from assms(2) have "sl_base sl = ga (heap_calls c) ?B (obj_align c)" "sl_base sl \<noteq> 0" "sl_bytes sl = ?B"
    by (auto simp: slab_new_def split: if_splits)
  moreover have "heap_ok ga ?B (obj_align c)" using assms(1) by (simp add: slab_geom_def)
  then have H: "j \<noteq> k \<and> ga j ?B (obj_align c) \<noteq> 0 \<and> ga k ?B (obj_align c) \<noteq> 0 \<longrightarrow>
      ga j ?B (obj_align c) + ?B \<le> ga k ?B (obj_align c) \<or> ga k ?B (obj_align c) + ?B \<le> ga j ?B (obj_align c)" for j k
    unfolding heap_ok_def by blast
  ultimately show ?thesis using k H [of k "heap_calls c"] by (simp add: apart_def)
qed

lemma grow_inv:
  assumes "slab_inv ga c []" and "slab_new ga (heap_calls c) (obj_stride c) (obj_align c) (objs_per_slab c) = Some sl"
  shows "\<exists>c'. cache_grow ga c = (True, c') \<and> slab_inv ga c' (rev (slot_addrs (obj_stride c) sl)) \<and> slot_addrs (obj_stride c) sl \<noteq> []
    \<and> set (all_slots c') = set (all_slots c) \<union> set (slot_addrs (obj_stride c) sl)
    \<and> set (all_slots c) \<inter> set (slot_addrs (obj_stride c) sl) = {} \<and> obj_stride c' = obj_stride c \<and> obj_align c' = obj_align c"
proof -
  let ?S = "slot_addrs (obj_stride c) sl" and ?c0 = "c\<lparr>slabs := slabs c @ [sl], heap_calls := heap_calls c + 1\<rparr>"
  define c1 where "c1 = (fold push_slot ?S ?c0)\<lparr>grew := grew (fold push_slot ?S ?c0) + 1\<rparr>"
  have geom: "slab_geom ga c" using assms(1) by (simp add: slab_inv_def)
  have sl: "sl_base sl = ga (heap_calls c) (obj_stride c * objs_per_slab c) (obj_align c)" "sl_base sl \<noteq> 0"
    "sl_bytes sl = obj_stride c * objs_per_slab c" "sl_used sl = 0" "sl_capacity sl = objs_per_slab c"
    using assms(2) by (auto simp: slab_new_def split: if_splits)
  have f: "slabs c1 = slabs c @ [sl]" "obj_stride c1 = obj_stride c" "obj_align c1 = obj_align c" "objs_per_slab c1 = objs_per_slab c"
    "heap_calls c1 = Suc (heap_calls c)" by (simp_all add: c1_def push_fold_fields)
  have g: "slab_geom ga c1"
    using geom slab_new_apart [OF geom assms(2)] sl unfolding slab_geom_def f by (auto simp: sorted_wrt_append less_Suc_eq)
  have "\<forall>sl \<in> set (slabs c1). sized (obj_stride c) sl" using g unfolding slab_geom_def f by (auto simp: sized_def)
  then have "distinct (all_slots c1)"
    using g unfolding all_slots_def f(2) by (intro all_slots_distinct) (simp_all add: slab_geom_def f)
  then have d: "distinct ?S" "set (all_slots c) \<inter> set ?S = {}" by (simp_all add: all_slots_def f(1,2))
  have ch: "chain (node_next c1) (free_list c1) (rev ?S)"
    using push_fold [of ?c0 "[]" ?S] assms(1) d(1) by (simp add: slab_inv_def c1_def)
  have "slots_used (obj_stride c) (rev ?S) sl" by (simp add: slots_used_def sl(4))
  moreover have "slots_used (obj_stride c) (rev ?S) s" if "s \<in> set (slabs c)" for s
  proof -
    have "set (slot_addrs (obj_stride c) s) - set (rev ?S) = set (slot_addrs (obj_stride c) s) - set []"
      using that d(2) by (auto simp: all_slots_def)
    with assms(1) that show ?thesis by (simp only: slab_inv_def slots_used_def)
  qed
  ultimately have "slab_inv ga c1 (rev ?S)"
    using g ch d(1) unfolding slab_inv_def f by (auto simp: all_slots_def f)
  moreover have "?S \<noteq> []" using geom sl(5) by (auto simp: slot_addrs_def slab_geom_def)
  moreover have "cache_grow ga c = (True, c1)" by (simp add: cache_grow_def assms(2) Let_def c1_def)
  moreover have "set (all_slots c1) = set (all_slots c) \<union> set ?S" by (simp add: all_slots_def f(1,2))
  ultimately show ?thesis using d(2) f(2,3) by blast
qed

lemma heap_calls_inv: "slab_inv ga c fl \<Longrightarrow> slab_inv ga (c\<lparr>heap_calls := Suc (heap_calls c)\<rparr>) fl"
  by (auto simp: slab_inv_def slab_geom_def all_slots_def less_Suc_eq)

lemma alloc_inv:
  assumes "slab_inv ga c fl" and "cache_alloc ga c = (r, c')"
  shows "obj_stride c' = obj_stride c \<and> obj_align c' = obj_align c \<and>
    (case r of
       None \<Rightarrow> slab_inv ga c' fl \<and> all_slots c' = all_slots c \<and> fl = []
         \<and> slab_new ga (heap_calls c) (obj_stride c) (obj_align c) (objs_per_slab c) = None
     | Some p \<Rightarrow> \<exists>fl'. slab_inv ga c' fl' \<and> p \<in> set (all_slots c') \<and> p \<notin> set (all_slots c) - set fl
         \<and> set (all_slots c') - set fl' = insert p (set (all_slots c) - set fl))"
proof (cases fl)
  case (Cons p fl')
  then have p: "free_list c = Some p" using assms(1) by (simp add: slab_inv_def)
  from pop_inv [OF assms(1) [unfolded Cons]] obtain c1 where
    c1: "cache_pop c = (Some p, c1)" "slab_inv ga c1 fl'" "all_slots c1 = all_slots c" "obj_stride c1 = obj_stride c" "obj_align c1 = obj_align c"
    by blast
  with assms(2) p have r: "r = Some p" "c' = c1" by (simp_all add: cache_alloc_def)
  have "p \<in> set (all_slots c)" "p \<notin> set fl'" using assms(1) Cons by (auto simp: slab_inv_def)
  with c1 Cons show ?thesis unfolding r by (auto intro!: exI [of _ fl'])
next
  case Nil
  then have none: "free_list c = None" and inv: "slab_inv ga c []" using assms(1) by (auto simp: slab_inv_def)
  show ?thesis
  proof (cases "slab_new ga (heap_calls c) (obj_stride c) (obj_align c) (objs_per_slab c)")
    case None
    then have "r = None" "c' = c\<lparr>heap_calls := Suc (heap_calls c)\<rparr>"
      using assms(2) none by (simp_all add: cache_alloc_def cache_grow_def)
    with None Nil heap_calls_inv [OF inv] show ?thesis by (simp add: all_slots_def)
  next
    case (Some sl)
    let ?S = "slot_addrs (obj_stride c) sl"
    from grow_inv [OF inv Some] obtain c1 where c1: "cache_grow ga c = (True, c1)" "slab_inv ga c1 (rev ?S)" "?S \<noteq> []"
      "set (all_slots c1) = set (all_slots c) \<union> set ?S" "set (all_slots c) \<inter> set ?S = {}" "obj_stride c1 = obj_stride c" "obj_align c1 = obj_align c"
      by blast
    from c1(3) obtain p fl' where S: "rev ?S = p # fl'" by (metis list.exhaust rev_is_Nil_conv)
    from pop_inv [OF c1(2) [unfolded S]] obtain c2 where
      c2: "cache_pop c1 = (Some p, c2)" "slab_inv ga c2 fl'" "all_slots c2 = all_slots c1" "obj_stride c2 = obj_stride c1" "obj_align c2 = obj_align c1"
      by blast
    with assms(2) none c1(1) have r: "r = Some p" "c' = c2" by (simp_all add: cache_alloc_def)
    have sS: "set ?S = insert p (set fl')" by (metis S list.simps(15) set_rev)
    moreover have "p \<notin> set fl'" using c1(2) S by (simp add: slab_inv_def)
    ultimately have "p \<in> set (all_slots c2)" "p \<notin> set (all_slots c)" "set (all_slots c2) - set fl' = insert p (set (all_slots c))"
      using c1(4,5) c2(3) by auto
    with c1 c2 Nil show ?thesis unfolding r by (auto intro!: exI [of _ fl'])
  qed
qed

interpretation slab_objects: object_pool "cache_ok ga stride al" objects_out "cache_alloc ga" cache_free for ga stride al
proof
  fix c p c' assume ok: "cache_ok ga stride al c" and al: "cache_alloc ga c = (Some p, c')"
  then obtain fl where fl: "slab_inv ga c fl" by (auto simp: cache_ok_def)
  from alloc_inv [OF fl al] obtain fl' where fl': "slab_inv ga c' fl'" "p \<notin> set (all_slots c) - set fl"
    "set (all_slots c') - set fl' = insert p (set (all_slots c) - set fl)" by auto
  show "cache_ok ga stride al c'" using fl' ok alloc_inv [OF fl al] by (auto simp: cache_ok_def)
  show "p \<notin> objects_out c" using fl' by (simp add: objects_out_eq [OF fl])
  show "objects_out c' = insert p (objects_out c)" using fl' by (simp add: objects_out_eq [OF fl] objects_out_eq [OF fl'(1)])
next
  fix c c' assume ok: "cache_ok ga stride al c" and al: "cache_alloc ga c = (None, c')"
  then obtain fl where fl: "slab_inv ga c fl" by (auto simp: cache_ok_def)
  from alloc_inv [OF fl al] have "slab_inv ga c' fl" "all_slots c' = all_slots c" by auto
  then show "cache_ok ga stride al c' \<and> objects_out c' = objects_out c" using objects_out_eq [OF fl] objects_out_eq [of ga c' fl] using ok alloc_inv [OF fl al] by (auto simp: cache_ok_def)
next
  fix c p assume ok: "cache_ok ga stride al c" and p: "p \<in> objects_out c"
  then obtain fl where fl: "slab_inv ga c fl" by (auto simp: cache_ok_def)
  then have "p \<in> set (all_slots c)" "p \<notin> set fl" using p by (simp_all add: objects_out_eq)
  from free_inv [OF fl this] have f: "slab_inv ga (cache_free p c) (p # fl)" "all_slots (cache_free p c) = all_slots c" by simp_all
  show "cache_ok ga stride al (cache_free p c)" using f ok free_inv [OF fl] p by (auto simp: cache_ok_def objects_out_eq [OF fl])
  show "objects_out (cache_free p c) = objects_out c - {p}" using f(2) by (auto simp: objects_out_eq [OF fl] objects_out_eq [OF f(1)])
qed


section \<open>Properties\<close>

lemma slots_apart:
  assumes "slab_inv ga c fl" and "p \<in> set (all_slots c)" and "q \<in> set (all_slots c)" and "p < q"
  shows "p + obj_stride c \<le> q"
proof -
  have st: "0 < obj_stride c" using assms(1) by (simp add: slab_inv_def slab_geom_def)
  obtain a where a: "a \<in> set (slabs c)" "p \<in> set (slot_addrs (obj_stride c) a)" using assms(2) by (auto simp: all_slots_def)
  obtain b where b: "b \<in> set (slabs c)" "q \<in> set (slot_addrs (obj_stride c) b)" using assms(3) by (auto simp: all_slots_def)
  note ca = slot_addrs_contained [OF _ st a(2)] and cb = slot_addrs_contained [OF _ st b(2)]
  have sz: "sized (obj_stride c) a" "sized (obj_stride c) b" using slab_inv_sized [OF assms(1)] a b by auto
  have "a = b \<or> apart a b \<or> apart b a"
    using assms(1) a(1) b(1) by (auto simp: slab_inv_def slab_geom_def sorted_wrt_iff_nth_less in_set_conv_nth) (metis nat_neq_iff)
  then consider "a = b" | "apart a b \<or> apart b a" by blast
  then show ?thesis
  proof cases
    case 1
    obtain i j where ij: "p = sl_base a + i * obj_stride c" "q = sl_base a + j * obj_stride c"
      using a(2) b(2) 1 unfolding slot_addrs_def by fastforce
    with assms(4) st have "Suc i \<le> j" by (simp add: Suc_le_eq)
    then have "Suc i * obj_stride c \<le> j * obj_stride c" by (rule mult_le_mono1)
    with ij show ?thesis by simp
  next
    case 2
    with ca [OF sz(1)] cb [OF sz(2)] assms(4) show ?thesis by (auto simp: apart_def slab_contains_def)
  qed
qed

lemma slots_aligned:
  assumes "slab_inv ga c fl" and "p \<in> set (all_slots c)"
  shows "obj_align c dvd p"
proof -
  obtain sl where sl: "sl \<in> set (slabs c)" "p \<in> set (slot_addrs (obj_stride c) sl)" using assms(2) by (auto simp: all_slots_def)
  then obtain i where "p = sl_base sl + i * obj_stride c" unfolding slot_addrs_def by fastforce
  moreover have "obj_align c dvd sl_base sl" using assms(1) sl(1) by (auto simp: slab_inv_def slab_geom_def heap_ok_def)
  ultimately show ?thesis using assms(1) by (simp add: slab_inv_def slab_geom_def)
qed

lemma card_slots:
  "distinct (concat (map f xs)) \<Longrightarrow> sum_list (map (\<lambda>x. card (set (f x) - F)) xs) = card (set (concat (map f xs)) - F)"
proof (induction xs)
  case (Cons x xs)
  have "set (concat (map f (x # xs))) - F = (set (f x) - F) \<union> (set (concat (map f xs)) - F)" by auto
  moreover have "(set (f x) - F) \<inter> (set (concat (map f xs)) - F) = {}" using Cons.prems by auto
  ultimately show ?case using Cons by (simp add: card_Un_disjoint)
qed simp

lemma used_objs_out:
  assumes "slab_inv ga c fl"
  shows "st_used_objs (cache_stats c) = card (objects_out c)"
proof -
  have "map sl_used (slabs c) = map (\<lambda>sl. card (set (slot_addrs (obj_stride c) sl) - set fl)) (slabs c)"
    using assms by (intro map_cong) (auto simp: slab_inv_def slots_used_def)
  then have "st_used_objs (cache_stats c) = sum_list (map (\<lambda>sl. card (set (slot_addrs (obj_stride c) sl) - set fl)) (slabs c))"
    by (simp only: cache_stats_def Let_def slab_stats.simps)
  also have "\<dots> = card (set (all_slots c) - set fl)"
    using card_slots [of "slot_addrs (obj_stride c)" "slabs c" "set fl"] slab_inv_distinct [OF assms] by (simp only: all_slots_def)
  finally show ?thesis by (simp only: objects_out_eq [OF assms])
qed

lemma cache_new_inv:
  assumes "obj_size + next_power_of_two (max al 8) < 2 ^ 63" and "8 \<le> obj_size" and "c = cache_new obj_size al per"
    and "heap_ok ga (obj_stride c * objs_per_slab c) (obj_align c)"
  shows "slab_inv ga c [] \<and> objects_out c = {}"
proof -
  note sp = cache_new_spec [OF assms(1,2), of per, folded assms(3)]
  have f: "free_list c = None" "slabs c = []" "node_next c = Map.empty" by (simp_all add: assms(3) cache_new_def Let_def)
  have "0 < obj_stride c" using sp assms(2) by linarith
  with sp f assms(4) show ?thesis by (auto simp: slab_inv_def slab_geom_def all_slots_def objects_out_def)
qed

text \<open>
  C14: whatever sequence of allocations and frees a client of a slab cache performs, the objects it holds do not overlap: their
  addresses are distinct, aligned as asked for and at least an object size apart. The usage statistics of the cache counts exactly the
  objects held. The global allocator only has to return aligned blocks that do not overlap.
\<close>

theorem slab_exclusive:
  assumes "8 \<le> obj_size" and "obj_size + next_power_of_two (max al 8) < 2 ^ 63" and "c = cache_new obj_size al per"
    and "heap_ok ga (obj_stride c * objs_per_slab c) (obj_align c)"
    and "pool_run (cache_alloc ga) cache_free ops ([], c) = (held, c')"
  shows "distinct held \<and> (\<forall>p \<in> set held. obj_align c dvd p) \<and> al \<le> obj_align c
    \<and> (\<forall>p \<in> set held. \<forall>q \<in> set held. p < q \<longrightarrow> p + obj_size \<le> q) \<and> st_used_objs (cache_stats c') = length held"
proof -
  note new = cache_new_inv [OF assms(2,1,3,4)] and sp = cache_new_spec [OF assms(2,1), of per, folded assms(3)]
  have "cache_ok ga (obj_stride c) (obj_align c) c" using new by (auto simp: cache_ok_def)
  from slab_objects.run_held [OF this _ _ assms(5)] new
  have r: "cache_ok ga (obj_stride c) (obj_align c) c'" "distinct held" "set held \<subseteq> objects_out c'" "objects_out c' - set held = {}" by simp_all
  then obtain fl where fl: "slab_inv ga c' fl" "obj_stride c' = obj_stride c" "obj_align c' = obj_align c" by (auto simp: cache_ok_def)
  have out: "objects_out c' = set held" using r by blast
  have sub: "set held \<subseteq> set (all_slots c')" using out objects_out_eq [OF fl(1)] by auto
  have "\<forall>p \<in> set held. obj_align c dvd p" using slots_aligned [OF fl(1)] sub fl(3) by auto
  moreover have "\<forall>p \<in> set held. \<forall>q \<in> set held. p < q \<longrightarrow> p + obj_size \<le> q"
    using slots_apart [OF fl(1)] sub fl(2) sp by (metis (no_types, lifting) add_le_mono le_refl le_trans subset_iff)
  moreover have "st_used_objs (cache_stats c') = length held" using used_objs_out [OF fl(1)] out distinct_card [OF r(2)] by simp
  ultimately show ?thesis using r(2) sp by simp
qed

lemma wit_heap_ok: "heap_ok (\<lambda>k sz al. 4096 * (k + 1)) 256 8"
  by (auto simp: heap_ok_def)

lemma wit_cache: "obj_stride (cache_new 64 8 4) = 64" "obj_align (cache_new 64 8 4) = 8" "objs_per_slab (cache_new 64 8 4) = 4"
  by (simp_all add: cache_new_def next_power_of_two.simps)

theorem slab_exclusive_witness:
  "\<exists>held c'. pool_run (cache_alloc (\<lambda>k sz al. 4096 * (k + 1))) cache_free [Take, Take, Give 0, Take] ([], cache_new 64 8 4) = (held, c')
     \<and> distinct held \<and> st_used_objs (cache_stats c') = length held"
proof -
  obtain held c' where run: "pool_run (cache_alloc (\<lambda>k sz al. 4096 * (k + 1))) cache_free [Take, Take, Give 0, Take] ([], cache_new 64 8 4) = (held, c')"
    by fastforce
  have "heap_ok (\<lambda>k sz al. 4096 * (k + 1)) (obj_stride (cache_new 64 8 4) * objs_per_slab (cache_new 64 8 4)) (obj_align (cache_new 64 8 4))"
    using wit_heap_ok by (simp add: wit_cache)
  from slab_exclusive [OF _ _ refl this run] run show ?thesis by (auto simp: next_power_of_two.simps)
qed

text \<open>
  Freeing an object twice puts it on the free list twice: the list becomes a cycle, and the same object is handed out to two callers.
\<close>

lemma double_free_aliases:
  assumes "free_list c = Some p" and "node_next c p = Some p"
  shows "\<exists>c1 c2. cache_alloc ga c = (Some p, c1) \<and> cache_alloc ga c1 = (Some p, c2)"
  using assms by (simp add: cache_alloc_def cache_pop_def)

lemma double_free_cycle: "free_list (cache_free p (cache_free p c)) = Some p \<and> node_next (cache_free p (cache_free p c)) p = Some p"
  by (simp add: cache_free_def push_slot_def Let_def)

end
