(* ===== verification/Vmalloc.thy ===== *)
theory Vmalloc
  imports FrameAlloc
begin

text \<open>
  The kernel virtual memory allocator (\<^verbatim>\<open>src/vmalloc.rs\<close>): a bitmap over the 16384 pages of a 64 MiB region, first fit, a table of the live
  allocations, and the mapping of each page to a fresh frame. Page tables are those of the \<open>x86_64\<close> crate and an argument of the model: a
  record of the two operations used, with the results the crate documents, on an abstract state.
\<close>

section \<open>The allocator\<close>

definition VMALLOC_NOMINAL_BASE :: nat where "VMALLOC_NOMINAL_BASE = 0x555500000000"
definition VMALLOC_BYTES :: nat where "VMALLOC_BYTES = 64 * 1024 * 1024"
definition VMALLOC_PAGES :: nat where "VMALLOC_PAGES = VMALLOC_BYTES div 4096"
definition VMALLOC_RAND_RANGE :: u64 where "VMALLOC_RAND_RANGE = 0x1000000"

record vm_area =
  VMALLOC_BASE :: nat
  vm_randomised :: bool
  vm_bits :: "u64 list"
  ALLOC_TABLE :: "(nat \<times> nat) list"
  USED_BYTES :: u64
  TOTAL_BYTES :: nat

definition vm_boot :: vm_area where
  "vm_boot = \<lparr>VMALLOC_BASE = VMALLOC_NOMINAL_BASE, vm_randomised = False, vm_bits = replicate (VMALLOC_PAGES div 64) 0,
     ALLOC_TABLE = [], USED_BYTES = 0, TOTAL_BYTES = 0\<rparr>"

definition randomise_base :: "u64 \<Rightarrow> vm_area \<Rightarrow> vm_area" where
  "randomise_base seed v =
     (if vm_randomised v then v
      else
        let mix = seed * 6364136223846793005 + 1442695040888963407;
            slide = mix AND (VMALLOC_RAND_RANGE - 1);
            slide = slide AND NOT 0xFFF
        in v\<lparr>vm_randomised := True, VMALLOC_BASE := VMALLOC_NOMINAL_BASE + unat slide\<rparr>)"

definition vmalloc_start :: "vm_area \<Rightarrow> nat" where "vmalloc_start v = VMALLOC_BASE v"
definition vmalloc_end :: "vm_area \<Rightarrow> nat" where "vmalloc_end v = vmalloc_start v + VMALLOC_BYTES"

definition vb_is_set :: "u64 list \<Rightarrow> nat \<Rightarrow> bool" where
  "vb_is_set bits idx \<longleftrightarrow> idx < VMALLOC_PAGES \<and> (bits ! (idx div 64)) AND bit_mask (idx mod 64) \<noteq> 0"

definition vb_set :: "nat \<Rightarrow> u64 list \<Rightarrow> u64 list" where
  "vb_set idx bits =
     (if idx < VMALLOC_PAGES then bits[idx div 64 := (bits ! (idx div 64)) OR bit_mask (idx mod 64)] else bits)"

definition vb_clear :: "nat \<Rightarrow> u64 list \<Rightarrow> u64 list" where
  "vb_clear idx bits =
     (if idx < VMALLOC_PAGES then bits[idx div 64 := (bits ! (idx div 64)) AND NOT (bit_mask (idx mod 64))] else bits)"

fun run_scan :: "u64 list \<Rightarrow> nat \<Rightarrow> nat list \<Rightarrow> nat \<Rightarrow> nat \<Rightarrow> nat option" where
  "run_scan bits n [] start run = None"
| "run_scan bits n (idx # is) start run =
     (if vb_is_set bits idx then run_scan bits n is (idx + 1) 0
      else if run + 1 = n then Some start
      else run_scan bits n is start (run + 1))"

definition find_run :: "u64 list \<Rightarrow> nat \<Rightarrow> nat option" where
  "find_run bits n =
     (if n = 0 \<or> VMALLOC_PAGES < n then None else run_scan bits n [0..<VMALLOC_PAGES] 0 0)"

datatype vmalloc_error = OutOfVirtualSpace | OutOfPhysicalFrames | MapFailed | BadFree

section \<open>Pages\<close>

text \<open>The \<open>Mapper\<close> trait: mapping a page to a frame may take frames for page tables, or fail; unmapping gives the frame back.\<close>

datatype map_to_error = FrameAllocationFailed | ParentEntryHugePage | PageAlreadyMapped
datatype unmap_error = UnmapHugePage | PageNotMapped | InvalidFrameAddress

record 'm mapper =
  mp_map_to :: "nat \<Rightarrow> nat \<Rightarrow> 'm \<Rightarrow> frame_allocator \<Rightarrow> (map_to_error + unit) \<times> 'm \<times> frame_allocator"
  mp_unmap :: "nat \<Rightarrow> 'm \<Rightarrow> (unmap_error + nat) \<times> 'm"

type_synonym 'm machine_memory = "'m \<times> frame_allocator option"

definition map_one_page :: "'m mapper \<Rightarrow> nat \<Rightarrow> 'm machine_memory \<Rightarrow> (vmalloc_error + unit) \<times> 'm machine_memory" where
  "map_one_page mp vaddr = (\<lambda>(m, fa). case fa of
     None \<Rightarrow> (Inl OutOfPhysicalFrames, (m, None))
   | Some fa \<Rightarrow>
       (case allocate_frame fa of
          (None, fa1) \<Rightarrow> (Inl OutOfPhysicalFrames, (m, Some fa1))
        | (Some frame, fa1) \<Rightarrow>
            (case mp_map_to mp (vaddr div 4096) frame m fa1 of
               (Inr _, m1, fa2) \<Rightarrow> (Inr (), (m1, Some fa2))
             | (Inl PageAlreadyMapped, m1, fa2) \<Rightarrow> (Inr (), (m1, Some fa2))
             | (Inl _, m1, fa2) \<Rightarrow> (Inl MapFailed, (m1, Some fa2)))))"

definition unmap_one_page :: "'m mapper \<Rightarrow> nat \<Rightarrow> 'm machine_memory \<Rightarrow> (vmalloc_error + unit) \<times> 'm machine_memory" where
  "unmap_one_page mp vaddr = (\<lambda>(m, fa).
     case mp_unmap mp (vaddr div 4096) m of
       (Inr frame, m1) \<Rightarrow> (Inr (), (m1, map_option (deallocate_frame frame) fa))
     | (Inl PageNotMapped, m1) \<Rightarrow> (Inr (), (m1, fa))
     | (Inl _, m1) \<Rightarrow> (Inl BadFree, (m1, fa)))"

text \<open>Mapping the pages of a region; a failure at page \<open>i\<close> gives the pages before it back.\<close>

fun map_pages :: "'m mapper \<Rightarrow> nat \<Rightarrow> nat list \<Rightarrow> 'm machine_memory \<Rightarrow> (vmalloc_error \<times> nat) option \<times> 'm machine_memory" where
  "map_pages mp start [] mm = (None, mm)"
| "map_pages mp start (i # is) mm =
     (case map_one_page mp (start + i * 4096) mm of
        (Inl e, mm1) \<Rightarrow> (Some (e, i), mm1)
      | (Inr _, mm1) \<Rightarrow> map_pages mp start is mm1)"

definition unmap_pages :: "'m mapper \<Rightarrow> nat \<Rightarrow> nat list \<Rightarrow> 'm machine_memory \<Rightarrow> 'm machine_memory" where
  "unmap_pages mp start = fold (\<lambda>j mm. snd (unmap_one_page mp (start + j * 4096) mm))"

definition table_insert :: "nat \<Rightarrow> nat \<Rightarrow> (nat \<times> nat) list \<Rightarrow> (nat \<times> nat) list" where
  "table_insert k n t = (k, n) # filter (\<lambda>(k', _). k' \<noteq> k) t"

definition vmalloc :: "profile \<Rightarrow> 'm mapper \<Rightarrow> u64 \<Rightarrow> vm_area \<times> 'm machine_memory \<Rightarrow> ((vmalloc_error + nat) \<times> vm_area \<times> 'm machine_memory) outcome" where
  "vmalloc pf mp sz = (\<lambda>(v, mm).
     if sz = 0 then Done (Inl BadFree, v, mm)
     else obind (add_checked pf sz 4095) (\<lambda>s.
       let pages = unat s div 4096 in
       case find_run (vm_bits v) pages of
         None \<Rightarrow> Done (Inl OutOfVirtualSpace, v, mm)
       | Some idx \<Rightarrow>
           let v1 = v\<lparr>vm_bits := fold (\<lambda>i. vb_set (idx + i)) [0..<pages] (vm_bits v)\<rparr>;
               start = vmalloc_start v1 + idx * 4096
           in case map_pages mp start [0..<pages] mm of
                (Some (e, i), mm1) \<Rightarrow>
                  Done (Inl e, v1\<lparr>vm_bits := fold (\<lambda>k. vb_clear (idx + k)) [0..<pages] (vm_bits v1)\<rparr>, unmap_pages mp start [0..<i] mm1)
              | (None, mm1) \<Rightarrow>
                  Done (Inr start, v1\<lparr>ALLOC_TABLE := table_insert start pages (ALLOC_TABLE v1),
                                     USED_BYTES := USED_BYTES v1 + word_of_nat (pages * 4096),
                                     TOTAL_BYTES := (if TOTAL_BYTES v1 = 0 then VMALLOC_PAGES * 4096 else TOTAL_BYTES v1)\<rparr>, mm1)))"

definition page_index :: "profile \<Rightarrow> nat \<Rightarrow> vm_area \<Rightarrow> nat outcome" where
  "page_index pf vaddr v =
     (if vmalloc_start v \<le> vaddr then Done ((vaddr - vmalloc_start v) div 4096)
      else if pf = Dev then Panic
      else Done ((vaddr + 2 ^ 64 - vmalloc_start v) div 4096))"

definition vfree :: "profile \<Rightarrow> 'm mapper \<Rightarrow> nat \<Rightarrow> vm_area \<times> 'm machine_memory \<Rightarrow> ((vmalloc_error + unit) \<times> vm_area \<times> 'm machine_memory) outcome" where
  "vfree pf mp vaddr = (\<lambda>(v, mm).
     case map_of (ALLOC_TABLE v) vaddr of
       None \<Rightarrow> Done (Inl BadFree, v, mm)
     | Some pages \<Rightarrow>
         let v1 = v\<lparr>ALLOC_TABLE := filter (\<lambda>(k, _). k \<noteq> vaddr) (ALLOC_TABLE v)\<rparr>;
             mm1 = unmap_pages mp vaddr [0..<pages] mm
         in obind (page_index pf vaddr v1) (\<lambda>idx.
              Done (Inr (), v1\<lparr>vm_bits := fold (\<lambda>i. vb_clear (idx + i)) [0..<pages] (vm_bits v1),
                               USED_BYTES := USED_BYTES v1 - word_of_nat (pages * 4096)\<rparr>, mm1)))"

definition vm_stats :: "vm_area \<Rightarrow> nat \<times> u64 \<times> nat" where
  "vm_stats v = (VMALLOC_PAGES * 4096, USED_BYTES v, length (ALLOC_TABLE v))"

section \<open>The bitmap\<close>

definition vb_ok :: "u64 list \<Rightarrow> bool" where "vb_ok bits \<longleftrightarrow> length bits = VMALLOC_PAGES div 64"

definition vb_abs :: "u64 list \<Rightarrow> nat set" where "vb_abs bits = {i. vb_is_set bits i}"

lemma vb_index: "vb_ok bits \<Longrightarrow> i < VMALLOC_PAGES \<Longrightarrow> i div 64 < length bits"
  by (simp add: vb_ok_def VMALLOC_PAGES_def VMALLOC_BYTES_def)

lemma vb_is_set_iff: "vb_is_set bits i \<longleftrightarrow> i < VMALLOC_PAGES \<and> bit (bits ! (i div 64)) (i mod 64)"
  by (simp add: vb_is_set_def bit_flag_simps)

lemma page_bit: "(x :: nat) div 64 = y div 64 \<Longrightarrow> x mod 64 = y mod 64 \<Longrightarrow> x = y"
  by (metis div_mod_decomp)

lemma vb_set_abs: "vb_ok bits \<Longrightarrow> i < VMALLOC_PAGES \<Longrightarrow> vb_ok (vb_set i bits) \<and> vb_abs (vb_set i bits) = insert i (vb_abs bits)"
  using vb_index [of bits i] page_bit [of _ i] 
  by (auto simp: vb_set_def vb_abs_def vb_is_set_iff vb_ok_def nth_list_update bit_set_mask)

lemma vb_clear_abs: "vb_ok bits \<Longrightarrow> i < VMALLOC_PAGES \<Longrightarrow> vb_ok (vb_clear i bits) \<and> vb_abs (vb_clear i bits) = vb_abs bits - {i}"
  using vb_index [of bits i] page_bit [of _ i]
  by (auto simp: vb_clear_def vb_abs_def vb_is_set_iff vb_ok_def nth_list_update bit_clear_mask)

lemma vb_set_range:
  "vb_ok bits \<Longrightarrow> idx + n \<le> VMALLOC_PAGES \<Longrightarrow>
   vb_ok (fold (\<lambda>i. vb_set (idx + i)) [0..<n] bits) \<and> vb_abs (fold (\<lambda>i. vb_set (idx + i)) [0..<n] bits) = vb_abs bits \<union> {idx..<idx + n}"
proof (induction n)
  case (Suc n)
  define b where "b = fold (\<lambda>i. vb_set (idx + i)) [0..<n] bits"
  have 1: "vb_ok b" "vb_abs b = vb_abs bits \<union> {idx..<idx + n}" using Suc by (simp_all add: b_def)
  have 2: "fold (\<lambda>i. vb_set (idx + i)) [0..<Suc n] bits = vb_set (idx + n) b" by (simp add: b_def)
  have "idx + n < VMALLOC_PAGES" using Suc.prems(2) by simp
  from vb_set_abs [OF 1(1) this] show ?case unfolding 2 1(2) add_Suc_right atLeastLessThanSuc by auto
qed simp

lemma vb_clear_range:
  "vb_ok bits \<Longrightarrow> idx + n \<le> VMALLOC_PAGES \<Longrightarrow>
   vb_ok (fold (\<lambda>i. vb_clear (idx + i)) [0..<n] bits) \<and> vb_abs (fold (\<lambda>i. vb_clear (idx + i)) [0..<n] bits) = vb_abs bits - {idx..<idx + n}"
proof (induction n)
  case (Suc n)
  define b where "b = fold (\<lambda>i. vb_clear (idx + i)) [0..<n] bits"
  have 1: "vb_ok b" "vb_abs b = vb_abs bits - {idx..<idx + n}" using Suc by (simp_all add: b_def)
  have 2: "fold (\<lambda>i. vb_clear (idx + i)) [0..<Suc n] bits = vb_clear (idx + n) b" by (simp add: b_def)
  have "idx + n < VMALLOC_PAGES" using Suc.prems(2) by simp
  from vb_clear_abs [OF 1(1) this] show ?case unfolding 2 1(2) add_Suc_right atLeastLessThanSuc by auto
qed simp

lemma run_scan_spec:
  assumes "i \<le> N" and "run_state (vb_is_set bits) n i run"
  shows "case run_scan bits n [i..<N] (i - run) run of
      Some s \<Rightarrow> s + n \<le> N \<and> free_run (vb_is_set bits) n s \<and> (\<forall>s' < s. \<not> free_run (vb_is_set bits) n s')
    | None \<Rightarrow> \<forall>s. s + n \<le> N \<longrightarrow> \<not> free_run (vb_is_set bits) n s"
  using assms
proof (induction "N - i" arbitrary: i run)
  case 0
  then have "i = N" by simp
  with 0 run_state_end show ?case by auto
next
  case (Suc k)
  then have i: "[i..<N] = i # [Suc i..<N]" "k = N - Suc i" "Suc i \<le> N" by (simp_all add: upt_conv_Cons)
  show ?case
  proof (cases "vb_is_set bits i")
    case True
    then have "run_scan bits n [i..<N] (i - run) run = run_scan bits n [Suc i..<N] (Suc i - 0) 0" by (simp add: i(1))
    with Suc.hyps(1) [OF i(2,3) run_state_used [OF Suc.prems(2) True]] show ?thesis by simp
  next
    case False
    note fr = run_state_free [OF Suc.prems(2) False]
    have step: "run_scan bits n [i..<N] (i - run) run =
        (if Suc run = n then Some (i - run) else run_scan bits n [Suc i..<N] (Suc i - Suc run) (Suc run))"
      using False by (simp add: i(1))
    show ?thesis
    proof (cases "Suc run = n")
      case True
      with step fr(1) Suc.prems(2) i(3) show ?thesis by (auto simp: run_state_def)
    next
      case False
      from Suc.hyps(1) [OF i(2,3) fr(2) [OF False]] False show ?thesis by (simp add: step)
    qed
  qed
qed

lemma find_run_spec:
  "case find_run bits n of
     Some s \<Rightarrow> 0 < n \<and> s + n \<le> VMALLOC_PAGES \<and> {s..<s + n} \<inter> vb_abs bits = {}
       \<and> (\<forall>s' < s. {s'..<s' + n} \<inter> vb_abs bits \<noteq> {})
   | None \<Rightarrow> n = 0 \<or> (\<forall>s. s + n \<le> VMALLOC_PAGES \<longrightarrow> {s..<s + n} \<inter> vb_abs bits \<noteq> {})"
proof -
  have eq: "free_run (vb_is_set bits) n s \<longleftrightarrow> {s..<s + n} \<inter> vb_abs bits = {}" for s by (auto simp: free_run_def vb_abs_def)
  show ?thesis
  proof (cases "n = 0 \<or> VMALLOC_PAGES < n")
    case False
    then have "run_state (vb_is_set bits) n 0 0" by (intro run_state_start) simp
    from run_scan_spec [OF le0 this, of VMALLOC_PAGES] False show ?thesis by (simp add: find_run_def eq split: option.splits)
  qed (auto simp: find_run_def)
qed

section \<open>The invariant\<close>

text \<open>The pages of one allocation, and the state of the region: bits exactly for the allocated pages, allocations apart.\<close>

definition pages_of :: "vm_area \<Rightarrow> nat \<times> nat \<Rightarrow> nat set" where
  "pages_of v e = {(fst e - VMALLOC_BASE v) div 4096 ..< (fst e - VMALLOC_BASE v) div 4096 + snd e}"

definition entry_ok :: "vm_area \<Rightarrow> nat \<times> nat \<Rightarrow> bool" where
  "entry_ok v e \<longleftrightarrow> (\<exists>i. fst e = VMALLOC_BASE v + i * 4096 \<and> 0 < snd e \<and> i + snd e \<le> VMALLOC_PAGES)"

definition vm_inv :: "vm_area \<Rightarrow> bool" where
  "vm_inv v \<longleftrightarrow> vb_ok (vm_bits v) \<and> (\<forall>e \<in> set (ALLOC_TABLE v). entry_ok v e)
     \<and> sorted_wrt (\<lambda>a b. pages_of v a \<inter> pages_of v b = {}) (ALLOC_TABLE v)
     \<and> vb_abs (vm_bits v) = (\<Union>e \<in> set (ALLOC_TABLE v). pages_of v e)
     \<and> USED_BYTES v = word_of_nat (sum_list (map snd (ALLOC_TABLE v)) * 4096)"

lemma pages_of_entry: "fst e = VMALLOC_BASE v + i * 4096 \<Longrightarrow> pages_of v e = {i..<i + snd e}"
  by (simp add: pages_of_def)

lemma pages_of_upd [simp]:
  "pages_of (v\<lparr>vm_bits := b\<rparr>) = pages_of v" "pages_of (v\<lparr>ALLOC_TABLE := t\<rparr>) = pages_of v"
  "pages_of (v\<lparr>USED_BYTES := u\<rparr>) = pages_of v" "pages_of (v\<lparr>TOTAL_BYTES := n\<rparr>) = pages_of v"
  "entry_ok (v\<lparr>vm_bits := b\<rparr>) = entry_ok v" "entry_ok (v\<lparr>ALLOC_TABLE := t\<rparr>) = entry_ok v"
  "entry_ok (v\<lparr>USED_BYTES := u\<rparr>) = entry_ok v" "entry_ok (v\<lparr>TOTAL_BYTES := n\<rparr>) = entry_ok v"
  by (simp_all add: pages_of_def entry_ok_def fun_eq_iff)

lemma vb_boot: "vb_ok (vm_bits vm_boot)" "vb_abs (vm_bits vm_boot) = {}"
proof -
  show ok: "vb_ok (vm_bits vm_boot)" by (simp add: vm_boot_def vb_ok_def)
  have "\<not> vb_is_set (vm_bits vm_boot) i" for i
    using vb_index [OF ok, of i] by (auto simp: vb_is_set_iff vm_boot_def)
  then show "vb_abs (vm_bits vm_boot) = {}" by (simp add: vb_abs_def)
qed

lemma vm_inv_boot: "vm_inv vm_boot" "vm_inv (randomise_base seed vm_boot)"
proof -
  have *: "ALLOC_TABLE vm_boot = []" "USED_BYTES vm_boot = 0" by (simp_all add: vm_boot_def)
  then show "vm_inv vm_boot" by (simp add: vm_inv_def vb_boot)
  show "vm_inv (randomise_base seed vm_boot)" using * by (simp add: vm_inv_def vb_boot randomise_base_def Let_def)
qed

text \<open>An address that is not allocated is not a key, so an insertion only adds an entry.\<close>

lemma table_insert_fresh: "(\<And>n. (k, n) \<notin> set t) \<Longrightarrow> table_insert k m t = (k, m) # t"
proof -
  assume "\<And>n. (k, n) \<notin> set t"
  then have "filter (\<lambda>(k', _). k' \<noteq> k) t = t" by (intro filter_True) auto
  then show ?thesis by (simp add: table_insert_def)
qed

lemma pages_cover:
  assumes "add_checked pf sz 4095 = Done (s :: u64)" and "0 < unat s div 4096"
  shows "unat sz \<le> unat s div 4096 * 4096"
proof -
  have s: "s = sz + 4095" using assms(1) by (simp add: add_checked_def split: if_splits)
  have "unat sz < 2 ^ 64" using unsigned_less [of sz] by simp
  have "unat sz + 4095 < 2 ^ 64"
  proof (rule ccontr)
    assume o: "\<not> unat sz + 4095 < 2 ^ 64"
    have "unat s = (unat sz + 4095) mod 2 ^ 64" by (simp add: s unat_word_ariths)
    also have "\<dots> = unat sz + 4095 - 2 ^ 64" using o \<open>unat sz < 2 ^ 64\<close> by (subst mod_if) simp
    finally have "unat s < 4096" using \<open>unat sz < 2 ^ 64\<close> o by linarith
    with assms(2) show False by simp
  qed
  then have "unat s = unat sz + 4095" by (simp add: s unat_word_ariths)
  moreover have "unat s = unat s div 4096 * 4096 + unat s mod 4096" by (rule div_mult_mod_eq [symmetric])
  moreover have "unat s mod 4096 < 4096" by simp
  ultimately show ?thesis by linarith
qed

lemma vmalloc_spec:
  assumes "vm_inv v" and "vmalloc pf mp sz (v, mm) = Done (r, v', mm')"
  shows "vm_inv v' \<and> VMALLOC_BASE v' = VMALLOC_BASE v \<and>
    (case r of
       Inl e \<Rightarrow> ALLOC_TABLE v' = ALLOC_TABLE v
     | Inr a \<Rightarrow> \<exists>n. ALLOC_TABLE v' = (a, n) # ALLOC_TABLE v \<and> unat sz \<le> n * 4096)"
proof (cases "sz = 0")
  case True
  with assms show ?thesis by (auto simp: vmalloc_def)
next
  case False
  with assms(2) obtain s where s: "add_checked pf sz 4095 = Done s" by (auto simp: vmalloc_def obind_eq_Done_iff)
  define n where "n = unat s div 4096"
  show ?thesis
  proof (cases "find_run (vm_bits v) n")
    case None
    with assms s False show ?thesis by (auto simp: vmalloc_def n_def)
  next
    case (Some idx)
    from find_run_spec [where bits = "vm_bits v" and n = n] Some
    have run: "0 < n" "idx + n \<le> VMALLOC_PAGES" "{idx..<idx + n} \<inter> vb_abs (vm_bits v) = {}" by simp_all
    have ok: "vb_ok (vm_bits v)" using assms(1) by (simp add: vm_inv_def)
    define b where "b = fold (\<lambda>i. vb_set (idx + i)) [0..<n] (vm_bits v)"
    note b = vb_set_range [OF ok run(2), folded b_def]
    define v1 where "v1 = v\<lparr>vm_bits := b\<rparr>"
    define start where "start = VMALLOC_BASE v + idx * 4096"
    note call = False s \<open>find_run (vm_bits v) n = Some idx\<close> vmalloc_def n_def [symmetric] vmalloc_start_def
    obtain mr mm1 where mp: "map_pages mp start [0..<n] mm = (mr, mm1)" by (metis surj_pair)
    show ?thesis
    proof (cases mr)
      case (Some ei)
      obtain e i where ei: "ei = (e, i)" by fastforce
      have c: "vb_ok (fold (\<lambda>k. vb_clear (idx + k)) [0..<n] b)" "vb_abs (fold (\<lambda>k. vb_clear (idx + k)) [0..<n] b) = vb_abs (vm_bits v)"
        using vb_clear_range [OF conjunct1 [OF b] run(2)] b run(3) by auto
      have "r = Inl e" "v' = v\<lparr>vm_bits := fold (\<lambda>k. vb_clear (idx + k)) [0..<n] b\<rparr>"
        using assms(2) mp Some ei by (simp_all add: call b_def start_def Let_def)
      with assms(1) c show ?thesis by (simp add: vm_inv_def)
    next
      case None
      have fresh: "(start, m) \<notin> set (ALLOC_TABLE v)" for m
      proof
        assume e: "(start, m) \<in> set (ALLOC_TABLE v)"
        then have "0 < m" using assms(1) by (auto simp: vm_inv_def entry_ok_def)
        then have "idx \<in> pages_of v (start, m)" by (simp add: pages_of_def start_def)
        then have "idx \<in> vb_abs (vm_bits v)" using e assms(1) by (auto simp: vm_inv_def)
        moreover have "idx \<in> {idx..<idx + n}" using run(1) by simp
        ultimately show False using run(3) by blast
      qed
      have v': "r = Inr start" "v' = v1\<lparr>ALLOC_TABLE := (start, n) # ALLOC_TABLE v, USED_BYTES := USED_BYTES v + word_of_nat (n * 4096),
            TOTAL_BYTES := (if TOTAL_BYTES v = 0 then VMALLOC_PAGES * 4096 else TOTAL_BYTES v)\<rparr>"
        using assms(2) mp None table_insert_fresh [OF fresh, of n] by (simp_all add: call b_def start_def v1_def Let_def cong: if_cong)
      have po: "pages_of v (start, n) = {idx..<idx + n}" by (simp add: pages_of_def start_def)
      have "\<forall>e \<in> set (ALLOC_TABLE v). pages_of v (start, n) \<inter> pages_of v e = {}" using assms(1) run(3) po by (auto simp: vm_inv_def)
      moreover have "entry_ok v (start, n)" using run by (auto simp: entry_ok_def start_def)
      moreover have "vb_abs b = pages_of v (start, n) \<union> (\<Union>e \<in> set (ALLOC_TABLE v). pages_of v e)" using b assms(1) po by (auto simp: vm_inv_def)
      moreover have "USED_BYTES v + word_of_nat (n * 4096) = word_of_nat ((n + sum_list (map snd (ALLOC_TABLE v))) * 4096)"
        using assms(1) by (simp add: vm_inv_def algebra_simps)
      ultimately have "vm_inv v'" using assms(1) b unfolding v' by (simp add: vm_inv_def v1_def)
      moreover have "unat sz \<le> n * 4096" using pages_cover [OF s] run(1) by (simp add: n_def)
      ultimately show ?thesis unfolding v' by (simp add: v1_def)
    qed
  qed
qed

lemma entry_unique:
  assumes "vm_inv v" and "ALLOC_TABLE v = xs @ (a, n) # ys"
  shows "a \<notin> fst ` set xs \<and> a \<notin> fst ` set ys"
proof -
  have ok: "entry_ok v e" if "e \<in> set (ALLOC_TABLE v)" for e using assms(1) that by (auto simp: vm_inv_def)
  have hit: "(a - VMALLOC_BASE v) div 4096 \<in> pages_of v (a, m)" if "(a, m) \<in> set (ALLOC_TABLE v)" for m
    using ok [OF that] by (auto simp: entry_ok_def pages_of_def)
  have "sorted_wrt (\<lambda>a b. pages_of v a \<inter> pages_of v b = {}) (xs @ (a, n) # ys)" using assms by (simp add: vm_inv_def)
  then have "\<forall>e \<in> set xs \<union> set ys. pages_of v (a, n) \<inter> pages_of v e = {}" by (auto simp: sorted_wrt_append)
  moreover have "(a - VMALLOC_BASE v) div 4096 \<in> pages_of v (a, n)" by (rule hit) (simp add: assms(2))
  moreover have "(a - VMALLOC_BASE v) div 4096 \<in> pages_of v (a, m)" if "(a, m) \<in> set xs \<union> set ys" for m
    using that by (intro hit) (auto simp: assms(2))
  ultimately have "(a, m) \<notin> set xs \<union> set ys" for m by blast
  then show ?thesis by auto
qed

lemma vfree_spec:
  assumes "vm_inv v"
  shows "case map_of (ALLOC_TABLE v) a of
      None \<Rightarrow> vfree pf mp a (v, mm) = Done (Inl BadFree, v, mm)
    | Some n \<Rightarrow> \<exists>v' mm'. vfree pf mp a (v, mm) = Done (Inr (), v', mm') \<and> vm_inv v' \<and> VMALLOC_BASE v' = VMALLOC_BASE v
        \<and> ALLOC_TABLE v' = filter (\<lambda>(k, _). k \<noteq> a) (ALLOC_TABLE v)"
proof (cases "map_of (ALLOC_TABLE v) a")
  case None
  then show ?thesis by (simp add: vfree_def)
next
  case (Some n)
  then obtain xs ys where t: "ALLOC_TABLE v = xs @ (a, n) # ys" by (meson map_of_SomeD split_list)
  note u = entry_unique [OF assms t]
  have xy: "filter (\<lambda>(k, _). k \<noteq> a) xs = xs" "filter (\<lambda>(k, _). k \<noteq> a) ys = ys"
    by (intro filter_True, use u in force)+
  then have fl: "filter (\<lambda>(k, _). k \<noteq> a) (ALLOC_TABLE v) = xs @ ys" by (simp add: t)
  have "entry_ok v (a, n)" using assms t by (simp add: vm_inv_def)
  then obtain i where i: "a = VMALLOC_BASE v + i * 4096" "0 < n" "i + n \<le> VMALLOC_PAGES" by (auto simp: entry_ok_def)
  define b where "b = fold (\<lambda>k. vb_clear (i + k)) [0..<n] (vm_bits v)"
  have b: "vb_ok b" "vb_abs b = vb_abs (vm_bits v) - {i..<i + n}"
    using vb_clear_range [of "vm_bits v" i n] assms i(3) by (auto simp: vm_inv_def b_def)
  define v' where "v' = v\<lparr>ALLOC_TABLE := xs @ ys, vm_bits := b, USED_BYTES := USED_BYTES v - word_of_nat (n * 4096)\<rparr>"
  have run: "vfree pf mp a (v, mm) = Done (Inr (), v', unmap_pages mp a [0..<n] mm)"
    using Some fl i(1) by (simp add: vfree_def page_index_def vmalloc_start_def b_def v'_def Let_def)
  have po: "pages_of v (a, n) = {i..<i + n}" using i(1) by (simp add: pages_of_def)
  have inv: "sorted_wrt (\<lambda>a b. pages_of v a \<inter> pages_of v b = {}) (xs @ (a, n) # ys)"
    "vb_abs (vm_bits v) = (\<Union>e \<in> set (xs @ (a, n) # ys). pages_of v e)" "\<forall>e \<in> set (xs @ (a, n) # ys). entry_ok v e"
    "USED_BYTES v = word_of_nat (sum_list (map snd (xs @ (a, n) # ys)) * 4096)"
    using assms unfolding vm_inv_def t by blast+
  have "vb_abs b = (\<Union>e \<in> set (xs @ ys). pages_of v e)"
    using inv(1,2) unfolding b(2) po [symmetric] by (auto simp: sorted_wrt_append)
  moreover have "USED_BYTES v - word_of_nat (n * 4096) = word_of_nat (sum_list (map snd (xs @ ys)) * 4096)"
    unfolding inv(4) by (simp add: algebra_simps)
  moreover have "sorted_wrt (\<lambda>a b. pages_of v a \<inter> pages_of v b = {}) (xs @ ys)" using inv(1) by (auto simp: sorted_wrt_append)
  ultimately have "vm_inv v'" using b(1) inv(3) by (simp add: vm_inv_def v'_def)
  with run fl Some show ?thesis by (auto simp: v'_def)
qed

section \<open>Histories of a client\<close>

datatype vm_op = VAlloc u64 | VFree nat

text \<open>The client remembers what it holds: the address and the size it asked for.\<close>

fun vm_run :: "profile \<Rightarrow> 'm mapper \<Rightarrow> vm_op list \<Rightarrow> (nat \<times> u64) list \<times> vm_area \<times> 'm machine_memory
    \<Rightarrow> ((nat \<times> u64) list \<times> vm_area \<times> 'm machine_memory) outcome" where
  "vm_run pf mp [] st = Done st"
| "vm_run pf mp (VAlloc sz # ops) (live, st) =
     obind (vmalloc pf mp sz st) (\<lambda>(r, st').
       vm_run pf mp ops (case r of Inl _ \<Rightarrow> live | Inr a \<Rightarrow> (a, sz) # live, st'))"
| "vm_run pf mp (VFree a # ops) (live, st) =
     obind (vfree pf mp a st) (\<lambda>(r, st').
       vm_run pf mp ops (case r of Inl _ \<Rightarrow> live | Inr _ \<Rightarrow> filter (\<lambda>(k, _). k \<noteq> a) live, st'))"

definition live_ok :: "vm_area \<Rightarrow> (nat \<times> u64) list \<Rightarrow> bool" where
  "live_ok v live \<longleftrightarrow> list_all2 (\<lambda>e l. fst e = fst l \<and> unat (snd l) \<le> snd e * 4096) (ALLOC_TABLE v) live"

lemma live_filter:
  "list_all2 (\<lambda>e l. fst e = fst l \<and> Q e l) xs ys \<Longrightarrow>
   list_all2 (\<lambda>e l. fst e = fst l \<and> Q e l) (filter (\<lambda>(k, _). k \<noteq> a) xs) (filter (\<lambda>(k, _). k \<noteq> a) ys)"
  by (induction rule: list_all2_induct) auto

lemma vm_run_inv:
  assumes "vm_inv v" and "live_ok v live" and "vm_run pf mp ops (live, v, mm) = Done (live', v', mm')"
  shows "vm_inv v' \<and> live_ok v' live' \<and> VMALLOC_BASE v' = VMALLOC_BASE v"
  using assms
proof (induction ops arbitrary: live v mm)
  case (Cons a ops)
  show ?case
  proof (cases a)
    case (VAlloc sz)
    with Cons.prems(3) obtain r v1 mm1 where st: "vmalloc pf mp sz (v, mm) = Done (r, v1, mm1)"
        and run: "vm_run pf mp ops (case r of Inl _ \<Rightarrow> live | Inr a \<Rightarrow> (a, sz) # live, v1, mm1) = Done (live', v', mm')"
      by (auto simp: obind_eq_Done_iff)
    note sp = vmalloc_spec [OF Cons.prems(1) st]
    then have "live_ok v1 (case r of Inl _ \<Rightarrow> live | Inr a \<Rightarrow> (a, sz) # live)"
      using Cons.prems(2) by (auto simp: live_ok_def split: sum.splits)
    from Cons.IH [OF _ this run] sp show ?thesis by simp
  next
    case (VFree k)
    with Cons.prems(3) obtain r v1 mm1 where st: "vfree pf mp k (v, mm) = Done (r, v1, mm1)"
        and run: "vm_run pf mp ops (case r of Inl _ \<Rightarrow> live | Inr _ \<Rightarrow> filter (\<lambda>(k', _). k' \<noteq> k) live, v1, mm1) = Done (live', v', mm')"
      by (auto simp: obind_eq_Done_iff)
    have "vm_inv v1 \<and> VMALLOC_BASE v1 = VMALLOC_BASE v \<and> live_ok v1 (case r of Inl _ \<Rightarrow> live | Inr _ \<Rightarrow> filter (\<lambda>(k', _). k' \<noteq> k) live)"
      using vfree_spec [OF Cons.prems(1), where a = k and pf = pf and mp = mp and mm = mm] st Cons.prems(1,2) live_filter
      by (auto simp: live_ok_def split: option.splits)
    with Cons.IH [OF _ _ run] show ?thesis by simp
  qed
qed simp


lemma page_aligned_word: "(4096 :: nat) dvd unat (w AND NOT 0xFFF :: u64)"
proof -
  have m: "(0xFFF :: u64) = mask 12" by (simp add: mask_eq_exp_minus_1)
  have "w AND NOT 0xFFF = push_bit 12 (drop_bit 12 w)" unfolding m by (rule bit_word_eqI) (auto simp: bit_simps)
  also have "\<dots> = drop_bit 12 w * 4096" by (simp add: push_bit_eq_mult)
  finally have eq: "unat (w AND NOT 0xFFF) = (unat (drop_bit 12 w) * 4096) mod 2 ^ 64" by (simp only: unat_word_ariths) simp
  have "(4096 :: nat) dvd 2 ^ 64" by simp
  then show ?thesis unfolding eq by (intro dvd_mod) simp_all
qed

lemma base_aligned: "4096 dvd VMALLOC_BASE (randomise_base seed vm_boot)"
proof -
  have "4096 dvd VMALLOC_NOMINAL_BASE" by (simp add: VMALLOC_NOMINAL_BASE_def)
  then show ?thesis by (simp add: randomise_base_def vm_boot_def Let_def page_aligned_word [simplified])
qed

lemma entries_apart:
  assumes "entry_ok v e" and "entry_ok v f" and "pages_of v e \<inter> pages_of v f = {}"
  shows "fst e + snd e * 4096 \<le> fst f \<or> fst f + snd f * 4096 \<le> fst e"
proof -
  obtain i where i: "fst e = VMALLOC_BASE v + i * 4096" "0 < snd e" using assms(1) by (auto simp: entry_ok_def)
  obtain j where j: "fst f = VMALLOC_BASE v + j * 4096" "0 < snd f" using assms(2) by (auto simp: entry_ok_def)
  have "{i..<i + snd e} \<inter> {j..<j + snd f} = {}" using assms(3) by (simp add: pages_of_entry [OF i(1)] pages_of_entry [OF j(1)])
  then have "i + snd e \<le> j \<or> j + snd f \<le> i" using i(2) j(2) by (metis Int_iff atLeastLessThan_iff emptyE le_add1 less_add_same_cancel1 linorder_not_le nat_le_linear)
  then show ?thesis unfolding i(1) j(1) by (metis add.assoc add_le_cancel_left add_mult_distrib mult_le_mono1)
qed

text \<open>
  C15: a client of \<open>vmalloc\<close> and \<open>vfree\<close> never gets overlapping memory. After any sequence of calls, whatever the page tables and the frame allocator
  answered, the byte ranges it holds (each at least as long as it asked for) are page-aligned, lie inside the region and are
  pairwise disjoint.
\<close>

theorem vmalloc_disjoint:
  assumes "vm_run pf mp ops ([], randomise_base seed vm_boot, mm) = Done (live, v, mm')"
  shows "(\<forall>(a, sz) \<in> set live. 4096 dvd a \<and> vmalloc_start v \<le> a \<and> a + unat sz \<le> vmalloc_end v)
    \<and> sorted_wrt (\<lambda>(a, s) (b, t). a + unat s \<le> b \<or> b + unat t \<le> a) live"
proof -
  have "live_ok (randomise_base seed vm_boot) []" by (simp add: live_ok_def randomise_base_def vm_boot_def Let_def)
  from vm_run_inv [OF vm_inv_boot(2) this assms]
  have inv: "vm_inv v" "live_ok v live" "VMALLOC_BASE v = VMALLOC_BASE (randomise_base seed vm_boot)" by auto
  have len: "length (ALLOC_TABLE v) = length live"
    and nth: "\<And>i. i < length live \<Longrightarrow> fst (ALLOC_TABLE v ! i) = fst (live ! i) \<and> unat (snd (live ! i)) \<le> snd (ALLOC_TABLE v ! i) * 4096"
    using inv(2) by (auto simp: live_ok_def list_all2_conv_all_nth)
  have ok: "entry_ok v (ALLOC_TABLE v ! i)" if "i < length live" for i using inv(1) that len by (auto simp: vm_inv_def)
  have "4096 dvd a \<and> vmalloc_start v \<le> a \<and> a + unat sz \<le> vmalloc_end v" if mem: "(a, sz) \<in> set live" for a sz
  proof -
    from mem obtain i where i: "i < length live" "live ! i = (a, sz)" by (auto simp: in_set_conv_nth)
    obtain k where k: "fst (ALLOC_TABLE v ! i) = VMALLOC_BASE v + k * 4096" "k + snd (ALLOC_TABLE v ! i) \<le> VMALLOC_PAGES"
      using ok [OF i(1)] by (auto simp: entry_ok_def)
    have "(k + snd (ALLOC_TABLE v ! i)) * 4096 \<le> VMALLOC_PAGES * 4096" using k(2) by (rule mult_le_mono1)
    with k nth [OF i(1)] i(2) inv(3) base_aligned [of seed] show ?thesis
      by (simp add: vmalloc_start_def vmalloc_end_def VMALLOC_PAGES_def VMALLOC_BYTES_def algebra_simps)
  qed
  moreover have "sorted_wrt (\<lambda>(a, s) (b, t). a + unat s \<le> b \<or> b + unat t \<le> a) live"
  proof (unfold sorted_wrt_iff_nth_less, intro allI impI)
    fix i j assume ij: "i < j" "j < length live"
    have "pages_of v (ALLOC_TABLE v ! i) \<inter> pages_of v (ALLOC_TABLE v ! j) = {}"
      using inv(1) ij len unfolding vm_inv_def sorted_wrt_iff_nth_less by (simp add: less_trans)
    from entries_apart [OF ok ok this] ij nth [of i] nth [of j]
    show "(case live ! i of (a, s) \<Rightarrow> \<lambda>(b, t). a + unat s \<le> b \<or> b + unat t \<le> a) (live ! j)"
      by (simp add: split_beta) linarith
  qed
  ultimately show ?thesis by auto
qed

lemma vmalloc_done: "\<exists>r v' mm'. vmalloc Release mp sz (v, mm) = Done (r, v', mm')"
  by (auto simp: vmalloc_def add_checked_def Let_def split: option.split prod.split)

definition wit_mapper :: "(nat \<Rightarrow> nat option) mapper" where
  "wit_mapper = \<lparr>mp_map_to = \<lambda>p f m fa. if m p = None then (Inr (), m(p \<mapsto> f), fa) else (Inl PageAlreadyMapped, m, fa),
     mp_unmap = \<lambda>p m. case m p of None \<Rightarrow> (Inl PageNotMapped, m) | Some f \<Rightarrow> (Inr f, m(p := None))\<rparr>"

theorem vmalloc_disjoint_witness:
  "\<exists>live v mm'. vm_run Release wit_mapper [VAlloc 5000, VAlloc 100]
       ([], randomise_base 7 vm_boot, Map.empty, Some (fa_init [\<lparr>mr_usable = True, mr_start = 4096, mr_end = 40960\<rparr>])) = Done (live, v, mm')
     \<and> sorted_wrt (\<lambda>(a, s) (b, t). a + unat s \<le> b \<or> b + unat t \<le> a) live"
proof -
  define mm where "mm = (Map.empty :: nat \<Rightarrow> nat option, Some (fa_init [\<lparr>mr_usable = True, mr_start = 4096, mr_end = 40960\<rparr>]))"
  obtain r1 v1 mm1 where 1: "vmalloc Release wit_mapper 5000 (randomise_base 7 vm_boot, mm) = Done (r1, v1, mm1)" using vmalloc_done by metis
  obtain r2 v2 mm2 where 2: "vmalloc Release wit_mapper 100 (v1, mm1) = Done (r2, v2, mm2)" using vmalloc_done by metis
  obtain live where run: "vm_run Release wit_mapper [VAlloc 5000, VAlloc 100] ([], randomise_base 7 vm_boot, mm) = Done (live, v2, mm2)"
    using 1 2 by simp
  from vmalloc_disjoint [OF run] run show ?thesis unfolding mm_def by blast
qed

text \<open>Mapping a page that is mapped already keeps the frame just taken for it: it stays marked as used and nothing refers to it.\<close>

lemma map_one_page_leaks:
  assumes "fa_ok fa" and "allocate_frame fa = (Some f, fa1)" and "mp_map_to mp (vaddr div 4096) f m fa1 = (Inl PageAlreadyMapped, m, fa1)"
  shows "map_one_page mp vaddr (m, Some fa) = (Inr (), (m, Some fa1)) \<and> f \<in> free_frames fa \<and> f \<notin> free_frames fa1"
  using assms allocate_frame_spec [OF assms(1,2)] by (simp add: map_one_page_def)

end
