(* ===== verification/PageTable.thy ===== *)
theory PageTable
  imports FrameAlloc
begin

text \<open>
  Per-process page tables (\<^verbatim>\<open>src/memory/pagetable.rs\<close>). Physical memory is seen through the direct map as frames of 512 words; a page
  table is a frame. The entry type of the \<open>x86_64\<close> crate is an argument: the four operations used on an entry, and the contract they document
  (an entry is a 64-bit word, unused when 0, with the frame address in bits 12 to 51 and flags in the other bits).
\<close>

section \<open>Memory and entries\<close>

type_synonym pmem = "nat \<Rightarrow> nat \<Rightarrow> u64"

record pte_api =
  pte_is_unused :: "u64 \<Rightarrow> bool"
  pte_addr :: "u64 \<Rightarrow> u64"
  pte_flags :: "u64 \<Rightarrow> u64"
  pte_make :: "u64 \<Rightarrow> u64 \<Rightarrow> u64"

definition PTE_WRITABLE :: u64 where "PTE_WRITABLE = 2"
definition PTE_USER :: u64 where "PTE_USER = 4"
definition PTE_HUGE :: u64 where "PTE_HUGE = 128"

definition ADDR_MASK :: u64 where "ADDR_MASK = 0x000FFFFFFFFFF000"

definition pte_ok :: "pte_api \<Rightarrow> bool" where
  "pte_ok x \<longleftrightarrow> (\<forall>e. pte_is_unused x e = (e = 0)) \<and> (\<forall>e. pte_addr x e = e AND ADDR_MASK)
     \<and> (\<forall>e. pte_flags x e = e AND NOT ADDR_MASK) \<and> (\<forall>a f. pte_make x a f = a OR f)"

definition ENTRIES :: nat where "ENTRIES = 512"
definition L4_USER_INDEX :: nat where "L4_USER_INDEX = 0"

text \<open>\<open>PhysFrame::containing_address\<close>, as a frame number.\<close>

definition frame_of :: "u64 \<Rightarrow> nat" where
  "frame_of a = unat a div 4096"

definition frame_addr :: "nat \<Rightarrow> u64" where
  "frame_addr f = word_of_nat (f * 4096)"

definition put_entry :: "nat \<Rightarrow> nat \<Rightarrow> u64 \<Rightarrow> pmem \<Rightarrow> pmem" where
  "put_entry f i e m = m(f := (m f)(i := e))"

type_synonym mem_state = "pmem \<times> frame_allocator"

definition alloc_table :: "mem_state \<Rightarrow> nat option \<times> mem_state" where
  "alloc_table = (\<lambda>(m, fa). case allocate_frame fa of
     (None, fa1) \<Rightarrow> (None, (m, fa1))
   | (Some f, fa1) \<Rightarrow> (Some f, (m(f := (\<lambda>_. 0)), fa1)))"

section \<open>Cloning\<close>

text \<open>The loop \<open>for i in 0..ENTRIES\<close> over the entries of a table, stopping at the first failure.\<close>

fun each_entry :: "(nat \<Rightarrow> mem_state \<Rightarrow> bool \<times> mem_state) \<Rightarrow> nat list \<Rightarrow> mem_state \<Rightarrow> bool \<times> mem_state" where
  "each_entry f [] s = (True, s)"
| "each_entry f (i # is) s = (case f i s of (True, s1) \<Rightarrow> each_entry f is s1 | (False, s1) \<Rightarrow> (False, s1))"

definition fill_table ::
  "(nat \<Rightarrow> nat \<Rightarrow> mem_state \<Rightarrow> bool \<times> mem_state) \<Rightarrow> mem_state \<Rightarrow> nat option \<times> mem_state" where
  "fill_table body s =
     (case alloc_table s of
        (None, s1) \<Rightarrow> (None, s1)
      | (Some new, s1) \<Rightarrow> (case each_entry (body new) [0..<ENTRIES] s1 of (ok, s2) \<Rightarrow> (if ok then Some new else None, s2)))"

definition clone_l1 :: "nat \<Rightarrow> mem_state \<Rightarrow> nat option \<times> mem_state" where
  "clone_l1 src = fill_table (\<lambda>new i (m, fa). (True, (put_entry new i (m src i) m, fa)))"

definition clone_entry ::
  "pte_api \<Rightarrow> (nat \<Rightarrow> mem_state \<Rightarrow> nat option \<times> mem_state) \<Rightarrow> bool \<Rightarrow> nat \<Rightarrow> nat \<Rightarrow> nat \<Rightarrow> mem_state \<Rightarrow> bool \<times> mem_state" where
  "clone_entry x child user_filter src new i = (\<lambda>(m, fa).
     let entry = m src i in
     if pte_is_unused x entry then (True, (m, fa))
     else if pte_flags x entry AND PTE_HUGE \<noteq> 0 then (True, (put_entry new i entry m, fa))
     else if user_filter \<and> pte_flags x entry AND PTE_USER \<noteq> 0 then
       (case child (frame_of (pte_addr x entry)) (m, fa) of
          (None, s1) \<Rightarrow> (False, s1)
        | (Some t, (m1, fa1)) \<Rightarrow> (True, (put_entry new i (pte_make x (frame_addr t) (pte_flags x entry)) m1, fa1)))
     else (True, (put_entry new i (pte_make x (frame_addr (frame_of (pte_addr x entry))) (pte_flags x entry)) m, fa)))"

definition clone_l2 :: "pte_api \<Rightarrow> bool \<Rightarrow> nat \<Rightarrow> mem_state \<Rightarrow> nat option \<times> mem_state" where
  "clone_l2 x user_filter src = fill_table (clone_entry x clone_l1 user_filter src)"

definition clone_l3 :: "pte_api \<Rightarrow> bool \<Rightarrow> nat \<Rightarrow> mem_state \<Rightarrow> nat option \<times> mem_state" where
  "clone_l3 x user_filter src = fill_table (clone_entry x (clone_l2 x True) user_filter src)"

definition clone_l4_entry :: "pte_api \<Rightarrow> nat \<Rightarrow> nat \<Rightarrow> nat \<Rightarrow> mem_state \<Rightarrow> bool \<times> mem_state" where
  "clone_l4_entry x src new i = (\<lambda>(m, fa).
     let entry = m src i in
     if pte_is_unused x entry then (True, (m, fa))
     else if i = L4_USER_INDEX then
       (case clone_l3 x True (frame_of (pte_addr x entry)) (m, fa) of
          (None, s1) \<Rightarrow> (False, s1)
        | (Some t, (m1, fa1)) \<Rightarrow> (True, (put_entry new i (pte_make x (frame_addr t) (pte_flags x entry)) m1, fa1)))
     else (True, (put_entry new i entry m, fa)))"

definition create_user_pagetable :: "pte_api \<Rightarrow> nat \<Rightarrow> mem_state \<Rightarrow> nat option \<times> mem_state" where
  "create_user_pagetable x cr3 = fill_table (clone_l4_entry x cr3)"

section \<open>Destruction\<close>

fun destroy_lower_recursive :: "pte_api \<Rightarrow> nat \<Rightarrow> nat \<Rightarrow> mem_state \<Rightarrow> mem_state" where
  "destroy_lower_recursive x 0 f s = s"
| "destroy_lower_recursive x (Suc level) f s =
     (if level = 0 then (case s of (m, fa) \<Rightarrow> (m, deallocate_frame f fa))
      else
        (case fold (\<lambda>i (m, fa).
             if pte_is_unused x (m f i) then (m, fa)
             else if pte_flags x (m f i) AND PTE_HUGE \<noteq> 0 then (m, fa)
             else if pte_flags x (m f i) AND PTE_USER = 0 then (m, fa)
             else destroy_lower_recursive x level (frame_of (pte_addr x (m f i))) (m, fa)) [0..<ENTRIES] s
         of (m, fa) \<Rightarrow> (m, deallocate_frame f fa)))"

definition destroy_l4_recursive :: "pte_api \<Rightarrow> nat \<Rightarrow> mem_state \<Rightarrow> mem_state" where
  "destroy_l4_recursive x f s =
     (case fold (\<lambda>i (m, fa).
          if pte_is_unused x (m f i) then (m, fa)
          else if i = L4_USER_INDEX then destroy_lower_recursive x 3 (frame_of (pte_addr x (m f i))) (m, fa)
          else (m, fa)) [0..<ENTRIES] s
      of (m, fa) \<Rightarrow> (m, deallocate_frame f fa))"

definition destroy_user_pagetable :: "pte_api \<Rightarrow> nat \<Rightarrow> mem_state \<Rightarrow> mem_state" where
  "destroy_user_pagetable x cr3 s = (if cr3 = 0 then s else destroy_l4_recursive x cr3 s)"

section \<open>Translation\<close>

text \<open>The walk of \<open>user_va_to_phys\<close> and of the page-fault handler, down to the entry of the last level.\<close>

definition va_index :: "u64 \<Rightarrow> nat \<Rightarrow> nat" where
  "va_index va shift = unat (drop_bit shift va AND 0x1FF)"

definition l1_entry :: "pte_api \<Rightarrow> pmem \<Rightarrow> nat \<Rightarrow> u64 \<Rightarrow> (nat \<times> nat) option" where
  "l1_entry x m cr3 va =
     (let l4e = m cr3 (va_index va 39) in if pte_is_unused x l4e then None else
      let l3e = m (frame_of (pte_addr x l4e)) (va_index va 30) in if pte_is_unused x l3e then None else
      let l2e = m (frame_of (pte_addr x l3e)) (va_index va 21) in if pte_is_unused x l2e then None else
      let l1 = frame_of (pte_addr x l2e) in if pte_is_unused x (m l1 (va_index va 12)) then None else Some (l1, va_index va 12))"

definition user_va_to_phys :: "pte_api \<Rightarrow> pmem \<Rightarrow> nat \<Rightarrow> u64 \<Rightarrow> u64 option" where
  "user_va_to_phys x m cr3 va =
     map_option (\<lambda>(l1, i). pte_addr x (m l1 i) + (va AND 0xFFF)) (l1_entry x m cr3 va)"

section \<open>Entries as words\<close>

definition fr :: "u64 \<Rightarrow> nat" where
  "fr e = frame_of (e AND ADDR_MASK)"

lemma addr_mask_bit: "bit ADDR_MASK k \<longleftrightarrow> 12 \<le> k \<and> k < 52"
proof -
  have m: "ADDR_MASK = push_bit 12 (mask 40)" by (simp add: ADDR_MASK_def mask_eq_exp_minus_1)
  show ?thesis unfolding m bit_push_bit_iff bit_mask_iff by auto
qed

lemma frame_addr_push: "f < MAX_FRAMES \<Longrightarrow> frame_addr f = push_bit 12 (word_of_nat f)"
  by (simp add: frame_addr_def push_bit_eq_mult)

lemma frame_addr_masked: "f < MAX_FRAMES \<Longrightarrow> frame_addr f AND ADDR_MASK = frame_addr f"
proof -
  assume f: "f < MAX_FRAMES"
  then have "f < 2 ^ 20" by (simp add: MAX_FRAMES_def)
  have small: "bit (word_of_nat f :: u64) k \<Longrightarrow> k < 20" for k
  proof -
    assume "bit (word_of_nat f :: u64) k"
    then have "bit (unat (word_of_nat f :: u64)) k" by (simp add: bit_unsigned_iff bit_imp_le_length)
    moreover have "unat (word_of_nat f :: u64) = f" using \<open>f < 2 ^ 20\<close> by (simp add: unat_of_nat)
    ultimately have "bit f k" by simp
    then have "2 ^ k \<le> f" by (metis bit_iff_odd div_less even_zero not_less)
    with \<open>f < 2 ^ 20\<close> have "(2 :: nat) ^ k < 2 ^ 20" by linarith
    then show "k < 20" by (rule power_less_imp_less_exp [rotated]) simp
  qed
  show ?thesis
  proof (rule bit_word_eqI)
    fix k assume "k < LENGTH(64)"
    show "bit (frame_addr f AND ADDR_MASK) k = bit (frame_addr f) k"
      unfolding frame_addr_push [OF f] bit_and_iff addr_mask_bit bit_push_bit_iff using small [of "k - 12"] by auto
  qed
qed

lemma frame_of_addr: "f < MAX_FRAMES \<Longrightarrow> frame_of (frame_addr f) = f"
  unfolding frame_of_def frame_addr_def by (subst unat_of_nat) (simp add: MAX_FRAMES_def)

lemma fr_make: "f < MAX_FRAMES \<Longrightarrow> fr (frame_addr f OR (e AND NOT ADDR_MASK)) = f"
proof -
  assume f: "f < MAX_FRAMES"
  have "(frame_addr f OR (e AND NOT ADDR_MASK)) AND ADDR_MASK = frame_addr f AND ADDR_MASK"
    by (rule bit_word_eqI) (auto simp: bit_simps)
  with f show ?thesis by (simp add: fr_def frame_addr_masked frame_of_addr)
qed

lemma remake: "frame_addr (fr e) OR (e AND NOT ADDR_MASK) = e"
proof -
  have "e AND ADDR_MASK = push_bit 12 (drop_bit 12 (e AND ADDR_MASK))"
    by (rule bit_word_eqI) (auto simp: bit_simps addr_mask_bit)
  also have "\<dots> = frame_addr (fr e)"
    by (simp add: frame_addr_def fr_def frame_of_def push_bit_eq_mult drop_bit_eq_div word_arith_nat_div)
  finally have "frame_addr (fr e) = e AND ADDR_MASK" by simp
  moreover have "(e AND ADDR_MASK) OR (e AND NOT ADDR_MASK) = e" by (rule bit_word_eqI) (auto simp: bit_simps)
  ultimately show ?thesis by simp
qed

section \<open>Trees of tables\<close>

text \<open>The entry that a path of indices leads to, and trees of tables of a given depth all of whose frames avoid a set. A used entry has at
  least one flag (a present one has the present bit).\<close>

fun entry_at :: "pmem \<Rightarrow> nat \<Rightarrow> nat list \<Rightarrow> u64 option" where
  "entry_at m f [] = None"
| "entry_at m f (i # js) =
     (if m f i = 0 then None else if js = [] then Some (m f i) else entry_at m (fr (m f i)) js)"

definition flagged :: "u64 \<Rightarrow> bool" where "flagged e \<longleftrightarrow> e AND NOT ADDR_MASK \<noteq> 0"

fun tree_ok :: "pmem \<Rightarrow> nat set \<Rightarrow> nat \<Rightarrow> nat \<Rightarrow> bool" where
  "tree_ok m F 0 f = True"
| "tree_ok m F (Suc d) f \<longleftrightarrow> f \<notin> F \<and> (\<forall>i < ENTRIES. m f i \<noteq> 0 \<longrightarrow> flagged (m f i) \<and> tree_ok m F d (fr (m f i)))"

definition path :: "nat \<Rightarrow> nat list \<Rightarrow> bool" where
  "path d js \<longleftrightarrow> length js = d \<and> (\<forall>j \<in> set js. j < ENTRIES)"

lemma tree_ok_mono: "tree_ok m F d f \<Longrightarrow> F' \<subseteq> F \<Longrightarrow> tree_ok m F' d f"
  by (induction d arbitrary: f) auto

lemma tree_ok_agree: "tree_ok m F d f \<Longrightarrow> (\<And>g. g \<notin> F \<Longrightarrow> m' g = m g) \<Longrightarrow> tree_ok m' F d f"
  by (induction d arbitrary: f) auto

lemma entry_at_agree:
  "tree_ok m F d f \<Longrightarrow> (\<And>g. g \<notin> F \<Longrightarrow> m' g = m g) \<Longrightarrow> path d js \<Longrightarrow> entry_at m' f js = entry_at m f js"
proof (induction d arbitrary: f js)
  case (Suc d)
  then obtain i ks where js: "js = i # ks" "i < ENTRIES" "path d ks" by (cases js) (auto simp: path_def)
  have f: "m' f = m f" using Suc.prems(1,2) by simp
  show ?case
  proof (cases "m f i = 0")
    case False
    with Suc.prems(1) js(2) have "tree_ok m F d (fr (m f i))" by simp
    from Suc.IH [OF this Suc.prems(2) js(3)] js f show ?thesis by simp
  qed (simp add: js f)
qed (simp add: path_def)

lemma entry_at_4: "entry_at m f [a, b, c, d] =
  (if m f a = 0 then None else let f3 = fr (m f a) in if m f3 b = 0 then None else let f2 = fr (m f3 b) in
   if m f2 c = 0 then None else let f1 = fr (m f2 c) in if m f1 d = 0 then None else Some (m f1 d))"
  by (simp add: Let_def)

lemma user_va_to_phys_eq:
  assumes "pte_ok x"
  shows "user_va_to_phys x m cr3 va =
    map_option (\<lambda>e. (e AND ADDR_MASK) + (va AND 0xFFF)) (entry_at m cr3 [va_index va 39, va_index va 30, va_index va 21, va_index va 12])"
  using assms unfolding entry_at_4 pte_ok_def
  by (auto simp: user_va_to_phys_def l1_entry_def fr_def Let_def)


section \<open>A clone translates like the original\<close>

text \<open>
  What cloning one subtree promises, at depth \<open>d\<close> and relative to frames \<open>X\<close> that are in use elsewhere: the new tree consists of frames that were
  free or belong to the old tree, memory that was in use is not touched, and every path leads to the same entry.
\<close>

definition clones :: "nat \<Rightarrow> (nat \<Rightarrow> mem_state \<Rightarrow> nat option \<times> mem_state) \<Rightarrow> bool" where
  "clones d child \<longleftrightarrow> (\<forall>src m fa new m' fa' X.
     fa_ok fa \<and> X \<inter> free_frames fa = {} \<and> tree_ok m (X \<union> free_frames fa) d src \<and> child src (m, fa) = (Some new, (m', fa')) \<longrightarrow>
     fa_ok fa' \<and> new \<in> free_frames fa \<and> new \<notin> free_frames fa' \<and> free_frames fa' \<subseteq> free_frames fa
     \<and> (\<forall>g. g \<notin> free_frames fa \<longrightarrow> m' g = m g) \<and> tree_ok m' (X \<union> free_frames fa') d new
     \<and> (\<forall>js. path d js \<longrightarrow> entry_at m' new js = entry_at m src js))"

text \<open>The same for one step of the loop that fills the table \<open>new\<close> from the table \<open>src\<close>.\<close>

definition step_ok :: "nat \<Rightarrow> nat \<Rightarrow> (nat \<Rightarrow> nat \<Rightarrow> mem_state \<Rightarrow> bool \<times> mem_state) \<Rightarrow> bool" where
  "step_ok d src body \<longleftrightarrow> (\<forall>new i m fa m' fa' X.
     i < ENTRIES \<and> fa_ok fa \<and> new \<in> X \<and> X \<inter> free_frames fa = {} \<and> src \<notin> X \<union> free_frames fa \<and> m new i = 0
     \<and> (m src i \<noteq> 0 \<longrightarrow> flagged (m src i) \<and> tree_ok m (X \<union> free_frames fa) d (fr (m src i))) \<and> body new i (m, fa) = (True, (m', fa')) \<longrightarrow>
     fa_ok fa' \<and> free_frames fa' \<subseteq> free_frames fa \<and> (\<forall>g. g \<notin> insert new (free_frames fa) \<longrightarrow> m' g = m g)
     \<and> (\<forall>j. j \<noteq> i \<longrightarrow> m' new j = m new j) \<and> (m' new i \<noteq> 0 \<longrightarrow> flagged (m' new i) \<and> tree_ok m' (X \<union> free_frames fa') d (fr (m' new i)))
     \<and> (\<forall>js. path d js \<longrightarrow> entry_at m' new (i # js) = entry_at m src (i # js)))"

definition loop_inv :: "nat \<Rightarrow> nat \<Rightarrow> nat \<Rightarrow> nat set \<Rightarrow> nat set \<Rightarrow> pmem \<Rightarrow> nat set \<Rightarrow> mem_state \<Rightarrow> bool" where
  "loop_inv d src new X F1 m1 dn = (\<lambda>(m, fa). fa_ok fa \<and> free_frames fa \<subseteq> F1 \<and> (\<forall>g. g \<notin> insert new F1 \<longrightarrow> m g = m1 g)
     \<and> (\<forall>i. i \<notin> dn \<longrightarrow> m new i = 0)
     \<and> (\<forall>i \<in> dn. (m new i \<noteq> 0 \<longrightarrow> flagged (m new i) \<and> tree_ok m (X \<union> free_frames fa) d (fr (m new i)))
          \<and> (\<forall>js. path d js \<longrightarrow> entry_at m new (i # js) = entry_at m1 src (i # js))))"

lemma loop_step:
  assumes step: "step_ok d src body" and inv: "loop_inv d src new X F1 m1 dn (m, fa)"
    and X: "new \<in> X" "X \<inter> F1 = {}" "src \<notin> X \<union> F1" "tree_ok m1 (X \<union> F1) (Suc d) src"
    and i: "i < ENTRIES" "i \<notin> dn" and run: "body new i (m, fa) = (True, (m', fa'))"
  shows "loop_inv d src new X F1 m1 (insert i dn) (m', fa')"
proof -
  let ?F = "free_frames fa" and ?F' = "free_frames fa'"
  from inv have I: "fa_ok fa" "?F \<subseteq> F1" "\<And>g. g \<notin> insert new F1 \<Longrightarrow> m g = m1 g" "\<And>i. i \<notin> dn \<Longrightarrow> m new i = 0"
    "\<And>i. i \<in> dn \<Longrightarrow> m new i \<noteq> 0 \<Longrightarrow> flagged (m new i) \<and> tree_ok m (X \<union> ?F) d (fr (m new i))"
    "\<And>i js. i \<in> dn \<Longrightarrow> path d js \<Longrightarrow> entry_at m new (i # js) = entry_at m1 src (i # js)"
    by (auto simp: loop_inv_def)
  have agree1: "m g = m1 g" if "g \<notin> X \<union> F1" for g by (rule I(3)) (use that X(1) in auto)
  have msrc: "m src = m1 src" by (rule agree1) (use X(3) in auto)
  have tsrc: "m1 src i \<noteq> 0 \<Longrightarrow> tree_ok m (X \<union> F1) d (fr (m1 src i))"
  proof -
    assume "m1 src i \<noteq> 0"
    with X(4) i(1) have "tree_ok m1 (X \<union> F1) d (fr (m1 src i))" by simp
    from tree_ok_agree [OF this agree1] show ?thesis .
  qed
  have "src \<notin> X \<union> ?F" "X \<inter> ?F = {}" using X I(2) by auto
  moreover have "m src i \<noteq> 0 \<longrightarrow> flagged (m src i) \<and> tree_ok m (X \<union> ?F) d (fr (m src i))"
    using tsrc msrc I(2) X(4) i(1) tree_ok_mono [of m "X \<union> F1" d _ "X \<union> ?F"] by auto
  ultimately have S: "fa_ok fa'" "?F' \<subseteq> ?F" "\<And>g. g \<notin> insert new ?F \<Longrightarrow> m' g = m g" "\<And>j. j \<noteq> i \<Longrightarrow> m' new j = m new j"
    "m' new i \<noteq> 0 \<Longrightarrow> flagged (m' new i) \<and> tree_ok m' (X \<union> ?F') d (fr (m' new i))" "\<And>js. path d js \<Longrightarrow> entry_at m' new (i # js) = entry_at m src (i # js)"
    using step [unfolded step_ok_def, rule_format, of i fa new X m m' fa'] i(1) I(1) X(1) I(4) [OF i(2)] run by auto
  have agree: "m' g = m g" if "g \<notin> X \<union> ?F" for g by (rule S(3)) (use that X(1) in auto)
  have old: "(m' new j \<noteq> 0 \<longrightarrow> flagged (m' new j) \<and> tree_ok m' (X \<union> ?F') d (fr (m' new j)))
      \<and> (\<forall>js. path d js \<longrightarrow> entry_at m' new (j # js) = entry_at m1 src (j # js))" if j: "j \<in> dn" for j
  proof -
    have e: "m' new j = m new j" by (rule S(4)) (use j i(2) in auto)
    have t: "m new j \<noteq> 0 \<Longrightarrow> tree_ok m (X \<union> ?F) d (fr (m new j))" using I(5) [OF j] by blast
    have "entry_at m' new (j # js) = entry_at m new (j # js)" if "path d js" for js
      using entry_at_agree [OF t agree that] e by auto
    moreover have "m new j \<noteq> 0 \<Longrightarrow> tree_ok m' (X \<union> ?F') d (fr (m new j))"
      using tree_ok_mono [OF tree_ok_agree [OF t agree], of "X \<union> ?F'"] S(2) by auto
    ultimately show ?thesis using e I(5) [OF j] I(6) [OF j] by simp
  qed
  have tsrc1: "m src i \<noteq> 0 \<Longrightarrow> tree_ok m1 (X \<union> F1) d (fr (m src i))" using X(4) i(1) msrc by simp
  have new_i: "entry_at m' new (i # js) = entry_at m1 src (i # js)" if "path d js" for js
    using S(6) [OF that] entry_at_agree [OF tsrc1 agree1 that] msrc by auto
  have frame: "m' g = m1 g" if "g \<notin> insert new F1" for g
    using S(3) [of g] I(3) [of g] I(2) that by auto
  show ?thesis
    unfolding loop_inv_def using S(1,2) I(2) frame S(4) I(4) S(5) new_i old by auto
qed
lemma each_entry_inv:
  assumes "step_ok d src body" and "new \<in> X" "X \<inter> F1 = {}" "src \<notin> X \<union> F1" "tree_ok m1 (X \<union> F1) (Suc d) src"
  shows "loop_inv d src new X F1 m1 dn s \<Longrightarrow> distinct is \<Longrightarrow> set is \<subseteq> {..<ENTRIES} - dn \<Longrightarrow>
    each_entry (body new) is s = (True, s') \<Longrightarrow> loop_inv d src new X F1 m1 (dn \<union> set is) s'"
proof (induction "is" arbitrary: dn s)
  case (Cons i ks)
  obtain m fa where s: "s = (m, fa)" by fastforce
  obtain m' fa' where st: "body new i (m, fa) = (True, (m', fa'))" and run: "each_entry (body new) ks (m', fa') = (True, s')"
    using Cons.prems(4) s by (auto split: prod.splits bool.splits)
  have "loop_inv d src new X F1 m1 (insert i dn) (m', fa')"
    using Cons.prems(1-3) s by (intro loop_step [OF assms(1) _ assms(2-5) _ _ st]) auto
  from Cons.IH [OF this _ _ run] Cons.prems(2,3) show ?case by (auto simp: insert_commute)
qed simp

lemma alloc_table_spec:
  assumes "fa_ok fa" and "alloc_table (m, fa) = (Some new, (m1, fa1))"
  shows "fa_ok fa1 \<and> new \<in> free_frames fa \<and> free_frames fa1 = free_frames fa - {new} \<and> m1 = m(new := (\<lambda>_. 0))"
  using assms allocate_frame_spec [OF assms(1)] by (auto simp: alloc_table_def split: prod.splits option.splits)

lemma fill_clones:
  assumes "\<And>src. step_ok d src (body src)"
  shows "clones (Suc d) (\<lambda>src. fill_table (body src))"
  unfolding clones_def
proof (intro allI impI, elim conjE)
  fix src m fa new m' fa' X
  assume ok: "fa_ok fa" and X: "X \<inter> free_frames fa = {}" and tree: "tree_ok m (X \<union> free_frames fa) (Suc d) src"
    and run: "fill_table (body src) (m, fa) = (Some new, (m', fa'))"
  from run obtain m1 fa1 where al: "alloc_table (m, fa) = (Some new, (m1, fa1))"
      and loop: "each_entry (body src new) [0..<ENTRIES] (m1, fa1) = (True, (m', fa'))"
    by (auto simp: fill_table_def split: prod.splits option.splits if_splits)
  note A = alloc_table_spec [OF ok al]
  let ?X = "insert new X" and ?F1 = "free_frames fa1"
  have un: "?X \<union> ?F1 = X \<union> free_frames fa" and dis: "?X \<inter> ?F1 = {}" and newX: "new \<notin> X" using A X by auto
  have agree: "m1 g = m g" if "g \<notin> X \<union> free_frames fa" for g using A that by auto
  have t1: "tree_ok m1 (?X \<union> ?F1) (Suc d) src" unfolding un by (rule tree_ok_agree [OF tree agree])
  have src: "src \<notin> ?X \<union> ?F1" unfolding un using tree by simp
  have "loop_inv d src new ?X ?F1 m1 {} (m1, fa1)" using A by (simp add: loop_inv_def)
  from each_entry_inv [OF assms _ dis src t1 this _ _ loop]
  have inv: "loop_inv d src new ?X ?F1 m1 {..<ENTRIES} (m', fa')" by (simp add: atLeast_upt)
  then have I: "fa_ok fa'" "free_frames fa' \<subseteq> ?F1" "\<And>g. g \<notin> insert new ?F1 \<Longrightarrow> m' g = m1 g" "\<And>i. \<not> i < ENTRIES \<Longrightarrow> m' new i = 0"
    "\<And>i. i < ENTRIES \<Longrightarrow> m' new i \<noteq> 0 \<Longrightarrow> flagged (m' new i) \<and> tree_ok m' (?X \<union> free_frames fa') d (fr (m' new i))"
    "\<And>i js. i < ENTRIES \<Longrightarrow> path d js \<Longrightarrow> entry_at m' new (i # js) = entry_at m1 src (i # js)"
    by (auto simp: loop_inv_def)
  have frame: "m' g = m g" if "g \<notin> free_frames fa" for g using I(3) [of g] A that by auto
  have new: "new \<notin> X \<union> free_frames fa'" using A I(2) newX by auto
  have "tree_ok m' (X \<union> free_frames fa') (Suc d) new"
    using new I(5) tree_ok_mono [of m' "?X \<union> free_frames fa'" d _ "X \<union> free_frames fa'"] by auto
  moreover have "entry_at m' new js = entry_at m src js" if p: "path (Suc d) js" for js
  proof -
    from p obtain i ks where js: "js = i # ks" "i < ENTRIES" "path d ks" by (cases js) (auto simp: path_def)
    have "entry_at m1 src js = entry_at m src js" by (rule entry_at_agree [OF tree agree p])
    with I(6) [OF js(2,3)] js(1) show ?thesis by simp
  qed
  ultimately show "fa_ok fa' \<and> new \<in> free_frames fa \<and> new \<notin> free_frames fa' \<and> free_frames fa' \<subseteq> free_frames fa
     \<and> (\<forall>g. g \<notin> free_frames fa \<longrightarrow> m' g = m g) \<and> tree_ok m' (X \<union> free_frames fa') (Suc d) new
     \<and> (\<forall>js. path (Suc d) js \<longrightarrow> entry_at m' new js = entry_at m src js)"
    using I(1,2) A frame new by auto
qed

lemma put_entry_other: "g \<noteq> f \<Longrightarrow> put_entry f i e m g = m g" and put_entry_same: "put_entry f i e m f j = (if j = i then e else m f j)"
  by (simp_all add: put_entry_def)

text \<open>Writing an entry of the new table does not disturb trees that avoid it.\<close>

lemma put_entry_tree: "tree_ok m F d f \<Longrightarrow> new \<in> F \<Longrightarrow> tree_ok (put_entry new i e m) F d f"
  by (erule tree_ok_agree) (metis put_entry_other)

lemma put_entry_path: "tree_ok m F d f \<Longrightarrow> new \<in> F \<Longrightarrow> path d js \<Longrightarrow> entry_at (put_entry new i e m) f js = entry_at m f js"
  by (erule entry_at_agree) (metis put_entry_other, assumption)

lemma put_leads:
  assumes "tree_ok m (X \<union> F) d (fr e)" and "new \<in> X" and "e \<noteq> 0" and "path d js"
  shows "entry_at (put_entry new i e m) new (i # js) = (if js = [] then Some e else entry_at m (fr e) js)"
  using put_entry_path [OF assms(1) _ assms(4), of new i e] assms(2,3) by (simp add: put_entry_same)

lemma step_l1: "step_ok 0 src (\<lambda>new i (m, fa). (True, (put_entry new i (m src i) m, fa)))"
  by (auto simp: step_ok_def put_entry_same put_entry_other path_def)

lemma clones_l1: "clones 1 clone_l1"
  using fill_clones [OF step_l1] by (simp add: clone_l1_def [abs_def])

lemma make_entry:
  assumes "pte_ok x" and "t < MAX_FRAMES" and "flagged e"
  shows "pte_make x (frame_addr t) (pte_flags x e) \<noteq> 0" "fr (pte_make x (frame_addr t) (pte_flags x e)) = t"
    "flagged (pte_make x (frame_addr t) (pte_flags x e))"
proof -
  have mk: "pte_make x (frame_addr t) (pte_flags x e) = frame_addr t OR (e AND NOT ADDR_MASK)" using assms(1) by (simp add: pte_ok_def)
  have "(frame_addr t OR (e AND NOT ADDR_MASK)) AND NOT ADDR_MASK = e AND NOT ADDR_MASK"
  proof -
    have "frame_addr t AND NOT ADDR_MASK = (frame_addr t AND ADDR_MASK) AND NOT ADDR_MASK" by (simp add: frame_addr_masked [OF assms(2)])
    also have "\<dots> = 0" by (rule bit_word_eqI) (auto simp: bit_simps)
    finally have "frame_addr t AND NOT ADDR_MASK = 0" .
    then show ?thesis by (simp add: bit.conj_disj_distrib2 and.assoc)
  qed
  then show f: "flagged (pte_make x (frame_addr t) (pte_flags x e))" using assms(3) by (simp add: mk flagged_def)
  then show "pte_make x (frame_addr t) (pte_flags x e) \<noteq> 0" by (auto simp: flagged_def)
  show "fr (pte_make x (frame_addr t) (pte_flags x e)) = t" by (simp add: mk fr_make [OF assms(2)])
qed

text \<open>The step that clones a child table, used on all levels above the last.\<close>

lemma child_step:
  assumes x: "pte_ok x" and child: "clones (Suc d) child" and ok: "fa_ok fa" and X: "new \<in> X" "X \<inter> free_frames fa = {}" "src \<notin> X \<union> free_frames fa"
    and e: "m src i = e" "e \<noteq> 0" "flagged e" "tree_ok m (X \<union> free_frames fa) (Suc d) (fr e)"
    and run: "child (frame_of (pte_addr x e)) (m, fa) = (Some t, (m1, fa1))"
    and m': "m' = put_entry new i (pte_make x (frame_addr t) (pte_flags x e)) m1"
  shows "fa_ok fa1 \<and> free_frames fa1 \<subseteq> free_frames fa \<and> (\<forall>g. g \<notin> insert new (free_frames fa) \<longrightarrow> m' g = m g)
     \<and> (\<forall>j. j \<noteq> i \<longrightarrow> m' new j = m new j) \<and> (m' new i \<noteq> 0 \<longrightarrow> flagged (m' new i) \<and> tree_ok m' (X \<union> free_frames fa1) (Suc d) (fr (m' new i)))
     \<and> (\<forall>js. path (Suc d) js \<longrightarrow> entry_at m' new (i # js) = entry_at m src (i # js))"
proof -
  have "frame_of (pte_addr x e) = fr e" using x by (simp add: pte_ok_def fr_def)
  with run have run': "child (fr e) (m, fa) = (Some t, (m1, fa1))" by simp
  have C: "fa_ok fa1" "t \<in> free_frames fa" "free_frames fa1 \<subseteq> free_frames fa" "\<forall>g. g \<notin> free_frames fa \<longrightarrow> m1 g = m g"
    "tree_ok m1 (X \<union> free_frames fa1) (Suc d) t" "\<forall>js. path (Suc d) js \<longrightarrow> entry_at m1 t js = entry_at m (fr e) js"
    using child [unfolded clones_def, rule_format, OF conjI [OF ok conjI [OF X(2) conjI [OF e(4) run']]]] by blast+
  have t: "t < MAX_FRAMES" using C(2) free_frames_bound [OF ok] by auto
  note mk = make_entry [OF x t e(3)]
  let ?e = "pte_make x (frame_addr t) (pte_flags x e)"
  have tree: "tree_ok m1 (X \<union> free_frames fa1) (Suc d) (fr ?e)" using C(5) by (simp only: mk(2))
  have "new \<notin> free_frames fa" using X by auto
  then have "m1 new = m new" using C(4) by simp
  then have other: "\<forall>j. j \<noteq> i \<longrightarrow> m' new j = m new j" by (simp add: m' put_entry_same)
  have paths: "entry_at m' new (i # js) = entry_at m src (i # js)" if p: "path (Suc d) js" for js
  proof -
    have "js \<noteq> []" using p by (auto simp: path_def)
    moreover have "entry_at m1 (fr ?e) js = entry_at m (fr e) js" using C(6) p by (simp only: mk(2))
    ultimately show ?thesis using put_leads [OF tree X(1) mk(1) p, of i] e by (simp add: m')
  qed
  have "tree_ok m' (X \<union> free_frames fa1) (Suc d) (fr ?e)" unfolding m' by (rule put_entry_tree [OF tree]) (use X in auto)
  with C paths other mk show ?thesis by (auto simp: m' put_entry_same put_entry_other)
qed

lemma copy_step:
  assumes "new \<in> X" and "src \<noteq> new" and "m src i = e" "e \<noteq> 0" "flagged e" "tree_ok m (X \<union> F) d (fr e)" and m': "m' = put_entry new i e m"
  shows "(\<forall>g. g \<notin> insert new F \<longrightarrow> m' g = m g) \<and> (\<forall>j. j \<noteq> i \<longrightarrow> m' new j = m new j)
     \<and> (m' new i \<noteq> 0 \<longrightarrow> flagged (m' new i) \<and> tree_ok m' (X \<union> F) d (fr (m' new i)))
     \<and> (\<forall>js. path d js \<longrightarrow> entry_at m' new (i # js) = entry_at m src (i # js))"
proof -
  have "tree_ok m' (X \<union> F) d (fr e)" unfolding m' by (rule put_entry_tree [OF assms(6)]) (use assms(1) in auto)
  moreover have "entry_at m' new (i # js) = entry_at m src (i # js)" if "path d js" for js
    using put_leads [OF assms(6,1,4) that, of i] assms(3,4) by (simp add: m')
  ultimately show ?thesis using assms(5) by (simp add: m' put_entry_same put_entry_other)
qed

lemma unused_step:
  assumes "m src i = 0" and "m new i = 0"
  shows "entry_at m new (i # js) = entry_at m src (i # js)"
  using assms by simp

lemma step_entry:
  assumes x: "pte_ok x" and child: "clones (Suc d) child"
  shows "step_ok (Suc d) src (clone_entry x child uf src)"
  unfolding step_ok_def
proof (intro allI impI, elim conjE)
  fix new i m fa m' fa' X
  assume ok: "fa_ok fa" and X: "new \<in> X" "X \<inter> free_frames fa = {}" "src \<notin> X \<union> free_frames fa" and z: "m new i = 0"
    and t: "m src i \<noteq> 0 \<longrightarrow> flagged (m src i) \<and> tree_ok m (X \<union> free_frames fa) (Suc d) (fr (m src i))"
    and run: "clone_entry x child uf src new i (m, fa) = (True, (m', fa'))"
  let ?e = "m src i"
  have ne: "src \<noteq> new" using X by auto
  have same: "pte_make x (frame_addr (frame_of (pte_addr x ?e))) (pte_flags x ?e) = ?e"
    using x remake [of ?e] by (simp add: pte_ok_def fr_def)
  have unused: "pte_is_unused x ?e \<longleftrightarrow> ?e = 0" using x by (simp add: pte_ok_def)
  consider (z) "?e = 0" | (copy) "?e \<noteq> 0" "m' = put_entry new i ?e m" "fa' = fa"
    | (child) t' m1 where "?e \<noteq> 0" "child (frame_of (pte_addr x ?e)) (m, fa) = (Some t', (m1, fa'))"
        "m' = put_entry new i (pte_make x (frame_addr t') (pte_flags x ?e)) m1"
    using run by (auto simp: clone_entry_def Let_def same unused split: if_splits prod.splits option.splits)
  then show "fa_ok fa' \<and> free_frames fa' \<subseteq> free_frames fa \<and> (\<forall>g. g \<notin> insert new (free_frames fa) \<longrightarrow> m' g = m g)
     \<and> (\<forall>j. j \<noteq> i \<longrightarrow> m' new j = m new j) \<and> (m' new i \<noteq> 0 \<longrightarrow> flagged (m' new i) \<and> tree_ok m' (X \<union> free_frames fa') (Suc d) (fr (m' new i)))
     \<and> (\<forall>js. path (Suc d) js \<longrightarrow> entry_at m' new (i # js) = entry_at m src (i # js))"
  proof cases
    case z
    with run x have "m' = m" "fa' = fa" by (auto simp: clone_entry_def pte_ok_def)
    with ok \<open>m new i = 0\<close> z show ?thesis by simp
  next
    case copy
    with t have f: "flagged ?e" "tree_ok m (X \<union> free_frames fa) (Suc d) (fr ?e)" by simp_all
    from copy_step [OF X(1) ne refl copy(1) f copy(2)] ok copy(3) show ?thesis by simp
  next
    case child
    with t have f: "flagged ?e" "tree_ok m (X \<union> free_frames fa) (Suc d) (fr ?e)" by simp_all
    from child_step [OF x assms(2) ok X refl child(1) f child(2,3)] show ?thesis .
  qed
qed

lemma clones_l2: "pte_ok x \<Longrightarrow> clones 2 (clone_l2 x uf)"
proof -
  assume "pte_ok x"
  then have "step_ok 1 src (clone_entry x clone_l1 uf src)" for src using step_entry [of x 0] clones_l1 by simp
  from fill_clones [OF this] show ?thesis by (simp add: clone_l2_def [abs_def] numeral_2_eq_2)
qed

lemma clones_l3: "pte_ok x \<Longrightarrow> clones 3 (clone_l3 x uf)"
proof -
  assume x: "pte_ok x"
  then have "step_ok 2 src (clone_entry x (clone_l2 x True) uf src)" for src
    using step_entry [OF x, of 1] clones_l2 by (simp add: numeral_2_eq_2)
  from fill_clones [OF this] show ?thesis by (simp add: clone_l3_def [abs_def])
qed

lemma step_l4:
  assumes x: "pte_ok x"
  shows "step_ok 3 src (clone_l4_entry x src)"
  unfolding step_ok_def
proof (intro allI impI, elim conjE)
  fix new i m fa m' fa' X
  assume ok: "fa_ok fa" and X: "new \<in> X" "X \<inter> free_frames fa = {}" "src \<notin> X \<union> free_frames fa" and z: "m new i = 0"
    and t: "m src i \<noteq> 0 \<longrightarrow> flagged (m src i) \<and> tree_ok m (X \<union> free_frames fa) 3 (fr (m src i))"
    and run: "clone_l4_entry x src new i (m, fa) = (True, (m', fa'))"
  let ?e = "m src i"
  have ne: "src \<noteq> new" using X by auto
  have unused: "pte_is_unused x ?e \<longleftrightarrow> ?e = 0" using x by (simp add: pte_ok_def)
  have l3: "clones (Suc 2) (clone_l3 x True)" using clones_l3 [OF x] by simp
  consider (z) "?e = 0" | (copy) "?e \<noteq> 0" "m' = put_entry new i ?e m" "fa' = fa"
    | (child) t' m1 where "?e \<noteq> 0" "clone_l3 x True (frame_of (pte_addr x ?e)) (m, fa) = (Some t', (m1, fa'))"
        "m' = put_entry new i (pte_make x (frame_addr t') (pte_flags x ?e)) m1"
    using run by (auto simp: clone_l4_entry_def Let_def unused split: if_splits prod.splits option.splits)
  then show "fa_ok fa' \<and> free_frames fa' \<subseteq> free_frames fa \<and> (\<forall>g. g \<notin> insert new (free_frames fa) \<longrightarrow> m' g = m g)
     \<and> (\<forall>j. j \<noteq> i \<longrightarrow> m' new j = m new j) \<and> (m' new i \<noteq> 0 \<longrightarrow> flagged (m' new i) \<and> tree_ok m' (X \<union> free_frames fa') 3 (fr (m' new i)))
     \<and> (\<forall>js. path 3 js \<longrightarrow> entry_at m' new (i # js) = entry_at m src (i # js))"
  proof cases
    case z
    with run x have "m' = m" "fa' = fa" by (auto simp: clone_l4_entry_def pte_ok_def)
    with ok \<open>m new i = 0\<close> z show ?thesis by simp
  next
    case copy
    with t have f: "flagged ?e" "tree_ok m (X \<union> free_frames fa) 3 (fr ?e)" by simp_all
    from copy_step [OF X(1) ne refl copy(1) f copy(2)] ok copy(3) show ?thesis by simp
  next
    case child
    with t have f: "flagged ?e" "tree_ok m (X \<union> free_frames fa) (Suc 2) (fr ?e)" by (simp_all add: numeral_3_eq_3 numeral_2_eq_2)
    from child_step [OF x l3 ok X refl child(1) f child(2,3)] show ?thesis by (simp add: numeral_3_eq_3 numeral_2_eq_2)
  qed
qed

lemma clones_user: "pte_ok x \<Longrightarrow> clones 4 (create_user_pagetable x)"
proof -
  assume "pte_ok x"
  from fill_clones [OF step_l4 [OF this]] show ?thesis by (simp add: create_user_pagetable_def [abs_def])
qed


section \<open>Failure\<close>

text \<open>Cloning fails only when the frame allocator is exhausted, and then none of the frames taken on the way has been given back.\<close>

definition exhausts :: "(mem_state \<Rightarrow> 'r \<times> mem_state) \<Rightarrow> 'r \<Rightarrow> bool" where
  "exhausts f fail \<longleftrightarrow> (\<forall>m fa r m' fa'. fa_ok fa \<and> f (m, fa) = (r, (m', fa')) \<longrightarrow> fa_ok fa' \<and> (r = fail \<longrightarrow> free_frames fa' = {}))"

lemma exhaustsD: "exhausts f fail \<Longrightarrow> fa_ok fa \<Longrightarrow> f (m, fa) = (r, (m', fa')) \<Longrightarrow> fa_ok fa' \<and> (r = fail \<longrightarrow> free_frames fa' = {})"
  unfolding exhausts_def by blast

lemma each_entry_exhausts:
  assumes "\<And>i. exhausts (f i) False"
  shows "exhausts (each_entry f is) False"
  unfolding exhausts_def
proof (intro allI impI, elim conjE)
  fix m fa r m' fa'
  show "fa_ok fa \<Longrightarrow> each_entry f is (m, fa) = (r, (m', fa')) \<Longrightarrow> fa_ok fa' \<and> (r = False \<longrightarrow> free_frames fa' = {})"
  proof (induction "is" arbitrary: m fa)
    case (Cons i ks)
    obtain b m1 fa1 where st: "f i (m, fa) = (b, (m1, fa1))" by (metis surj_pair)
    note e = exhaustsD [OF assms Cons.prems(1) st]
    show ?case
    proof (cases b)
      case True
      with Cons.prems(2) st have "each_entry f ks (m1, fa1) = (r, (m', fa'))" by simp
      with Cons.IH e show ?thesis by blast
    qed (use e st Cons.prems in auto)
  qed simp
qed

lemma fill_exhausts:
  assumes "\<And>new i. exhausts (body new i) False"
  shows "exhausts (fill_table body) None"
  unfolding exhausts_def
proof (intro allI impI, elim conjE)
  fix m fa r m' fa'
  assume ok: "fa_ok fa" and run: "fill_table body (m, fa) = (r, (m', fa'))"
  obtain a m1 fa1 where al: "alloc_table (m, fa) = (a, (m1, fa1))" by (metis surj_pair)
  show "fa_ok fa' \<and> (r = None \<longrightarrow> free_frames fa' = {})"
  proof (cases a)
    case None
    with al have "allocate_frame fa = (None, fa1)" by (auto simp: alloc_table_def split: prod.splits option.splits)
    with allocate_frame_None [OF ok] allocate_frame_failed [of fa fa1] have "fa1 = fa" "free_frames fa = {}" by simp_all
    with run al None ok show ?thesis by (simp add: fill_table_def)
  next
    case (Some new)
    obtain b m2 fa2 where lo: "each_entry (body new) [0..<ENTRIES] (m1, fa1) = (b, (m2, fa2))" by (metis surj_pair)
    have "fa_ok fa1" using alloc_table_spec [OF ok] al Some by simp
    from exhaustsD [OF each_entry_exhausts [OF assms] this lo] run al Some lo show ?thesis by (auto simp: fill_table_def)
  qed
qed

lemma copy_exhausts: "exhausts (\<lambda>(m, fa). (True, (g m, fa))) False"
  by (simp add: exhausts_def)

text \<open>The child call, common to the entries of all upper levels.\<close>

lemma child_exhausts:
  assumes "\<And>src. exhausts (child src) None" and "fa_ok fa"
    and "(case child t (m, fa) of (None, s1) \<Rightarrow> (False, s1) | (Some t', (m1, fa1)) \<Rightarrow> (True, (h t' m1, fa1))) = (r, (m', fa'))"
  shows "fa_ok fa' \<and> (r = False \<longrightarrow> free_frames fa' = {})"
proof -
  obtain c m1 fa1 where st: "child t (m, fa) = (c, (m1, fa1))" by (metis surj_pair)
  from exhaustsD [OF assms(1,2) st] assms(3) st show ?thesis by (cases c) auto
qed

lemma clone_entry_exhausts:
  assumes "\<And>src. exhausts (child src) None"
  shows "exhausts (clone_entry x child uf src new i) False"
  unfolding exhausts_def clone_entry_def Let_def prod.case
proof (intro allI impI, elim conjE)
  fix m fa r m' fa'
  assume "fa_ok fa"
  note c = child_exhausts [OF assms this]
  assume "(if pte_is_unused x (m src i) then (True, (m, fa)) else if pte_flags x (m src i) AND PTE_HUGE \<noteq> 0 then (True, (put_entry new i (m src i) m, fa))
     else if uf \<and> pte_flags x (m src i) AND PTE_USER \<noteq> 0 then (case child (frame_of (pte_addr x (m src i))) (m, fa) of (None, s1) \<Rightarrow> (False, s1)
        | (Some t, (m1, fa1)) \<Rightarrow> (True, (put_entry new i (pte_make x (frame_addr t) (pte_flags x (m src i))) m1, fa1)))
     else (True, (put_entry new i (pte_make x (frame_addr (frame_of (pte_addr x (m src i)))) (pte_flags x (m src i))) m, fa))) = (r, (m', fa'))"
  then show "fa_ok fa' \<and> (r = False \<longrightarrow> free_frames fa' = {})"
    using \<open>fa_ok fa\<close> c by (simp split: if_split_asm) (metis+)?
qed

lemma clone_l4_exhausts:
  "exhausts (clone_l4_entry x src new i) False" if l3: "\<And>src. exhausts (clone_l3 x True src) None"
  unfolding exhausts_def clone_l4_entry_def Let_def prod.case
proof (intro allI impI, elim conjE)
  fix m fa r m' fa'
  assume "fa_ok fa"
  note c = child_exhausts [OF l3 this]
  assume "(if pte_is_unused x (m src i) then (True, (m, fa)) else if i = L4_USER_INDEX then
       (case clone_l3 x True (frame_of (pte_addr x (m src i))) (m, fa) of (None, s1) \<Rightarrow> (False, s1)
        | (Some t, (m1, fa1)) \<Rightarrow> (True, (put_entry new i (pte_make x (frame_addr t) (pte_flags x (m src i))) m1, fa1)))
     else (True, (put_entry new i (m src i) m, fa))) = (r, (m', fa'))"
  then show "fa_ok fa' \<and> (r = False \<longrightarrow> free_frames fa' = {})"
    using \<open>fa_ok fa\<close> c by (simp split: if_split_asm) (metis+)?
qed

lemma clone_exhausts:
  "exhausts (clone_l1 src) None" "exhausts (clone_l2 x uf src) None" "exhausts (clone_l3 x uf src) None" "exhausts (create_user_pagetable x src) None"
proof -
  show l1: "exhausts (clone_l1 src) None" for src unfolding clone_l1_def by (rule fill_exhausts) (rule copy_exhausts)
  then have l2: "exhausts (clone_l2 x uf src) None" for uf src unfolding clone_l2_def by (intro fill_exhausts clone_entry_exhausts)
  then show "exhausts (clone_l2 x uf src) None" .
  from l2 have l3: "exhausts (clone_l3 x uf src) None" for uf src unfolding clone_l3_def by (intro fill_exhausts clone_entry_exhausts)
  then show "exhausts (clone_l3 x uf src) None" .
  from l3 show "exhausts (create_user_pagetable x src) None" unfolding create_user_pagetable_def by (intro fill_exhausts clone_l4_exhausts)
qed


section \<open>Properties\<close>

lemma va_index_bound: "va_index va k < ENTRIES"
proof -
  have "drop_bit k va AND 0x1FF = take_bit 9 (drop_bit k va)" by (simp add: take_bit_eq_mask mask_eq_exp_minus_1)
  then have "va_index va k = take_bit 9 (unat (drop_bit k va))" unfolding va_index_def by (simp add: unsigned_take_bit_eq)
  then show ?thesis using take_bit_nat_less_exp [of 9] by (simp add: ENTRIES_def)
qed

lemma va_path: "path 4 [va_index va 39, va_index va 30, va_index va 21, va_index va 12]"
  by (simp add: path_def va_index_bound)

lemma kernel_only_fills:
  assumes "pte_ok x" and "src \<noteq> new"
  shows "m src L4_USER_INDEX = 0 \<Longrightarrow> fst (each_entry (clone_l4_entry x src new) is (m, fa))"
proof (induction "is" arbitrary: m)
  case (Cons i ks)
  define m1 where "m1 = (if m src i = 0 then m else put_entry new i (m src i) m)"
  have "clone_l4_entry x src new i (m, fa) = (True, (m1, fa))"
    using Cons.prems assms(1) by (auto simp: clone_l4_entry_def Let_def pte_ok_def m1_def)
  moreover have "m1 src L4_USER_INDEX = 0" using Cons.prems assms(2) by (simp add: m1_def put_entry_def)
  ultimately show ?case using Cons.IH [of m1] by simp
qed simp

definition wit_pte :: pte_api where
  "wit_pte = \<lparr>pte_is_unused = (\<lambda>e. e = 0), pte_addr = (\<lambda>e. e AND ADDR_MASK), pte_flags = (\<lambda>e. e AND NOT ADDR_MASK), pte_make = (\<lambda>a f. a OR f)\<rparr>"

definition wit_pages :: pmem where
  "wit_pages = (\<lambda>f i. if f = 0 \<and> i = 256 then 0x7003 else 0)"

definition wit_frames :: frame_allocator where
  "wit_frames = fa_init [\<lparr>mr_usable = True, mr_start = 4096, mr_end = 20480\<rparr>]"

lemma wit_frames_ok: "fa_ok wit_frames" "free_frames wit_frames = {1, 2, 3, 4}"
proof -
  have "f < MAX_FRAMES \<and> 4096 \<le> f * 4096 \<and> (f + 1) * 4096 \<le> (20480 :: nat) \<longleftrightarrow> f \<in> {1, 2, 3, 4}" for f
    by (auto simp: MAX_FRAMES_def)
  then show "fa_ok wit_frames" "free_frames wit_frames = {1, 2, 3, 4}" by (auto simp: wit_frames_def fa_init_spec usable_def)
qed

lemma wit_pte_ok: "pte_ok wit_pte"
  by (simp add: wit_pte_def pte_ok_def)

lemma wit_pages_ok: "tree_ok wit_pages (free_frames wit_frames) 4 0"
proof -
  have "fr 0x7003 = 7" "flagged 0x7003" by (simp_all add: fr_def frame_of_def ADDR_MASK_def flagged_def)
  then show ?thesis unfolding wit_frames_ok(2) by (simp add: wit_pages_def numeral_eq_Suc)
qed



end
