(* ===== verification/Cow.thy ===== *)
theory Cow
  imports PageTable
begin

text \<open>
  Copy-on-write (\<^verbatim>\<open>src/memory/cow.rs\<close>): the reference counts of shared frames, the marking of a page table when a process forks, and the
  resolution of a write fault. Entries are raw words here: the code reads and writes them through a raw pointer.
\<close>

section \<open>Reference counts\<close>

type_synonym refcounts = "u32 list"

record cow_state =
  cw_mem :: pmem
  cw_fa :: frame_allocator
  REFCOUNTS :: refcounts

definition PTE_COW_BIT :: u64 where "PTE_COW_BIT = push_bit 9 1"

definition ensure_capacity :: "nat \<Rightarrow> refcounts \<Rightarrow> refcounts" where
  "ensure_capacity idx g = (if length g \<le> idx then g @ replicate (idx + 1 - length g) 0 else g)"

definition cow_share :: "nat \<Rightarrow> refcounts \<Rightarrow> refcounts" where
  "cow_share idx g = (let g1 = ensure_capacity idx g in g1[idx := g1 ! idx + 1])"

definition cow_release :: "nat \<Rightarrow> refcounts \<Rightarrow> bool \<times> refcounts" where
  "cow_release idx g = (if length g \<le> idx then (True, g) else (g ! idx \<le> 1, g[idx := g ! idx - 1]))"

definition refcount :: "nat \<Rightarrow> refcounts \<Rightarrow> u32" where
  "refcount idx g = (if idx < length g then g ! idx else 0)"

section \<open>Marking\<close>

definition mark_pte :: "pte_api \<Rightarrow> u64 \<Rightarrow> refcounts \<Rightarrow> u64 \<times> refcounts \<times> nat" where
  "mark_pte x raw g =
     (if pte_is_unused x raw then (raw, g, 0)
      else if pte_flags x raw AND PTE_USER = 0 then (raw, g, 0)
      else if pte_flags x raw AND PTE_WRITABLE = 0 then (raw, g, 0)
      else ((raw AND NOT PTE_WRITABLE) OR PTE_COW_BIT, cow_share (frame_of (pte_addr x raw)) g, 1))"

definition mark_slot :: "pte_api \<Rightarrow> nat \<Rightarrow> nat \<Rightarrow> cow_state \<times> nat \<Rightarrow> cow_state \<times> nat" where
  "mark_slot x l1 i = (\<lambda>(s, count).
     case mark_pte x (cw_mem s l1 i) (REFCOUNTS s) of
       (raw, g, n) \<Rightarrow> (s\<lparr>cw_mem := put_entry l1 i raw (cw_mem s), REFCOUNTS := g\<rparr>, count + n))"

definition mark_l1 :: "pte_api \<Rightarrow> nat \<Rightarrow> cow_state \<times> nat \<Rightarrow> cow_state \<times> nat" where
  "mark_l1 x l1 s = fold (mark_slot x l1) [0..<512] s"

definition mark_table :: "pte_api \<Rightarrow> (nat \<Rightarrow> cow_state \<times> nat \<Rightarrow> cow_state \<times> nat) \<Rightarrow> nat \<Rightarrow> cow_state \<times> nat \<Rightarrow> cow_state \<times> nat" where
  "mark_table x lower t s = fold (\<lambda>i (s, count).
     let e = cw_mem s t i in
     if pte_is_unused x e then (s, count)
     else if pte_flags x e AND PTE_HUGE \<noteq> 0 then (s, count)
     else lower (frame_of (pte_addr x e)) (s, count)) [0..<512] s"

definition mark_user_pages_cow :: "pte_api \<Rightarrow> nat \<Rightarrow> cow_state \<Rightarrow> cow_state \<times> nat" where
  "mark_user_pages_cow x cr3 s =
     (let l4e = cw_mem s cr3 L4_USER_INDEX in
      if pte_is_unused x l4e then (s, 0)
      else mark_table x (mark_table x (mark_l1 x)) (frame_of (pte_addr x l4e)) (s, 0))"

section \<open>Resolving a write fault\<close>

datatype cow_error = NoL4Entry | NoL3Entry | NoL2Entry | NoL1Entry | NotCowMarked | OutOfFrames

text \<open>The part of \<open>resolve\<close> after the walk: the entry \<open>raw\<close> has been found in table \<open>l1\<close> at index \<open>i\<close>.\<close>

definition resolve_pte :: "pte_api \<Rightarrow> nat \<Rightarrow> nat \<Rightarrow> cow_state \<Rightarrow> (cow_error + unit) \<times> cow_state" where
  "resolve_pte x l1 i s =
     (let raw = cw_mem s l1 i in
      if raw AND PTE_COW_BIT = 0 then (Inl NotCowMarked, s)
      else
        let old = frame_of (pte_addr x raw) in
        case cow_release old (REFCOUNTS s) of (sole, g) \<Rightarrow>
        let s1 = s\<lparr>REFCOUNTS := g\<rparr> in
        if sole then (Inr (), s1\<lparr>cw_mem := put_entry l1 i ((raw AND NOT PTE_COW_BIT) OR PTE_WRITABLE) (cw_mem s1)\<rparr>)
        else
          (case allocate_frame (cw_fa s1) of
             (None, fa) \<Rightarrow> (Inl OutOfFrames, s1\<lparr>cw_fa := fa\<rparr>)
           | (Some f, fa) \<Rightarrow>
               let m = (cw_mem s1)(f := cw_mem s1 old);
                   flags = pte_flags x (m l1 i) OR PTE_WRITABLE;
                   new_raw = (frame_addr f OR flags) AND NOT PTE_COW_BIT in
               (Inr (), s1\<lparr>cw_fa := fa, cw_mem := put_entry l1 i new_raw m\<rparr>)))"

definition cow_resolve :: "pte_api \<Rightarrow> nat \<Rightarrow> u64 \<Rightarrow> cow_state \<Rightarrow> (cow_error + unit) \<times> cow_state" where
  "cow_resolve x cr3 va s =
     (let m = cw_mem s; l4e = m cr3 (va_index va 39) in if pte_is_unused x l4e then (Inl NoL4Entry, s) else
      let l3e = m (frame_of (pte_addr x l4e)) (va_index va 30) in if pte_is_unused x l3e then (Inl NoL3Entry, s) else
      let l2e = m (frame_of (pte_addr x l3e)) (va_index va 21) in if pte_is_unused x l2e then (Inl NoL2Entry, s) else
      let l1 = frame_of (pte_addr x l2e) in if pte_is_unused x (m l1 (va_index va 12)) then (Inl NoL1Entry, s)
      else resolve_pte x l1 (va_index va 12) s)"

text \<open>
  The page tables of a fork (\<^verbatim>\<open>src/process/mod.rs\<close>): clone the page table that is loaded (\<open>cur\<close>), then mark the table of the
  process that forks and the new one.
\<close>

definition fork_pages :: "pte_api \<Rightarrow> nat \<Rightarrow> nat \<Rightarrow> cow_state \<Rightarrow> nat option \<times> cow_state" where
  "fork_pages x cur self_cr3 s =
     (case create_user_pagetable x cur (cw_mem s, cw_fa s) of
        (None, (m, fa)) \<Rightarrow> (None, s\<lparr>cw_mem := m, cw_fa := fa\<rparr>)
      | (Some new, (m, fa)) \<Rightarrow>
          let s1 = fst (mark_user_pages_cow x self_cr3 (s\<lparr>cw_mem := m, cw_fa := fa\<rparr>)) in
          (Some new, fst (mark_user_pages_cow x new s1)))"

text \<open>The page-fault handler tries this on a write by user code to a page that is present; otherwise the fault is fatal.\<close>

definition page_fault_resolved :: "pte_api \<Rightarrow> bool \<Rightarrow> bool \<Rightarrow> bool \<Rightarrow> nat \<Rightarrow> u64 \<Rightarrow> cow_state \<Rightarrow> bool \<times> cow_state" where
  "page_fault_resolved x is_user is_write is_present cur_cr3 fault_addr s =
     (if is_user \<and> is_write \<and> is_present
      then (case cow_resolve x cur_cr3 fault_addr s of (Inr _, s1) \<Rightarrow> (True, s1) | (Inl _, s1) \<Rightarrow> (False, s1))
      else (False, s))"

section \<open>Laws of the counts and of the bits\<close>

lemma length_cow_share: "length (cow_share i g) = max (length g) (i + 1)"
  by (simp add: cow_share_def ensure_capacity_def Let_def)

lemma refcount_share: "refcount j (cow_share i g) = refcount j g + (if j = i then 1 else 0)"
  by (auto simp: refcount_def cow_share_def ensure_capacity_def Let_def nth_append nth_list_update)

lemma cow_release_spec:
  "cow_release i g = (refcount i g \<le> 1, if i < length g then g[i := g ! i - 1] else g)"
  by (auto simp: cow_release_def refcount_def)

lemma refcount_release: "i < length g \<Longrightarrow> refcount j (snd (cow_release i g)) = refcount j g - (if j = i then 1 else 0)"
  by (auto simp: cow_release_spec refcount_def nth_list_update)

lemma flag_masks: "PTE_COW_BIT = bit_mask 9" "PTE_WRITABLE = bit_mask 1" "PTE_USER = bit_mask 2"
  by (simp_all add: PTE_COW_BIT_def PTE_WRITABLE_def PTE_USER_def bit_mask_def)

lemma flag_bits: "bit PTE_COW_BIT k \<longleftrightarrow> k = 9" "bit PTE_WRITABLE k \<longleftrightarrow> k = 1" "bit PTE_USER k \<longleftrightarrow> k = 2"
  unfolding flag_masks bit_mask_def bit_push_bit_iff bit_1_iff by auto

lemma flag_zero: "w AND PTE_COW_BIT = 0 \<longleftrightarrow> \<not> bit w 9" "w AND PTE_WRITABLE = 0 \<longleftrightarrow> \<not> bit w 1" "w AND PTE_USER = 0 \<longleftrightarrow> \<not> bit w 2"
  unfolding flag_masks by (simp_all only: and_bit_mask_zero)

lemma fr_cong: "(\<And>k. 12 \<le> k \<Longrightarrow> k < 52 \<Longrightarrow> bit e k = bit e' k) \<Longrightarrow> fr e = fr e'"
proof -
  assume "\<And>k. 12 \<le> k \<Longrightarrow> k < 52 \<Longrightarrow> bit e k = bit e' k"
  then have "e AND ADDR_MASK = e' AND ADDR_MASK" by (intro bit_word_eqI) (auto simp: bit_and_iff addr_mask_bit)
  then show ?thesis by (simp add: fr_def)
qed

lemma pte_flags_bit: "pte_ok x \<Longrightarrow> k < 12 \<Longrightarrow> bit (pte_flags x e) k = bit e k"
  by (auto simp: pte_ok_def bit_and_iff bit_not_iff addr_mask_bit dest: bit_imp_le_length)

definition cow_marked :: "u64 \<Rightarrow> u64" where
  "cow_marked e = (e AND NOT PTE_WRITABLE) OR PTE_COW_BIT"

lemma cow_marked_bits: "bit (cow_marked e) k \<longleftrightarrow> k = 9 \<or> k \<noteq> 1 \<and> bit e k"
  by (auto simp: cow_marked_def bit_or_iff bit_and_iff bit_not_iff flag_bits dest: bit_imp_le_length)

lemma fr_cow_marked [simp]: "fr (cow_marked e) = fr e"
  by (rule fr_cong) (simp add: cow_marked_bits)

lemma mark_pte_writable:
  assumes "pte_ok x" and "bit e 1" and "bit e 2"
  shows "mark_pte x e g = (cow_marked e, cow_share (fr e) g, 1)"
proof -
  have "e \<noteq> 0" using assms(2) by auto
  with assms show ?thesis
    by (simp only: mark_pte_def flag_zero pte_flags_bit cow_marked_def fr_def) (simp add: pte_ok_def)
qed

text \<open>An entry that is already shared is skipped: it is not writable any more.\<close>

lemma mark_pte_shared: "pte_ok x \<Longrightarrow> \<not> bit e 1 \<Longrightarrow> mark_pte x e g = (e, g, 0)"
  by (simp add: mark_pte_def flag_zero pte_flags_bit)

lemma mark_slot_writable:
  assumes "pte_ok x" and "bit (cw_mem s l i) 1" and "bit (cw_mem s l i) 2"
  shows "mark_slot x l i (s, n) =
    (s\<lparr>cw_mem := put_entry l i (cow_marked (cw_mem s l i)) (cw_mem s), REFCOUNTS := cow_share (fr (cw_mem s l i)) (REFCOUNTS s)\<rparr>, n + 1)"
  by (simp add: mark_slot_def mark_pte_writable [OF assms])

lemma put_entry_id: "put_entry l i (m l i) m = m"
  by (simp add: put_entry_def)

lemma mark_slot_shared: "pte_ok x \<Longrightarrow> \<not> bit (cw_mem s l i) 1 \<Longrightarrow> mark_slot x l i (s, n) = (s, n)"
  by (simp add: mark_slot_def mark_pte_shared put_entry_id)

section \<open>The two outcomes of a fault\<close>

lemma resolve_sole:
  assumes "pte_ok x" and "bit (cw_mem s l i) 9" and "refcount (fr (cw_mem s l i)) (REFCOUNTS s) \<le> 1"
  shows "\<exists>e. resolve_pte x l i s = (Inr (), s\<lparr>cw_mem := put_entry l i e (cw_mem s),
      REFCOUNTS := snd (cow_release (fr (cw_mem s l i)) (REFCOUNTS s))\<rparr>) \<and> bit e 1 \<and> \<not> bit e 9 \<and> fr e = fr (cw_mem s l i)"
proof -
  let ?raw = "cw_mem s l i"
  let ?e = "(?raw AND NOT PTE_COW_BIT) OR PTE_WRITABLE"
  have b: "bit ?e k \<longleftrightarrow> k = 1 \<or> k \<noteq> 9 \<and> bit ?raw k" for k
    by (auto simp: bit_or_iff bit_and_iff bit_not_iff flag_bits dest: bit_imp_le_length)
  then have "fr ?e = fr ?raw" by (intro fr_cong) auto
  moreover have "frame_of (pte_addr x ?raw) = fr ?raw" using assms(1) by (simp add: pte_ok_def fr_def)
  ultimately show ?thesis using assms(2,3)
    by (intro exI [of _ ?e]) (simp add: b flag_zero resolve_pte_def Let_def cow_release_spec)
qed

lemma resolve_copy:
  assumes "pte_ok x" and ok: "fa_ok (cw_fa s)" and "bit (cw_mem s l i) 9" and "1 < refcount (fr (cw_mem s l i)) (REFCOUNTS s)"
    and al: "allocate_frame (cw_fa s) = (Some f, fa')" and l: "l \<notin> free_frames (cw_fa s)"
  shows "\<exists>e. resolve_pte x l i s = (Inr (), s\<lparr>cw_mem := put_entry l i e ((cw_mem s)(f := cw_mem s (fr (cw_mem s l i)))), cw_fa := fa',
      REFCOUNTS := snd (cow_release (fr (cw_mem s l i)) (REFCOUNTS s))\<rparr>) \<and> bit e 1 \<and> \<not> bit e 9 \<and> fr e = f"
proof -
  let ?raw = "cw_mem s l i"
  have f: "f \<in> free_frames (cw_fa s)" "f < MAX_FRAMES" using allocate_frame_spec [OF ok al] free_frames_bound [OF ok] by auto
  then have ne: "l \<noteq> f" using l by auto
  let ?e = "(frame_addr f OR (pte_flags x ?raw OR PTE_WRITABLE)) AND NOT PTE_COW_BIT"
  have fa: "bit (frame_addr f) k \<Longrightarrow> 12 \<le> k \<and> k < 52" for k
  proof -
    assume "bit (frame_addr f) k"
    then have "bit (frame_addr f AND ADDR_MASK) k" by (simp only: frame_addr_masked [OF f(2)])
    then show ?thesis by (simp add: bit_and_iff addr_mask_bit)
  qed
  have "pte_flags x ?raw = ?raw AND NOT ADDR_MASK" using assms(1) by (simp add: pte_ok_def)
  then have b: "bit ?e k \<longleftrightarrow> k \<noteq> 9 \<and> (k = 1 \<or> bit (frame_addr f) k \<or> bit ?raw k \<and> \<not> (12 \<le> k \<and> k < 52))" for k
    by (auto simp: bit_or_iff bit_and_iff bit_not_iff flag_bits addr_mask_bit dest: bit_imp_le_length)
  have "fr ?e = fr (frame_addr f)" by (rule fr_cong) (auto simp: b)
  also have "\<dots> = f" using f(2) by (simp add: fr_def frame_addr_masked frame_of_addr)
  finally have "fr ?e = f" .
  moreover have "frame_of (pte_addr x ?raw) = fr ?raw" using assms(1) by (simp add: pte_ok_def fr_def)
  moreover have "\<not> refcount (fr ?raw) (REFCOUNTS s) \<le> 1" using assms(4) by simp
  ultimately show ?thesis
    using assms(3) al ne
    by (intro exI [of _ ?e]) (simp add: b flag_zero resolve_pte_def Let_def cow_release_spec)
qed


section \<open>Properties\<close>

text \<open>What a process sees: its entry is writable and not shared, it leads to frame \<open>f\<close>, and the frame holds \<open>page\<close>.\<close>

definition private_page :: "cow_state \<Rightarrow> nat \<Rightarrow> nat \<Rightarrow> nat \<Rightarrow> (nat \<Rightarrow> u64) \<Rightarrow> bool" where
  "private_page s l i f page \<longleftrightarrow> bit (cw_mem s l i) 1 \<and> \<not> bit (cw_mem s l i) 9 \<and> fr (cw_mem s l i) = f \<and> cw_mem s f = page"

text \<open>Two slots of different tables that map the same frame, all of them in use and the frame not a table.\<close>

definition shared_slots :: "cow_state \<Rightarrow> nat \<Rightarrow> nat \<Rightarrow> nat \<Rightarrow> nat \<Rightarrow> u64 \<Rightarrow> bool" where
  "shared_slots s la ia lb ib e \<longleftrightarrow> cw_mem s la ia = e \<and> cw_mem s lb ib = e \<and> la \<noteq> lb \<and> fr e \<notin> {la, lb}
     \<and> {la, lb, fr e} \<inter> free_frames (cw_fa s) = {}"

lemma first_writer:
  assumes x: "pte_ok x" and ok: "fa_ok (cw_fa s)" and sl: "shared_slots s la ia lb ib c" and c: "bit c 9" "refcount (fr c) (REFCOUNTS s) = 2"
    and free: "free_frames (cw_fa s) \<noteq> {}"
  shows "\<exists>f s2. resolve_pte x la ia s = (Inr (), s2) \<and> f \<in> free_frames (cw_fa s) \<and> private_page s2 la ia f (cw_mem s (fr c))
    \<and> (\<forall>g. g \<notin> {la, f} \<longrightarrow> cw_mem s2 g = cw_mem s g) \<and> refcount (fr c) (REFCOUNTS s2) = 1"
proof -
  have S: "cw_mem s la ia = c" "la \<noteq> lb" "fr c \<noteq> la" "la \<notin> free_frames (cw_fa s)" "fr c \<notin> free_frames (cw_fa s)" using sl by (auto simp: shared_slots_def)
  obtain f fa' where al: "allocate_frame (cw_fa s) = (Some f, fa')"
    using allocate_frame_None [OF ok] free by (metis option.collapse prod.collapse)
  have f: "f \<in> free_frames (cw_fa s)" using allocate_frame_spec [OF ok al] by simp
  have len: "fr c < length (REFCOUNTS s)" using c(2) by (auto simp: refcount_def split: if_splits)
  have c2: "bit (cw_mem s la ia) 9" "1 < refcount (fr (cw_mem s la ia)) (REFCOUNTS s)" using c S(1) by simp_all
  obtain e where e: "resolve_pte x la ia s = (Inr (), s\<lparr>cw_mem := put_entry la ia e ((cw_mem s)(f := cw_mem s (fr c))), cw_fa := fa',
      REFCOUNTS := snd (cow_release (fr c) (REFCOUNTS s))\<rparr>)" "bit e 1" "\<not> bit e 9" "fr e = f"
    using resolve_copy [OF x ok c2 al S(4)] S(1) by auto
  have "f \<noteq> la" using f S by auto
  with e f c(2) show ?thesis
    by (intro exI [of _ f] exI [of _ "snd (resolve_pte x la ia s)"])
       (simp add: private_page_def put_entry_def refcount_release [OF len])
qed

lemma second_writer:
  assumes x: "pte_ok x" and c: "cw_mem s lb ib = c" "bit c 9" "refcount (fr c) (REFCOUNTS s) = 1" and ne: "fr c \<noteq> lb"
  shows "\<exists>s3. resolve_pte x lb ib s = (Inr (), s3) \<and> private_page s3 lb ib (fr c) (cw_mem s (fr c)) \<and> (\<forall>g. g \<noteq> lb \<longrightarrow> cw_mem s3 g = cw_mem s g)"
proof -
  have "bit (cw_mem s lb ib) 9" "refcount (fr (cw_mem s lb ib)) (REFCOUNTS s) \<le> 1" using c by simp_all
  from resolve_sole [OF x this] show ?thesis using ne c(1) by (auto simp: private_page_def put_entry_def)
qed

lemma both_writers:
  assumes "pte_ok x" and "fa_ok (cw_fa s)" and sl: "shared_slots s la ia lb ib c" and "bit c 9" "refcount (fr c) (REFCOUNTS s) = 2"
    and "free_frames (cw_fa s) \<noteq> {}"
  shows "\<exists>f s2 s3. resolve_pte x la ia s = (Inr (), s2) \<and> resolve_pte x lb ib s2 = (Inr (), s3) \<and> f \<noteq> fr c
    \<and> private_page s3 la ia f (cw_mem s (fr c)) \<and> private_page s3 lb ib (fr c) (cw_mem s (fr c))"
proof -
  obtain f s2 where F: "resolve_pte x la ia s = (Inr (), s2)" "f \<in> free_frames (cw_fa s)" "private_page s2 la ia f (cw_mem s (fr c))"
    "\<forall>g. g \<notin> {la, f} \<longrightarrow> cw_mem s2 g = cw_mem s g" "refcount (fr c) (REFCOUNTS s2) = 1"
    using first_writer [OF assms] by blast
  have d: "la \<noteq> lb" "fr c \<noteq> la" "fr c \<noteq> lb" "f \<noteq> lb" "f \<noteq> fr c" using sl F(2) by (auto simp: shared_slots_def)
  then have "cw_mem s2 lb ib = c" "cw_mem s2 (fr c) = cw_mem s (fr c)" using F(4) sl by (auto simp: shared_slots_def)
  with second_writer [OF assms(1) this(1) assms(4) F(5) d(3)] obtain s3 where
    T: "resolve_pte x lb ib s2 = (Inr (), s3)" "private_page s3 lb ib (fr c) (cw_mem s (fr c))" "\<forall>g. g \<noteq> lb \<longrightarrow> cw_mem s3 g = cw_mem s2 g" by auto
  then have "private_page s3 la ia f (cw_mem s (fr c))" using F(3) d by (auto simp: private_page_def)
  with F(1) T d show ?thesis by blast
qed

text \<open>The state after a fork has marked both slots of a page that was private before.\<close>

lemma marked_pair:
  assumes x: "pte_ok x" and sl: "shared_slots s la ia lb ib e" and e: "bit e 1" "bit e 2" and z: "refcount (fr e) (REFCOUNTS s) = 0"
    and s1: "s1 = fst (mark_slot x lb ib (mark_slot x la ia (s, n)))"
  shows "shared_slots s1 la ia lb ib (cow_marked e)" "refcount (fr e) (REFCOUNTS s1) = 2" "cw_fa s1 = cw_fa s"
    "\<forall>g. g \<notin> {la, lb} \<longrightarrow> cw_mem s1 g = cw_mem s g"
proof -
  define sa where "sa = s\<lparr>cw_mem := put_entry la ia (cow_marked e) (cw_mem s), REFCOUNTS := cow_share (fr e) (REFCOUNTS s)\<rparr>"
  have a: "mark_slot x la ia (s, n) = (sa, n + 1)" using mark_slot_writable [OF x, of s la ia n] sl e by (simp add: shared_slots_def sa_def)
  have lb: "cw_mem sa lb ib = e" using sl by (auto simp: shared_slots_def sa_def put_entry_def)
  then have "s1 = sa\<lparr>cw_mem := put_entry lb ib (cow_marked e) (cw_mem sa), REFCOUNTS := cow_share (fr e) (REFCOUNTS sa)\<rparr>"
    using mark_slot_writable [OF x, of sa lb ib "n + 1"] e by (simp add: s1 a)
  then show "shared_slots s1 la ia lb ib (cow_marked e)" "refcount (fr e) (REFCOUNTS s1) = 2" "cw_fa s1 = cw_fa s"
    "\<forall>g. g \<notin> {la, lb} \<longrightarrow> cw_mem s1 g = cw_mem s g"
    using sl z by (auto simp: shared_slots_def sa_def put_entry_def refcount_share)
qed



definition wit_cow_mem :: pmem where
  "wit_cow_mem = (\<lambda>f i. if f \<in> {10, 11, 12} \<and> i = 5 then 0x14007 else word_of_nat i)"

definition wit_cow :: cow_state where
  "wit_cow = \<lparr>cw_mem = wit_cow_mem, cw_fa = wit_frames, REFCOUNTS = []\<rparr>"

lemma wit_entry: "fr 0x14007 = 20" "bit (0x14007 :: u64) 1" "bit (0x14007 :: u64) 2"
  by (simp_all add: fr_def frame_of_def ADDR_MASK_def)

lemma wit_cow_slots: "shared_slots wit_cow 10 5 11 5 0x14007"
  by (simp add: shared_slots_def wit_cow_def wit_cow_mem_def wit_entry wit_frames_ok)




end
