(* ===== verification/Text.thy ===== *)
theory Text
  imports FsTypes
begin

text \<open>
  The operations of Rust strings that parsers of the kernel use: splitting, lines, and reading and printing numbers. Strings are lists of
  bytes, and white space is the ASCII one.
\<close>

section \<open>Splitting\<close>

text \<open>\<open>s.split(c)\<close>: the pieces between the separators, at least one.\<close>

fun split_char :: "char \<Rightarrow> string \<Rightarrow> string list" where
  "split_char c [] = [[]]"
| "split_char c (x # xs) =
     (case split_char c xs of
        [] \<Rightarrow> [[x]]
      | p # ps \<Rightarrow> if x = c then [] # p # ps else (x # p) # ps)"

definition join_char :: "char \<Rightarrow> string list \<Rightarrow> string" where
  "join_char c ps = concat (case ps of [] \<Rightarrow> [] | p # qs \<Rightarrow> p # map (\<lambda>q. c # q) qs)"

text \<open>\<open>split_whitespace\<close>: the non-empty pieces between white space.\<close>

fun split_ws :: "string \<Rightarrow> string \<Rightarrow> string list" where
  "split_ws cur [] = (if cur = [] then [] else [rev cur])"
| "split_ws cur (x # xs) =
     (if is_space x then (if cur = [] then split_ws [] xs else rev cur # split_ws [] xs) else split_ws (x # cur) xs)"

definition split_whitespace :: "string \<Rightarrow> string list" where
  "split_whitespace s = split_ws [] s"

text \<open>\<open>lines\<close>: a final empty line is not a line, and a carriage return before the line feed is dropped.\<close>

definition strip_cr :: "string \<Rightarrow> string" where
  "strip_cr l = (if l \<noteq> [] \<and> last l = CHR 0x0D then butlast l else l)"

definition str_lines :: "string \<Rightarrow> string list" where
  "str_lines s =
     (let ps = split_char (CHR 0x0A) s
      in map strip_cr (butlast ps) @ (if last ps = [] then [] else [last ps]))"

definition str_find :: "char \<Rightarrow> string \<Rightarrow> nat option" where
  "str_find c s = position ((=) c) s"

text \<open>\<open>split_once(c)\<close> and \<open>splitn(2, c)\<close>.\<close>

definition split_once :: "char \<Rightarrow> string \<Rightarrow> (string \<times> string) option" where
  "split_once c s = map_option (\<lambda>i. (take i s, drop (i + 1) s)) (str_find c s)"

section \<open>Numbers\<close>

definition digit_of :: "char \<Rightarrow> nat option" where
  "digit_of c = (let n = of_char c :: nat in if 48 \<le> n \<and> n \<le> 57 then Some (n - 48) else None)"

fun read_digits :: "nat \<Rightarrow> nat \<Rightarrow> string \<Rightarrow> nat option" where
  "read_digits bound acc [] = Some acc"
| "read_digits bound acc (c # cs) =
     (case digit_of c of
        None \<Rightarrow> None
      | Some d \<Rightarrow> if acc * 10 + d < bound then read_digits bound (acc * 10 + d) cs else None)"

text \<open>\<open>s.parse::<uN>()\<close>: an optional plus sign, at least one digit, and every intermediate value below \<open>2 ^ N\<close>.\<close>

definition parse_uint :: "nat \<Rightarrow> string \<Rightarrow> nat option" where
  "parse_uint bits s =
     (let ds = (case s of c # cs \<Rightarrow> if c = CHR ''+'' then cs else s | [] \<Rightarrow> s)
      in if ds = [] then None else read_digits (2 ^ bits) 0 ds)"

definition hex_digit :: "nat \<Rightarrow> char" where
  "hex_digit d = (if d < 10 then char_of (48 + d) else char_of (87 + d))"

text \<open>\<open>{:02x}\<close> on a byte.\<close>

definition hex2 :: "u8 \<Rightarrow> string" where
  "hex2 b = [hex_digit (unat b div 16), hex_digit (unat b mod 16)]"

section \<open>Laws\<close>

lemma split_char_ne [simp]: "split_char c s \<noteq> []"
  by (induction s) (auto split: list.splits)

lemma split_char_none: "c \<notin> set s \<Longrightarrow> split_char c s = [s]"
  by (induction s) auto

lemma split_char_append: "c \<notin> set p \<Longrightarrow> split_char c (p @ c # s) = p # split_char c s"
proof (induction p)
  case Nil
  show ?case by (cases "split_char c s") (use split_char_ne in auto)
qed auto

lemma split_join: "ps \<noteq> [] \<Longrightarrow> (\<And>p. p \<in> set ps \<Longrightarrow> c \<notin> set p) \<Longrightarrow> split_char c (join_char c ps) = ps"
proof (induction ps)
  case (Cons p ps)
  show ?case
  proof (cases ps)
    case Nil
    with Cons.prems show ?thesis by (simp add: join_char_def split_char_none)
  next
    case (Cons q qs)
    then have "join_char c (p # ps) = p @ c # join_char c ps" by (simp add: join_char_def)
    with Cons.IH Cons.prems Cons show ?thesis by (simp add: split_char_append)
  qed
qed simp

lemma join_split: "join_char c (split_char c s) = s"
proof (induction s)
  case (Cons x xs)
  then show ?case by (cases "split_char c xs") (auto simp: join_char_def split: list.splits)
qed (simp add: join_char_def)

lemma split_char_parts: "p \<in> set (split_char c s) \<Longrightarrow> c \<notin> set p"
  by (induction s arbitrary: p) (auto split: list.splits if_splits)

lemma digit_of_char: "d < 10 \<Longrightarrow> digit_of (char_of (48 + d)) = Some d"
  by (simp add: digit_of_def Let_def)

lemma read_digits_append:
  "read_digits b acc (xs @ ys) = (case read_digits b acc xs of None \<Rightarrow> None | Some a \<Rightarrow> read_digits b a ys)"
  by (induction b acc xs rule: read_digits.induct) (auto split: option.splits)

lemma dec_digits_ne [simp]: "dec_digits n \<noteq> []"
  by (subst dec_digits.simps) simp

lemma dec_digits_chars: "c \<in> set (dec_digits n) \<Longrightarrow> \<exists>d < 10. c = char_of (48 + d :: nat)"
proof (induction n rule: dec_digits.induct)
  case (1 n)
  show ?case
  proof (cases "n < 10")
    case True
    with 1(2) show ?thesis by (subst (asm) dec_digits.simps) auto
  next
    case False
    then have "c \<in> set (dec_digits (n div 10)) \<or> c = char_of (48 + n mod 10)" using 1(2) by (subst (asm) dec_digits.simps) auto
    with 1(1) [OF False] show ?thesis by (metis mod_less_divisor zero_less_numeral)
  qed
qed

lemma read_dec_digits: "n < b \<Longrightarrow> read_digits b 0 (dec_digits n) = Some n"
proof (induction n rule: dec_digits.induct)
  case (1 n)
  show ?case
  proof (cases "n < 10")
    case True
    with 1(2) show ?thesis by (subst dec_digits.simps) (simp add: digit_of_char)
  next
    case False
    have "n div 10 < b" using 1(2) by (meson div_le_dividend le_less_trans)
    with 1(1) [OF False] have "read_digits b 0 (dec_digits (n div 10)) = Some (n div 10)" by blast
    with False 1(2) show ?thesis by (subst dec_digits.simps) (simp add: read_digits_append digit_of_char)
  qed
qed

lemma char_nums: "of_char (char_of (48 + d :: nat)) = 48 + d" if "d < 10" for d :: nat
  using that by simp

lemma dec_digits_first: "\<exists>c cs. dec_digits n = c # cs \<and> c \<noteq> CHR ''+''"
proof (cases "dec_digits n")
  case (Cons c cs)
  then obtain d where d: "d < 10" "c = char_of (48 + d :: nat)" using dec_digits_chars [of c n] by auto
  have "of_char c \<noteq> (of_char (CHR ''+'') :: nat)" using d by simp
  then have "c \<noteq> CHR ''+''" by metis
  with Cons show ?thesis by blast
qed simp

text \<open>A printed number is read back.\<close>

lemma parse_dec_digits: "n < 2 ^ bits \<Longrightarrow> parse_uint bits (dec_digits n) = Some n"
  using dec_digits_first [of n] by (auto simp: parse_uint_def read_dec_digits [symmetric])

lemma read_digits_bound: "read_digits b acc s = Some n \<Longrightarrow> acc < b \<Longrightarrow> n < b"
  by (induction b acc s rule: read_digits.induct) (auto split: option.splits if_splits)

lemma parse_uint_bound: "parse_uint bits s = Some n \<Longrightarrow> n < 2 ^ bits"
  using read_digits_bound [of "2 ^ bits" 0 _ n] unfolding parse_uint_def Let_def by (metis not_None_eq zero_less_numeral zero_less_power)

lemma split_ws_parts:
  "p \<in> set (split_ws cur s) \<Longrightarrow> \<forall>x \<in> set cur. \<not> is_space x \<Longrightarrow> p \<noteq> [] \<and> (\<forall>x \<in> set p. \<not> is_space x)"
proof (induction s arbitrary: cur)
  case (Cons y ys)
  show ?case
  proof (cases "is_space y")
    case True
    with Cons.prems Cons.IH [of "[]"] show ?thesis by (auto split: if_splits)
  next
    case False
    with Cons.prems Cons.IH [of "y # cur"] show ?thesis by auto
  qed
qed (auto split: if_splits)

lemma split_whitespace_parts: "p \<in> set (split_whitespace s) \<Longrightarrow> p \<noteq> [] \<and> (\<forall>x \<in> set p. \<not> is_space x)"
  unfolding split_whitespace_def by (rule split_ws_parts) auto

end
