(* ===== verification/Wire.thy ===== *)
theory Wire
  imports Bytes Text
begin

text \<open>
  The packet formats of the network stack (\<^verbatim>\<open>src/net/eth.rs\<close>, \<^verbatim>\<open>arp.rs\<close>, \<^verbatim>\<open>ip.rs\<close>, \<^verbatim>\<open>udp.rs\<close>, \<^verbatim>\<open>icmp.rs\<close>, the header of
  \<^verbatim>\<open>tcp.rs\<close>): addresses, the Internet checksum, and for every header its serialisation and its parser. The contract between the two is a locale.
\<close>

section \<open>Addresses\<close>

datatype ipv4_addr = Ipv4Addr u8 u8 u8 u8

record socket_addr =
  sa_ip :: ipv4_addr
  sa_port :: u16

definition LOCALHOST :: ipv4_addr where "LOCALHOST = Ipv4Addr 127 0 0 1"
definition ANY :: ipv4_addr where "ANY = Ipv4Addr 0 0 0 0"
definition BROADCAST :: ipv4_addr where "BROADCAST = Ipv4Addr 255 255 255 255"

primrec is_loopback :: "ipv4_addr \<Rightarrow> bool" where "is_loopback (Ipv4Addr a b c d) = (a = 127)"
definition is_unspecified :: "ipv4_addr \<Rightarrow> bool" where "is_unspecified a = (a = ANY)"
definition is_broadcast :: "ipv4_addr \<Rightarrow> bool" where "is_broadcast a = (a = BROADCAST)"

primrec octets :: "ipv4_addr \<Rightarrow> u8 list" where "octets (Ipv4Addr a b c d) = [a, b, c, d]"

primrec ip_to_u32 :: "ipv4_addr \<Rightarrow> u32" where
  "ip_to_u32 (Ipv4Addr a b c d) = push_bit 24 (ucast a) OR push_bit 16 (ucast b) OR push_bit 8 (ucast c) OR ucast d"

definition ip_from_u32 :: "u32 \<Rightarrow> ipv4_addr" where
  "ip_from_u32 v = Ipv4Addr (ucast (drop_bit 24 v)) (ucast (drop_bit 16 v)) (ucast (drop_bit 8 v)) (ucast v)"

definition parse_u8 :: "string \<Rightarrow> u8 option" where
  "parse_u8 s = map_option word_of_nat (parse_uint 8 s)"

definition ip_parse :: "string \<Rightarrow> ipv4_addr option" where
  "ip_parse s =
     (case split_char (CHR ''.'') s of
        [a, b, c, d] \<Rightarrow>
          (case (parse_u8 a, parse_u8 b, parse_u8 c, parse_u8 d) of
             (Some a, Some b, Some c, Some d) \<Rightarrow> Some (Ipv4Addr a b c d)
           | _ \<Rightarrow> None)
      | _ \<Rightarrow> None)"

definition ip_fmt :: "ipv4_addr \<Rightarrow> string" where
  "ip_fmt a = join_char (CHR ''.'') (map (\<lambda>b. dec_digits (unat b)) (octets a))"

section \<open>Checksum\<close>

lemma unat_bounds: "unat (a :: u8) \<le> 255" "unat (b :: u16) \<le> 65535" "unat (c :: u32) \<le> 4294967295"
  using unsigned_less [of a, where 'a = nat] unsigned_less [of b, where 'a = nat] unsigned_less [of c, where 'a = nat] by simp_all

fun sum_words :: "u8 list \<Rightarrow> u32" where
  "sum_words (a # b # bs) = ucast (from_be [a, b] :: u16) + sum_words bs"
| "sum_words [a] = push_bit 8 (ucast a)"
| "sum_words [] = 0"

function fold_carry :: "u32 \<Rightarrow> u32" where
  "fold_carry s = (if drop_bit 16 s \<noteq> 0 then fold_carry ((s AND 0xFFFF) + drop_bit 16 s) else s)"
  by pat_completeness auto

lemma fold_carry_unat:
  fixes s :: u32
  shows "unat ((s AND 0xFFFF) + drop_bit 16 s) = unat s mod 65536 + unat s div 65536"
proof -
  have m: "unat (s AND 0xFFFF) = unat s mod 65536"
  proof -
    have "s AND 0xFFFF = take_bit 16 s" by (simp only: take_bit_eq_mask) (simp add: mask_eq_exp_minus_1)
    then have "unat (s AND 0xFFFF) = take_bit 16 (unat s)" by (simp only: unsigned_take_bit_eq)
    then show ?thesis by (simp add: take_bit_eq_mod)
  qed
  have d: "unat (drop_bit 16 s) = unat s div 65536" by (simp only: unat_drop_bit_eq) (simp add: drop_bit_eq_div)
  have "unat s < 2 ^ 32" using unat_bounds(3) [of s] by simp
  then have "unat s div 65536 < 65536" by (simp add: div_less_iff_less_mult)
  moreover have "unat s mod 65536 < 65536" by simp
  ultimately have "unat (s AND 0xFFFF) + unat (drop_bit 16 s) < 2 ^ LENGTH(32)" unfolding m d by simp
  then show ?thesis by (simp add: unat_word_ariths m d)
qed

lemma drop_bit_16_zero: "drop_bit 16 (s :: u32) = 0 \<longleftrightarrow> unat s < 65536"
proof -
  have "drop_bit 16 s = 0 \<longleftrightarrow> unat (drop_bit 16 s) = 0" by (simp only: unat_eq_0)
  also have "\<dots> \<longleftrightarrow> unat s div 65536 = 0" by (simp only: unat_drop_bit_eq) (simp add: drop_bit_eq_div)
  finally show ?thesis by auto
qed

termination fold_carry
proof (relation "measure unat")
  fix s :: u32 assume "drop_bit 16 s \<noteq> 0"
  then have "65536 \<le> unat s" by (simp add: drop_bit_16_zero)
  then have "0 < unat s div 65536" by (simp add: div_greater_zero_iff)
  have "unat s = (unat s div 65536) * 65536 + unat s mod 65536" by simp
  with \<open>0 < unat s div 65536\<close> show "((s AND 0xFFFF) + drop_bit 16 s, s) \<in> measure unat"
    unfolding in_measure fold_carry_unat by linarith
qed simp

declare fold_carry.simps [simp del]

definition compute_checksum :: "u8 list \<Rightarrow> u16" where
  "compute_checksum data = NOT (ucast (fold_carry (sum_words data)))"

definition verify_ip_checksum :: "u8 list \<Rightarrow> bool" where
  "verify_ip_checksum packet = (if length packet < 20 then False else compute_checksum (take 20 packet) = 0)"

section \<open>Headers\<close>

abbreviation be16 :: "u8 list \<Rightarrow> nat \<Rightarrow> u16" where "be16 buf i \<equiv> from_be [buf ! i, buf ! (i + 1)]"
abbreviation be32 :: "u8 list \<Rightarrow> nat \<Rightarrow> u32" where "be32 buf i \<equiv> from_be [buf ! i, buf ! (i + 1), buf ! (i + 2), buf ! (i + 3)]"

definition PROTO_ICMP :: u8 where "PROTO_ICMP = 1"
definition PROTO_TCP :: u8 where "PROTO_TCP = 6"
definition PROTO_UDP :: u8 where "PROTO_UDP = 17"

subsection \<open>Ethernet\<close>

record eth_header =
  eth_dst :: "u8 list"
  eth_src :: "u8 list"
  ethertype :: u16

definition eth_parse :: "u8 list \<Rightarrow> eth_header option" where
  "eth_parse buf =
     (if length buf < 14 then None
      else Some \<lparr>eth_dst = take 6 buf, eth_src = take 6 (drop 6 buf), ethertype = be16 buf 12\<rparr>)"

definition eth_build :: "eth_header \<Rightarrow> u8 list" where
  "eth_build h = eth_dst h @ eth_src h @ to_be 2 (ethertype h)"

definition build_frame :: "u8 list \<Rightarrow> u8 list \<Rightarrow> u16 \<Rightarrow> u8 list \<Rightarrow> u8 list" where
  "build_frame dst src et payload = eth_build \<lparr>eth_dst = dst, eth_src = src, ethertype = et\<rparr> @ payload"

definition fmt_mac :: "u8 list \<Rightarrow> string" where
  "fmt_mac mac = join_char (CHR '':'') (map hex2 mac)"

definition BROADCAST_MAC :: "u8 list" where "BROADCAST_MAC = replicate 6 0xFF"

subsection \<open>ARP\<close>

record arp_packet =
  htype :: u16
  ptype :: u16
  hlen :: u8
  plen :: u8
  arp_op :: u16
  sender_mac :: "u8 list"
  sender_ip :: ipv4_addr
  target_mac :: "u8 list"
  target_ip :: ipv4_addr

definition arp_build :: "arp_packet \<Rightarrow> u8 list" where
  "arp_build p = to_be 2 (htype p) @ to_be 2 (ptype p) @ [hlen p, plen p] @ to_be 2 (arp_op p)
     @ sender_mac p @ octets (sender_ip p) @ target_mac p @ octets (target_ip p)"

definition arp_parse :: "u8 list \<Rightarrow> arp_packet option" where
  "arp_parse buf =
     (if length buf < 28 then None
      else Some \<lparr>htype = be16 buf 0, ptype = be16 buf 2, hlen = buf ! 4, plen = buf ! 5, arp_op = be16 buf 6,
        sender_mac = take 6 (drop 8 buf), sender_ip = Ipv4Addr (buf ! 14) (buf ! 15) (buf ! 16) (buf ! 17),
        target_mac = take 6 (drop 18 buf), target_ip = Ipv4Addr (buf ! 24) (buf ! 25) (buf ! 26) (buf ! 27)\<rparr>)"

text \<open>The table from addresses to hardware addresses, keyed by the address as a number.\<close>

type_synonym arp_table = "u32 \<rightharpoonup> u8 list"

definition cache_insert :: "ipv4_addr \<Rightarrow> u8 list \<Rightarrow> arp_table \<Rightarrow> arp_table" where
  "cache_insert ip mac t = t(ip_to_u32 ip \<mapsto> mac)"

definition cache_lookup :: "ipv4_addr \<Rightarrow> arp_table \<Rightarrow> u8 list option" where
  "cache_lookup ip t = t (ip_to_u32 ip)"

definition build_request_frame :: "u8 list \<Rightarrow> ipv4_addr \<Rightarrow> ipv4_addr \<Rightarrow> u8 list" where
  "build_request_frame mac ip target =
     build_frame BROADCAST_MAC mac 0x0806 (arp_build \<lparr>htype = 1, ptype = 0x0800, hlen = 6, plen = 4, arp_op = 1,
       sender_mac = mac, sender_ip = ip, target_mac = replicate 6 0, target_ip = target\<rparr>)"

definition build_reply_frame :: "u8 list \<Rightarrow> ipv4_addr \<Rightarrow> arp_packet \<Rightarrow> u8 list" where
  "build_reply_frame my_mac my_ip req =
     build_frame (sender_mac req) my_mac 0x0806 (arp_build \<lparr>htype = 1, ptype = 0x0800, hlen = 6, plen = 4, arp_op = 2,
       sender_mac = my_mac, sender_ip = my_ip, target_mac = sender_mac req, target_ip = sender_ip req\<rparr>)"

definition arp_input :: "u8 list \<Rightarrow> u8 list \<Rightarrow> ipv4_addr \<Rightarrow> arp_table \<Rightarrow> u8 list option \<times> arp_table" where
  "arp_input payload my_mac my_ip t =
     (case arp_parse payload of
        None \<Rightarrow> (None, t)
      | Some arp \<Rightarrow>
          if htype arp \<noteq> 1 \<or> ptype arp \<noteq> 0x0800 then (None, t)
          else
            let t1 = cache_insert (sender_ip arp) (sender_mac arp) t in
            if arp_op arp = 1 \<and> target_ip arp = my_ip then (Some (build_reply_frame my_mac my_ip arp), t1) else (None, t1))"

subsection \<open>IPv4\<close>

record ipv4_header =
  version_ihl :: u8
  tos :: u8
  total_length :: u16
  identification :: u16
  flags_fragoff :: u16
  ttl :: u8
  protocol :: u8
  ip_checksum :: u16
  ip_src :: ipv4_addr
  ip_dst :: ipv4_addr

definition ip_header_new :: "ipv4_addr \<Rightarrow> ipv4_addr \<Rightarrow> u8 \<Rightarrow> u16 \<Rightarrow> ipv4_header" where
  "ip_header_new src dst proto payload_len =
     \<lparr>version_ihl = 0x45, tos = 0, total_length = 20 + payload_len, identification = 0, flags_fragoff = 0x4000, ttl = 64,
      protocol = proto, ip_checksum = 0, ip_src = src, ip_dst = dst\<rparr>"

definition ip_front :: "ipv4_header \<Rightarrow> u8 list" where
  "ip_front h = [version_ihl h, tos h] @ to_be 2 (total_length h) @ to_be 2 (identification h) @ to_be 2 (flags_fragoff h) @ [ttl h, protocol h]"

text \<open>\<open>write_to\<close> on a buffer of the size of the header: the checksum is computed with its own field cleared.\<close>

definition ip_write :: "ipv4_header \<Rightarrow> u8 list" where
  "ip_write h =
     (let back = octets (ip_src h) @ octets (ip_dst h); cksum = compute_checksum (ip_front h @ [0, 0] @ back)
      in ip_front h @ to_be 2 cksum @ back)"

definition ip_header_parse :: "u8 list \<Rightarrow> ipv4_header option" where
  "ip_header_parse buf =
     (if length buf < 20 then None
      else Some \<lparr>version_ihl = buf ! 0, tos = buf ! 1, total_length = be16 buf 2, identification = be16 buf 4, flags_fragoff = be16 buf 6,
        ttl = buf ! 8, protocol = buf ! 9, ip_checksum = be16 buf 10,
        ip_src = Ipv4Addr (buf ! 12) (buf ! 13) (buf ! 14) (buf ! 15), ip_dst = Ipv4Addr (buf ! 16) (buf ! 17) (buf ! 18) (buf ! 19)\<rparr>)"


subsection \<open>UDP\<close>

record udp_header =
  udp_src_port :: u16
  udp_dst_port :: u16
  udp_length :: u16
  udp_checksum :: u16

definition udp_header_new :: "u16 \<Rightarrow> u16 \<Rightarrow> u16 \<Rightarrow> udp_header" where
  "udp_header_new src dst payload_len = \<lparr>udp_src_port = src, udp_dst_port = dst, udp_length = 8 + payload_len, udp_checksum = 0\<rparr>"

definition udp_write :: "udp_header \<Rightarrow> u8 list" where
  "udp_write h = to_be 2 (udp_src_port h) @ to_be 2 (udp_dst_port h) @ to_be 2 (udp_length h) @ to_be 2 (udp_checksum h)"

definition udp_parse :: "u8 list \<Rightarrow> udp_header option" where
  "udp_parse buf =
     (if length buf < 8 then None
      else Some \<lparr>udp_src_port = be16 buf 0, udp_dst_port = be16 buf 2, udp_length = be16 buf 4, udp_checksum = be16 buf 6\<rparr>)"

definition pseudo_header_sum :: "ipv4_addr \<Rightarrow> ipv4_addr \<Rightarrow> u8 \<Rightarrow> u16 \<Rightarrow> u32" where
  "pseudo_header_sum src dst proto len = sum_words (octets src) + sum_words (octets dst) + ucast proto + ucast len"

definition add_words :: "u32 \<Rightarrow> u32 \<Rightarrow> u32" where
  "add_words a b = fold_carry (a + b)"

definition build_datagram :: "socket_addr \<Rightarrow> socket_addr \<Rightarrow> u8 list \<Rightarrow> u8 list" where
  "build_datagram src dst payload =
     (let n = length payload;
          ip = ip_write (ip_header_new (sa_ip src) (sa_ip dst) PROTO_UDP (word_of_nat (8 + n)));
          segment = udp_write (udp_header_new (sa_port src) (sa_port dst) (word_of_nat n)) @ payload;
          pseudo = pseudo_header_sum (sa_ip src) (sa_ip dst) PROTO_UDP (word_of_nat (8 + n));
          cksum = NOT (ucast (add_words pseudo (sum_words segment)) :: u16);
          cksum = (if cksum = 0 then 0xFFFF else cksum)
      in ip @ take 6 segment @ to_be 2 cksum @ drop 8 segment)"

subsection \<open>ICMP\<close>

record icmp_header =
  icmp_kind :: u8
  icmp_code :: u8
  icmp_checksum :: u16
  icmp_identifier :: u16
  icmp_sequence :: u16

definition icmp_parse :: "u8 list \<Rightarrow> icmp_header option" where
  "icmp_parse buf =
     (if length buf < 8 then None
      else Some \<lparr>icmp_kind = buf ! 0, icmp_code = buf ! 1, icmp_checksum = be16 buf 2, icmp_identifier = be16 buf 4, icmp_sequence = be16 buf 6\<rparr>)"

text \<open>The packet that \<open>send_echo_request\<close> (type 8) and \<open>send_echo_reply\<close> (type 0) build.\<close>

definition echo_packet :: "u8 \<Rightarrow> ipv4_addr \<Rightarrow> ipv4_addr \<Rightarrow> u16 \<Rightarrow> u16 \<Rightarrow> u8 list \<Rightarrow> u8 list" where
  "echo_packet kind src dst ident seq payload =
     (let ip = ip_write (ip_header_new src dst PROTO_ICMP (word_of_nat (8 + length payload)));
          back = to_be 2 ident @ to_be 2 seq @ payload;
          cksum = compute_checksum ([kind, 0] @ [0, 0] @ back)
      in ip @ [kind, 0] @ to_be 2 cksum @ back)"

subsection \<open>TCP\<close>

record tcp_header =
  th_src_port :: u16
  th_dst_port :: u16
  th_seq :: u32
  th_ack :: u32
  th_data_offset_words :: u8
  th_flags :: u8
  th_window :: u16
  th_checksum :: u16
  th_urgent :: u16

definition TCP_FIN :: u8 where "TCP_FIN = 0x01"
definition TCP_SYN :: u8 where "TCP_SYN = 0x02"
definition TCP_RST :: u8 where "TCP_RST = 0x04"
definition TCP_PSH :: u8 where "TCP_PSH = 0x08"
definition TCP_ACK :: u8 where "TCP_ACK = 0x10"

definition tcp_parse :: "u8 list \<Rightarrow> tcp_header option" where
  "tcp_parse buf =
     (if length buf < 20 then None
      else
        let off_flags = be16 buf 12 in
        Some \<lparr>th_src_port = be16 buf 0, th_dst_port = be16 buf 2, th_seq = be32 buf 4, th_ack = be32 buf 8,
          th_data_offset_words = ucast (drop_bit 12 off_flags AND 0xF), th_flags = ucast (off_flags AND 0x3F),
          th_window = be16 buf 14, th_checksum = be16 buf 16, th_urgent = be16 buf 18\<rparr>)"

definition do_flags :: "tcp_header \<Rightarrow> u16" where
  "do_flags h = push_bit 12 (ucast (th_data_offset_words h)) OR ucast (th_flags h)"

definition tcp_write :: "tcp_header \<Rightarrow> u8 list" where
  "tcp_write h = to_be 2 (th_src_port h) @ to_be 2 (th_dst_port h) @ to_be 4 (th_seq h) @ to_be 4 (th_ack h)
     @ to_be 2 (do_flags h)
     @ to_be 2 (th_window h) @ [0, 0] @ to_be 2 (th_urgent h)"

text \<open>The packet that \<open>emit\<close> builds: a header of five words and the payload.\<close>

definition tcp_packet :: "socket_addr \<Rightarrow> socket_addr \<Rightarrow> u32 \<Rightarrow> u32 \<Rightarrow> u8 \<Rightarrow> u8 list \<Rightarrow> u8 list" where
  "tcp_packet local remote seq ack flags payload =
     (let n = length payload;
          ip = ip_write (ip_header_new (sa_ip local) (sa_ip remote) PROTO_TCP (word_of_nat (20 + n)));
          segment = tcp_write \<lparr>th_src_port = sa_port local, th_dst_port = sa_port remote, th_seq = seq, th_ack = ack,
            th_data_offset_words = 5, th_flags = flags, th_window = 0xFFFF, th_checksum = 0, th_urgent = 0\<rparr> @ payload;
          sum = sum_words (octets (sa_ip local)) + sum_words (octets (sa_ip remote)) + ucast PROTO_TCP + word_of_nat (20 + n) + sum_words segment;
          cksum = NOT (ucast (fold_carry sum) :: u16);
          cksum = (if cksum = 0 then 0xFFFF else cksum)
      in ip @ take 16 segment @ to_be 2 cksum @ drop 18 segment)"

section \<open>The contract of a header format\<close>

text \<open>A parser recovers what the builder wrote, whatever follows, and refuses buffers that are too short.\<close>

locale wire_format =
  fixes ok :: "'h \<Rightarrow> bool" and build :: "'h \<Rightarrow> u8 list" and parse :: "u8 list \<Rightarrow> 'h option" and len :: nat
  assumes parse_build: "ok h \<Longrightarrow> parse (build h @ rest) = Some h"
    and build_length: "ok h \<Longrightarrow> length (build h) = len"
    and parse_short: "length buf < len \<Longrightarrow> parse buf = None"
begin

lemma build_inj: "ok h \<Longrightarrow> ok h' \<Longrightarrow> build h = build h' \<Longrightarrow> h = h'"
  using parse_build [of h "[]"] parse_build [of h' "[]"] by simp

lemma unambiguous: "ok h \<Longrightarrow> ok h' \<Longrightarrow> build h @ xs = build h' @ ys \<Longrightarrow> h = h' \<and> xs = ys"
  using parse_build [of h xs] parse_build [of h' ys] build_length by (metis append_eq_append_conv option.inject)

lemma payload_of: "ok h \<Longrightarrow> drop len (build h @ payload) = payload"
  by (simp add: build_length)

end

lemma to_be_2 [simp]: "to_be 2 w = [ucast (drop_bit 8 w), ucast w]" for w :: u16
  by (simp add: to_be_def numeral_2_eq_2)

lemma to_be_4 [simp]: "to_be 4 w = [ucast (drop_bit 24 w), ucast (drop_bit 16 w), ucast (drop_bit 8 w), ucast w]" for w :: u32
  by (simp add: to_be_def numeral_eq_Suc drop_bit_drop_bit)

lemma from_be_2 [simp]: "from_be [ucast (drop_bit 8 w), ucast w] = w" for w :: u16
  using from_to_be [of 2 w] by simp

lemma from_be_4 [simp]: "from_be [ucast (drop_bit 24 w), ucast (drop_bit 16 w), ucast (drop_bit 8 w), ucast w] = w" for w :: u32
  using from_to_be [of 4 w] by simp

lemma length_octets [simp]: "length (octets a) = 4"
  by (cases a) simp

interpretation udp: wire_format "\<lambda>_. True" udp_write udp_parse 8
  by unfold_locales (simp_all add: udp_write_def udp_parse_def)

definition macs_ok :: "eth_header \<Rightarrow> bool" where
  "macs_ok h \<longleftrightarrow> length (eth_dst h) = 6 \<and> length (eth_src h) = 6"

interpretation eth: wire_format macs_ok eth_build eth_parse 14
  by unfold_locales (simp_all add: macs_ok_def eth_build_def eth_parse_def nth_append)

definition arp_ok :: "arp_packet \<Rightarrow> bool" where
  "arp_ok p \<longleftrightarrow> length (sender_mac p) = 6 \<and> length (target_mac p) = 6"

interpretation arp: wire_format arp_ok arp_build arp_parse 28
proof unfold_locales
  fix p rest assume "arp_ok p"
  then show "arp_parse (arp_build p @ rest) = Some p" "length (arp_build p) = 28"
    by (cases "sender_ip p"; cases "target_ip p"; simp add: arp_ok_def arp_build_def arp_parse_def nth_append)+
qed (simp add: arp_parse_def)

text \<open>The header as it is on the wire, with its checksum filled in.\<close>

definition ip_sealed :: "ipv4_header \<Rightarrow> ipv4_header" where
  "ip_sealed h = h\<lparr>ip_checksum := compute_checksum (ip_front h @ [0, 0] @ octets (ip_src h) @ octets (ip_dst h))\<rparr>"

lemma ip_write_length [simp]: "length (ip_write h) = 20"
  by (simp add: ip_write_def ip_front_def Let_def)

lemma ip_parse_write: "ip_header_parse (ip_write h @ rest) = Some (ip_sealed h)"
  by (cases "ip_src h"; cases "ip_dst h") (simp add: ip_header_parse_def ip_write_def ip_front_def ip_sealed_def Let_def)

interpretation ip4: wire_format "\<lambda>h. ip_sealed h = h" ip_write ip_header_parse 20
  by unfold_locales (simp_all add: ip_parse_write, simp add: ip_header_parse_def)

definition tcp_ok :: "tcp_header \<Rightarrow> bool" where
  "tcp_ok h \<longleftrightarrow> take_bit 4 (th_data_offset_words h) = th_data_offset_words h \<and> take_bit 6 (th_flags h) = th_flags h \<and> th_checksum h = 0"

lemma tcp_offset_field:
  fixes w f :: u8
  assumes "take_bit 4 w = w" and "take_bit 6 f = f"
  shows "ucast (drop_bit 12 (push_bit 12 (ucast w) OR ucast f :: u16) AND 0xF) = w"
    "ucast ((push_bit 12 (ucast w) OR ucast f :: u16) AND 0x3F) = f"
proof -
  have w: "bit w k \<Longrightarrow> k < 4" for k by (metis assms(1) bit_take_bit_iff)
  have f: "bit f k \<Longrightarrow> k < 6" for k by (metis assms(2) bit_take_bit_iff)
  have F: "(0xF :: u16) = mask 4" "(0x3F :: u16) = mask 6" by (simp_all add: mask_eq_exp_minus_1)
  show "ucast (drop_bit 12 (push_bit 12 (ucast w) OR ucast f :: u16) AND 0xF) = w"
    unfolding F by (rule bit_word_eqI) (auto simp: bit_simps dest: w f)
  show "ucast ((push_bit 12 (ucast w) OR ucast f :: u16) AND 0x3F) = f"
    unfolding F by (rule bit_word_eqI) (auto simp: bit_simps dest: w f)
qed

interpretation tcp: wire_format tcp_ok tcp_write tcp_parse 20
proof unfold_locales
  fix h rest assume ok: "tcp_ok h"
  have z: "from_be [0, 0] = (0 :: u16)" by (simp add: from_be_def)
  have "ucast (drop_bit 12 (do_flags h) AND 0xF) = th_data_offset_words h" "ucast (do_flags h AND 0x3F) = th_flags h"
    using ok tcp_offset_field unfolding tcp_ok_def do_flags_def by blast+
  with ok show "tcp_parse (tcp_write h @ rest) = Some h"
    by (simp add: tcp_ok_def tcp_write_def tcp_parse_def Let_def z)
qed (simp_all add: tcp_write_def tcp_parse_def)

section \<open>The checksum\<close>

lemma sum_words_append: "even (length xs) \<Longrightarrow> sum_words (xs @ ys) = sum_words xs + sum_words ys"
  by (induction xs rule: sum_words.induct) (auto simp: ac_simps)

lemma sum_words_bound: "length bs \<le> 65536 \<Longrightarrow> unat (sum_words bs) \<le> 65535 * ((length bs + 1) div 2)"
proof (induction bs rule: sum_words.induct)
  case (1 a b bs)
  have w: "unat (from_be [a, b] :: u16) \<le> 65535" by (rule unat_bounds)
  from 1 have "unat (sum_words bs) \<le> 65535 * ((length bs + 1) div 2)" by simp
  moreover have "(length bs + 1) div 2 \<le> 32768" using 1(2) by simp
  ultimately have b: "unat (sum_words bs) \<le> 65535 * ((length bs + 1) div 2)" "unat (sum_words bs) \<le> 65535 * 32768" by linarith+
  have "unat (sum_words (a # b # bs)) = unat (from_be [a, b] :: u16) + unat (sum_words bs)"
    using w b(2) by (simp add: unat_word_ariths unat_ucast_up)
  also have "\<dots> \<le> 65535 + 65535 * ((length bs + 1) div 2)" using w b by linarith
  finally show ?case by simp
next
  case (2 a)
  have "unat a < 2 ^ 8" using unat_bounds(1) [of a] by simp
  then have "unat (push_bit 8 (ucast a :: u32)) = unat a * 256"
    by (simp add: push_bit_eq_mult unat_word_ariths unat_ucast_up)
  then show ?case using \<open>unat a < 2 ^ 8\<close> by simp
qed simp

lemma fold_carry_value: "unat (fold_carry s) = (if unat s = 0 then 0 else (unat s - 1) mod 65535 + 1)"
proof (induction s rule: fold_carry.induct)
  case (1 s)
  show ?case
  proof (cases "unat s < 65536")
    case True
    then have "fold_carry s = s" by (subst fold_carry.simps) (simp add: drop_bit_16_zero)
    moreover have "unat s \<noteq> 0 \<Longrightarrow> (unat s - 1) mod 65535 = unat s - 1" using True by (intro mod_less) linarith
    ultimately show ?thesis using True by auto
  next
    case False
    define q t where "q = unat s div 65536" and "t = unat s mod 65536 + q"
    have d: "drop_bit 16 s \<noteq> 0" using False by (simp add: drop_bit_16_zero)
    have "unat s = 65536 * q + unat s mod 65536" unfolding q_def by simp
    then have st: "unat s = 65535 * q + t" unfolding t_def by simp
    have "0 < q" using False by (simp add: q_def div_greater_zero_iff)
    then have t: "0 < t" by (simp add: t_def)
    have "unat ((s AND 0xFFFF) + drop_bit 16 s) = t" by (simp add: fold_carry_unat t_def q_def)
    with 1 [OF d] t have "unat (fold_carry s) = (t - 1) mod 65535 + 1" by (subst fold_carry.simps) (simp add: d)
    moreover have "(unat s - 1) mod 65535 = (t - 1) mod 65535"
    proof -
      have "unat s - 1 = t - 1 + 65535 * q" using st t by simp
      then show ?thesis by simp
    qed
    ultimately show ?thesis using False by simp
  qed
qed

lemma fold_carry_le: "unat (fold_carry s) \<le> 65535"
proof -
  have "(unat s - 1) mod 65535 < 65535" by (rule mod_less_divisor) simp
  then show ?thesis unfolding fold_carry_value by (auto simp del: mod_less_divisor One_nat_def)
qed

lemma unat_not_u16: "unat (NOT (w :: u16)) = 65535 - unat w"
proof -
  have "NOT w = - 1 - w" by (simp add: not_eq_complement)
  moreover have "unat (- 1 - w) = unat (- 1 :: u16) - unat w" by (rule unat_sub) simp
  moreover have "unat (- 1 :: u16) = 65535" by (simp add: unsigned_minus_1_eq_mask mask_eq_exp_minus_1)
  ultimately show ?thesis by simp
qed

lemma unat_checksum: "unat (NOT (ucast (fold_carry s) :: u16)) = 65535 - unat (fold_carry s)"
proof -
  have "unat (ucast (fold_carry s) :: u16) = unat (fold_carry s)"
    using fold_carry_le [of s] by (simp add: unsigned_ucast_eq take_bit_nat_eq_self)
  then show ?thesis by (simp add: unat_not_u16)
qed

text \<open>Adding the checksum of a sum to the sum gives a sum whose checksum is 0.\<close>

lemma checksum_cancels:
  assumes "unat a \<le> 65535 * 65535" and c: "c = NOT (ucast (fold_carry a) :: u16)"
  shows "NOT (ucast (fold_carry (a + ucast c)) :: u16) = 0"
proof -
  define A where "A = unat a"
  have uc: "unat c = 65535 - unat (fold_carry a)" by (simp add: c unat_checksum)
  have "unat (a + ucast c) = A + (65535 - unat (fold_carry a))"
    using assms(1) by (simp add: unat_word_ariths unat_ucast_up uc A_def)
  also have "\<dots> = 65535 * (if A = 0 then 1 else (A - 1) div 65535 + 1)"
  proof (cases "A = 0")
    case False
    define d m where "d = (A - 1) div 65535" and "m = (A - 1) mod 65535"
    have "A - 1 = 65535 * d + m" and m: "m < 65535" unfolding d_def m_def by (simp_all only: mult_div_mod_eq mod_less_divisor)
    then have "A = 65535 * d + m + 1" using False by linarith
    then have "A + (65535 - (m + 1)) = 65535 * d + ((m + 1) + (65535 - (m + 1)))" by (simp only: add.assoc)
    also have "(m + 1) + (65535 - (m + 1)) = 65535" by (rule le_add_diff_inverse) (use m in linarith)
    finally have e: "A + (65535 - (m + 1)) = 65535 * (d + 1)" by (simp only: distrib_left mult_1_right)
    have "unat (fold_carry a) = m + 1" "(if A = 0 then 1 else (A - 1) div 65535 + 1) = d + 1"
      using False by (simp_all add: fold_carry_value A_def m_def d_def)
    then show ?thesis by (simp only: e)
  qed (simp add: fold_carry_value A_def)
  also have "\<dots> = 65535 * ((if A = 0 then 0 else (A - 1) div 65535) + 1)" by simp
  finally obtain k where k: "unat (a + ucast c) = 65535 * (k + 1)" by blast
  have "(65535 * (k + 1) - 1) mod 65535 = (65534 :: nat)"
  proof -
    have "65535 * (k + 1) - 1 = 65534 + 65535 * k" by simp
    also have "\<dots> mod 65535 = 65534" by (subst mod_mult_self2) simp
    finally show ?thesis .
  qed
  then have "unat (fold_carry (a + ucast c)) = 65535" by (simp add: fold_carry_value k)
  then have "unat (NOT (ucast (fold_carry (a + ucast c)) :: u16)) = 0" by (simp only: unat_checksum diff_self_eq_0)
  then show ?thesis by (simp only: unat_eq_0)
qed

lemma sum_words_be: "sum_words (to_be 2 c) = ucast c" for c :: u16
  by simp

lemma checksum_inserted:
  assumes "even (length xs)" and "length xs + length ys \<le> 65534" and c: "c = compute_checksum (xs @ [0, 0] @ ys)"
  shows "compute_checksum (xs @ to_be 2 c @ ys) = 0"
proof -
  have z: "from_be [0, 0] = (0 :: u16)" by (simp add: from_be_def)
  define a where "a = sum_words xs + sum_words ys"
  have "sum_words (xs @ [0, 0] @ ys) = a" using assms(1) by (simp add: sum_words_append a_def z)
  then have c': "c = NOT (ucast (fold_carry a))" using c by (simp add: compute_checksum_def)
  have s: "sum_words (xs @ to_be 2 c @ ys) = a + ucast c" using assms(1) by (simp add: sum_words_append a_def)
  have "a = sum_words (xs @ ys)" using assms(1) by (simp add: sum_words_append a_def)
  then have "unat a \<le> 65535 * ((length (xs @ ys) + 1) div 2)" using sum_words_bound [of "xs @ ys"] assms(2) by simp
  moreover have "(length (xs @ ys) + 1) div 2 \<le> 65535" using assms(2) by simp
  ultimately have "unat a \<le> 65535 * 65535" by (meson le_trans mult_le_mono2)
  from checksum_cancels [OF this c'] show ?thesis by (simp only: compute_checksum_def s)
qed


section \<open>Packets as a receiver sees them\<close>

lemma ip_new_fields [simp]:
  "protocol (ip_sealed (ip_header_new s d p n)) = p" "ip_src (ip_sealed (ip_header_new s d p n)) = s"
  "ip_dst (ip_sealed (ip_header_new s d p n)) = d" "total_length (ip_sealed (ip_header_new s d p n)) = 20 + n"
  by (simp_all add: ip_sealed_def ip_header_new_def)

lemma unat_total: "n \<le> 65515 \<Longrightarrow> unat (20 + word_of_nat n :: u16) = 20 + n"
proof -
  assume "n \<le> 65515"
  moreover have "20 + word_of_nat n = (word_of_nat (20 + n) :: u16)" by simp
  ultimately show ?thesis by (simp only: unat_of_nat) simp
qed

lemma unat_udp_len: "n \<le> 65507 \<Longrightarrow> unat (8 + word_of_nat n :: u16) = 8 + n"
proof -
  assume "n \<le> 65507"
  moreover have "8 + word_of_nat n = (word_of_nat (8 + n) :: u16)" by simp
  ultimately show ?thesis by (simp only: unat_of_nat) simp
qed

text \<open>The transport segment of a packet: what follows the IPv4 header, up to the total length.\<close>

definition segment_of :: "u8 list \<Rightarrow> ipv4_header \<Rightarrow> u8 list" where
  "segment_of packet h = take (unat (total_length h) - 20) (drop 20 packet)"

lemma datagram_received:
  assumes "length payload \<le> 65507"
  shows "\<exists>h u. ip_header_parse (build_datagram src dst payload) = Some h \<and> unat (total_length h) = 28 + length payload
     \<and> length (build_datagram src dst payload) = 28 + length payload
     \<and> protocol h = PROTO_UDP \<and> ip_src h = sa_ip src \<and> ip_dst h = sa_ip dst
     \<and> udp_parse (segment_of (build_datagram src dst payload) h) = Some u
     \<and> udp_src_port u = sa_port src \<and> udp_dst_port u = sa_port dst \<and> unat (udp_length u) = 8 + length payload
     \<and> drop 8 (segment_of (build_datagram src dst payload) h) = payload"
proof -
  let ?n = "length payload"
  define hd where "hd = ip_header_new (sa_ip src) (sa_ip dst) PROTO_UDP (word_of_nat (8 + ?n))"
  obtain ck where ck: "build_datagram src dst payload =
      ip_write hd @ udp_write \<lparr>udp_src_port = sa_port src, udp_dst_port = sa_port dst, udp_length = 8 + word_of_nat ?n, udp_checksum = ck\<rparr> @ payload"
    by (auto simp: build_datagram_def Let_def hd_def udp_write_def udp_header_new_def)
  have tl: "unat (total_length (ip_sealed hd)) = 28 + ?n"
    using assms unat_total [of "8 + ?n"] by (simp add: hd_def ip_sealed_def ip_header_new_def)
  have seg: "segment_of (build_datagram src dst payload) (ip_sealed hd) =
      udp_write \<lparr>udp_src_port = sa_port src, udp_dst_port = sa_port dst, udp_length = 8 + word_of_nat ?n, udp_checksum = ck\<rparr> @ payload"
    using udp.build_length by (simp add: segment_of_def tl ck)
  show ?thesis
    using assms udp.build_length
    by (intro exI [of _ "ip_sealed hd"]
          exI [of _ "\<lparr>udp_src_port = sa_port src, udp_dst_port = sa_port dst, udp_length = 8 + word_of_nat ?n, udp_checksum = ck\<rparr>"] conjI)
       (simp_all only: tl seg udp.parse_build udp.payload_of, simp_all add: ck hd_def ip_parse_write unat_udp_len)
qed

lemma tcp_received:
  assumes "length payload \<le> 65495" and fl: "take_bit 6 fl = fl"
  shows "\<exists>h th. ip_header_parse (tcp_packet local remote seq ack fl payload) = Some h \<and> unat (total_length h) = 40 + length payload
     \<and> length (tcp_packet local remote seq ack fl payload) = 40 + length payload
     \<and> protocol h = PROTO_TCP \<and> ip_src h = sa_ip local \<and> ip_dst h = sa_ip remote
     \<and> tcp_parse (segment_of (tcp_packet local remote seq ack fl payload) h) = Some th
     \<and> th_src_port th = sa_port local \<and> th_dst_port th = sa_port remote \<and> th_seq th = seq \<and> th_ack th = ack \<and> th_flags th = fl
     \<and> th_data_offset_words th = 5 \<and> drop 20 (segment_of (tcp_packet local remote seq ack fl payload) h) = payload"
proof -
  let ?n = "length payload"
  define hd where "hd = ip_header_new (sa_ip local) (sa_ip remote) PROTO_TCP (word_of_nat (20 + ?n))"
  define th where "th = \<lparr>th_src_port = sa_port local, th_dst_port = sa_port remote, th_seq = seq, th_ack = ack,
    th_data_offset_words = 5, th_flags = fl, th_window = 0xFFFF, th_checksum = 0, th_urgent = 0\<rparr>"
  obtain ck where ck: "tcp_packet local remote seq ack fl payload = ip_write hd @ take 16 (tcp_write th) @ to_be 2 (ck :: u16) @ drop 18 (tcp_write th) @ payload"
    by (auto simp: tcp_packet_def Let_def hd_def th_def tcp_write_def)
  have ok: "tcp_ok th" using fl by (simp add: tcp_ok_def th_def)
  have len: "length (tcp_write th) = 20" using tcp.build_length [OF ok] .
  have tl: "unat (total_length (ip_sealed hd)) = 40 + ?n"
    using assms(1) unat_total [of "20 + ?n"] by (simp add: hd_def ip_sealed_def ip_header_new_def)
  let ?seg = "take 16 (tcp_write th) @ to_be 2 ck @ drop 18 (tcp_write th) @ payload"
  have seg: "segment_of (tcp_packet local remote seq ack fl payload) (ip_sealed hd) = ?seg"
    by (simp add: segment_of_def tl ck len)
  have "tcp_parse ?seg = Some (th\<lparr>th_checksum := ck\<rparr>)"
    using tcp.parse_build [OF ok, of payload] by (cases th) (simp add: tcp_write_def tcp_parse_def Let_def)
  moreover have "drop 20 ?seg = payload" "length (tcp_packet local remote seq ack fl payload) = 40 + ?n" by (simp_all add: len ck)
  moreover have "ip_header_parse (tcp_packet local remote seq ack fl payload) = Some (ip_sealed hd)" by (simp add: ck ip_parse_write)
  ultimately show ?thesis
    by (intro exI [of _ "ip_sealed hd"] exI [of _ "th\<lparr>th_checksum := ck\<rparr>"] conjI) (simp_all only: tl seg, simp_all add: hd_def th_def)
qed


section \<open>Properties\<close>

lemma ip_checksum_zero: "compute_checksum (ip_write h) = 0"
  unfolding ip_write_def Let_def by (rule checksum_inserted) (simp_all add: ip_front_def)

lemma verify_written: "verify_ip_checksum (ip_write h @ payload)"
  by (simp add: verify_ip_checksum_def ip_checksum_zero)

text \<open>Transport checksums avoid the value 0, which stands for an absent checksum; the sum still verifies.\<close>

lemma checksum_nonzero_cancels:
  assumes "unat a \<le> 65535 * 65534" and c: "c = NOT (ucast (fold_carry a) :: u16)" and c': "c' = (if c = 0 then 0xFFFF else c)"
  shows "c' \<noteq> 0 \<and> unat (fold_carry (a + ucast c')) = 65535"
proof (cases "c = 0")
  case False
  have "unat a \<le> 65535 * 65535" using assms(1) by simp
  from checksum_cancels [OF this c] have "unat (NOT (ucast (fold_carry (a + ucast c)) :: u16)) = 0" by simp
  then have "65535 \<le> unat (fold_carry (a + ucast c))" unfolding unat_checksum by simp
  with fold_carry_le [of "a + ucast c"] False show ?thesis by (simp add: c')
next
  case True
  then have "65535 - unat (fold_carry a) = 0" using unat_checksum [of a] c by simp
  then have f: "unat (fold_carry a) = 65535" using fold_carry_le [of a] by simp
  define A where "A = unat a"
  have A: "A \<noteq> 0" "(A - 1) mod 65535 = 65534" using f fold_carry_value [of a] by (auto simp: A_def split: if_splits)
  have "unat (a + 0xFFFF) = A + 65535" using assms(1) by (simp add: unat_word_ariths A_def)
  moreover have "(A + 65535 - 1) mod 65535 = 65534"
  proof -
    have "A + 65535 - 1 = (A - 1) + 65535" using A(1) by simp
    then show ?thesis using A(2) by (simp only: mod_add_self2)
  qed
  ultimately have "unat (fold_carry (a + 0xFFFF)) = 65535" using fold_carry_value [of "a + 0xFFFF"] by simp
  moreover have "ucast (0xFFFF :: u16) = (0xFFFF :: u32)" by simp
  ultimately show ?thesis using True by (simp add: c')
qed

lemma sum_inserted:
  assumes "even (length xs)"
  shows "sum_words (xs @ to_be 2 c @ ys) = sum_words (xs @ [0, 0] @ ys) + ucast (c :: u16)"
proof -
  have "from_be [0, 0] = (0 :: u16)" by (simp add: from_be_def)
  with assms show ?thesis by (simp add: sum_words_append)
qed

lemma unat_add_le: "unat a + unat b \<le> n \<Longrightarrow> unat (a + b :: u32) \<le> n"
  by (simp add: unat_word_ariths)

lemma pseudo_bound: "unat (sum_words (octets s) + sum_words (octets d) + ucast (p :: u8) + (l :: u32)) \<le> 65535 * 4 + 255 + unat l"
proof -
  have s: "unat (sum_words (octets a)) \<le> 65535 * 2" for a using sum_words_bound [of "octets a"] by simp
  have p: "unat (ucast p :: u32) \<le> 255" using unat_bounds(1) [of p] by (simp add: unat_ucast_up)
  have "unat (sum_words (octets s) + sum_words (octets d)) \<le> 65535 * 2 + 65535 * 2" by (rule unat_add_le, rule add_mono; rule s)
  then have "unat (sum_words (octets s) + sum_words (octets d) + ucast p) \<le> 65535 * 2 + 65535 * 2 + 255"
    by (rule unat_add_le [OF add_mono [OF _ p]])
  then have "unat (sum_words (octets s) + sum_words (octets d) + ucast p + l) \<le> 65535 * 2 + 65535 * 2 + 255 + unat l"
    by (rule unat_add_le [OF add_mono [OF _ order_refl]])
  then show ?thesis by simp
qed

lemma ucast_small: "m < 65536 \<Longrightarrow> (ucast (word_of_nat m :: u16) :: u32) = word_of_nat m"
  by (intro word_unat_eq_iff [THEN iffD2]) (simp add: unat_ucast_up unat_of_nat)

text \<open>What a receiver adds up to verify a transport checksum: the pseudo header and the segment.\<close>

definition transport_sum :: "ipv4_addr \<Rightarrow> ipv4_addr \<Rightarrow> u8 \<Rightarrow> u8 list \<Rightarrow> u32" where
  "transport_sum src dst proto segment =
     fold_carry (sum_words (octets src) + sum_words (octets dst) + ucast proto + word_of_nat (length segment) + sum_words segment)"

lemma transport_sum_ok:
  assumes "even (length xs)" and "length xs + length ys \<le> 65533"
    and c: "c = NOT (ucast (fold_carry (sum_words (octets s) + sum_words (octets d) + ucast p + word_of_nat (length xs + 2 + length ys)
      + sum_words (xs @ [0, 0] @ ys))) :: u16)"
    and c': "c' = (if c = 0 then 0xFFFF else c)"
  shows "unat (transport_sum s d p (xs @ to_be 2 c' @ ys)) = 65535"
proof -
  define n where "n = length xs + 2 + length ys"
  have n: "n \<le> 65535" "length (xs @ [0, 0] @ ys) = n" "length (xs @ to_be 2 c' @ ys) = n" using assms(2) by (simp_all add: n_def)
  let ?p = "sum_words (octets s) + sum_words (octets d) + ucast p + (word_of_nat n :: u32)" and ?z = "sum_words (xs @ [0, 0] @ ys)"
  have "unat (word_of_nat n :: u32) \<le> 65535" using n(1) by (simp add: unat_of_nat)
  with pseudo_bound [of s d p "word_of_nat n"] have "unat ?p \<le> 65535 * 6" by linarith
  moreover have "unat ?z \<le> 65535 * ((n + 1) div 2)" using sum_words_bound [of "xs @ [0, 0] @ ys"] n(1) unfolding n(2) by linarith
  moreover have "(n + 1) div 2 \<le> 32768" using n(1) by simp
  ultimately have "unat ?p + unat ?z \<le> 65535 * 65534" by linarith
  then have "unat (?p + ?z) \<le> 65535 * 65534" by (rule unat_add_le)
  from conjunct2 [OF checksum_nonzero_cancels [OF this c [folded n_def] c']]
  show ?thesis unfolding transport_sum_def n(3) sum_inserted [OF assms(1)] by (simp only: add.assoc)
qed





text \<open>Addresses survive printing and the conversion to a number.\<close>

lemma dec_no_dot: "CHR ''.'' \<notin> set (dec_digits n)"
proof
  assume "CHR ''.'' \<in> set (dec_digits n)"
  then obtain d where d: "d < 10" "CHR ''.'' = char_of (48 + d :: nat)" using dec_digits_chars by blast
  have "(of_char (CHR ''.'') :: nat) = 48 + d" unfolding d(2) by (rule char_nums [OF d(1)])
  then show False by simp
qed

lemma parse_u8_dec: "parse_u8 (dec_digits (unat b)) = Some b"
  using parse_dec_digits [of "unat b" 8] unat_bounds(1) [of b] by (simp add: parse_u8_def)

lemma ip_parse_fmt: "ip_parse (ip_fmt a) = Some a"
proof (cases a)
  case (Ipv4Addr b1 b2 b3 b4)
  let ?ps = "map (\<lambda>b. dec_digits (unat b)) [b1, b2, b3, b4]"
  have "split_char (CHR ''.'') (join_char (CHR ''.'') ?ps) = ?ps"
    by (rule split_join) (use dec_no_dot in auto)
  then show ?thesis by (simp add: ip_parse_def ip_fmt_def Ipv4Addr parse_u8_dec)
qed

lemma ip_u32: "ip_from_u32 (ip_to_u32 a) = a"
proof (cases a)
  case (Ipv4Addr b1 b2 b3 b4)
  have "ucast (drop_bit 24 (ip_to_u32 a)) = b1" "ucast (drop_bit 16 (ip_to_u32 a)) = b2"
    "ucast (drop_bit 8 (ip_to_u32 a)) = b3" "ucast (ip_to_u32 a) = b4"
    by (rule bit_word_eqI; auto simp: Ipv4Addr bit_simps dest: bit_imp_le_length)+
  then show ?thesis by (simp add: ip_from_u32_def Ipv4Addr)
qed

lemma ip_to_u32_inj: "ip_to_u32 a = ip_to_u32 b \<longleftrightarrow> a = b"
  by (metis ip_u32)

text \<open>The address table: what a lookup finds after an insertion, and the answer to a request for our address.\<close>

lemma cache_lookup_insert: "cache_lookup ip (cache_insert ip' mac t) = (if ip = ip' then Some mac else cache_lookup ip t)"
  by (simp add: cache_lookup_def cache_insert_def ip_to_u32_inj)

lemma arp_exchange:
  assumes "length mac_a = 6" and "length mac_b = 6"
  shows "\<exists>reply t1. arp_input (drop 14 (build_request_frame mac_a ip_a ip_b)) mac_b ip_b t = (Some reply, t1) \<and> cache_lookup ip_a t1 = Some mac_a
    \<and> fst (arp_input (drop 14 reply) mac_a ip_a u) = None \<and> cache_lookup ip_b (snd (arp_input (drop 14 reply) mac_a ip_a u)) = Some mac_b"
proof -
  have d: "drop 14 (build_frame dst src et p) = p" if "length dst = 6" "length src = 6" for dst src et p
    using eth.payload_of [of "\<lparr>eth_dst = dst, eth_src = src, ethertype = et\<rparr>" p] that by (simp add: build_frame_def macs_ok_def)
  have parse: "arp_parse (arp_build p) = Some p" if "arp_ok p" for p using arp.parse_build [OF that, of "[]"] by simp
  show ?thesis using assms
    by (simp add: build_request_frame_def build_reply_frame_def d BROADCAST_MAC_def arp_input_def parse arp_ok_def Let_def cache_lookup_insert)
qed

end
