(* ===== verification/Slots.thy ===== *)
theory Slots
  imports Prelude
begin

text \<open>
  Handle tables: \<open>Vec<Option<T>>\<close> with handles as indices, as the TCP, UDP and Unix-domain sockets use them. A new object takes the first free
  slot or a new one at the end; closing a handle frees its slot.
\<close>

type_synonym 'a slots = "'a option list"

definition slot_get :: "nat \<Rightarrow> 'a slots \<Rightarrow> 'a option" where
  "slot_get h t = (if h < length t then t ! h else None)"

definition slot_put :: "nat \<Rightarrow> 'a \<Rightarrow> 'a slots \<Rightarrow> 'a slots" where
  "slot_put h x t = t[h := Some x]"

fun first_free :: "'a slots \<Rightarrow> nat option" where
  "first_free [] = None"
| "first_free (s # t) = (if s = None then Some 0 else map_option Suc (first_free t))"

definition slot_alloc :: "'a \<Rightarrow> 'a slots \<Rightarrow> nat \<times> 'a slots" where
  "slot_alloc x t = (case first_free t of Some i \<Rightarrow> (i, t[i := Some x]) | None \<Rightarrow> (length t, t @ [Some x]))"

definition slot_close :: "nat \<Rightarrow> 'a slots \<Rightarrow> 'a slots" where
  "slot_close h t = (if h < length t then t[h := None] else t)"

text \<open>The first live slot whose object satisfies a predicate.\<close>

fun slot_find :: "('a \<Rightarrow> bool) \<Rightarrow> 'a slots \<Rightarrow> nat option" where
  "slot_find P [] = None"
| "slot_find P (s # t) = (case s of Some x \<Rightarrow> if P x then Some 0 else map_option Suc (slot_find P t) | None \<Rightarrow> map_option Suc (slot_find P t))"

definition slot_any :: "('a \<Rightarrow> bool) \<Rightarrow> 'a slots \<Rightarrow> bool" where
  "slot_any P t \<longleftrightarrow> (\<exists>s \<in> set t. case s of Some x \<Rightarrow> P x | None \<Rightarrow> False)"

lemma first_free_Some: "first_free t = Some i \<Longrightarrow> i < length t \<and> t ! i = None \<and> (\<forall>j < i. t ! j \<noteq> None)"
proof (induction t arbitrary: i)
  case (Cons s t)
  show ?case
  proof (cases "s = None")
    case False
    with Cons.prems obtain k where k: "first_free t = Some k" "i = Suc k" by auto
    from Cons.IH [OF k(1)] False k(2) show ?thesis by (auto simp: nth_Cons split: nat.splits)
  qed (use Cons.prems in auto)
qed simp

lemma slot_get_alloc:
  "slot_alloc x t = (h, t') \<Longrightarrow> slot_get h t = None \<and> slot_get h t' = Some x \<and> (\<forall>j. j \<noteq> h \<longrightarrow> slot_get j t' = slot_get j t)"
  by (auto simp: slot_alloc_def slot_get_def nth_append dest!: first_free_Some split: option.splits)

lemma slot_get_put: "slot_get h t \<noteq> None \<Longrightarrow> slot_get j (slot_put h x t) = (if j = h then Some x else slot_get j t)"
  by (auto simp: slot_get_def slot_put_def split: if_splits)

lemma slot_get_close: "slot_get j (slot_close h t) = (if j = h then None else slot_get j t)"
  by (auto simp: slot_get_def slot_close_def)

lemma slot_get_Cons: "slot_get j (s # t) = (case j of 0 \<Rightarrow> s | Suc k \<Rightarrow> slot_get k t)"
  by (simp add: slot_get_def split: nat.splits)

lemma slot_find_Some: "slot_find P t = Some i \<Longrightarrow> \<exists>x. slot_get i t = Some x \<and> P x \<and> (\<forall>j < i. \<forall>y. slot_get j t = Some y \<longrightarrow> \<not> P y)"
proof (induction t arbitrary: i)
  case (Cons s t)
  show ?case
  proof (cases "\<exists>x. s = Some x \<and> P x")
    case False
    with Cons.prems obtain k where k: "slot_find P t = Some k" "i = Suc k" by (auto split: option.splits)
    from Cons.IH [OF k(1)] obtain x where "slot_get k t = Some x" "P x" "\<forall>j < k. \<forall>y. slot_get j t = Some y \<longrightarrow> \<not> P y" by blast
    with False k(2) show ?thesis by (auto simp: slot_get_Cons split: nat.splits)
  qed (use Cons.prems in \<open>auto simp: slot_get_Cons\<close>)
qed simp

lemma slot_find_None: "slot_find P t = None \<longleftrightarrow> (\<forall>j x. slot_get j t = Some x \<longrightarrow> \<not> P x)"
proof (induction t)
  case (Cons s t)
  have all: "(\<forall>j x. slot_get j (s # t) = Some x \<longrightarrow> \<not> P x) \<longleftrightarrow> (\<forall>x. s = Some x \<longrightarrow> \<not> P x) \<and> (\<forall>j x. slot_get j t = Some x \<longrightarrow> \<not> P x)"
    unfolding slot_get_Cons by (auto split: nat.splits) (metis nat.simps(4), metis nat.simps(5))?
  show ?case unfolding all using Cons by (auto split: option.splits)
qed (simp add: slot_get_def)

lemma slot_any_iff: "slot_any P t \<longleftrightarrow> (\<exists>j x. slot_get j t = Some x \<and> P x)"
proof
  assume "slot_any P t"
  then obtain x where "Some x \<in> set t" "P x" by (auto simp: slot_any_def split: option.splits)
  then show "\<exists>j x. slot_get j t = Some x \<and> P x" by (metis in_set_conv_nth slot_get_def)
next
  assume "\<exists>j x. slot_get j t = Some x \<and> P x"
  then obtain j x where "slot_get j t = Some x" "P x" by blast
  then have "Some x \<in> set t" by (auto simp: slot_get_def split: if_splits) (metis nth_mem)
  with \<open>P x\<close> show "slot_any P t" by (force simp: slot_any_def)
qed

lemma slot_find_eqI:
  assumes "slot_get i t = Some x" and "P x" and "\<And>j y. slot_get j t = Some y \<Longrightarrow> P y \<Longrightarrow> i \<le> j"
  shows "slot_find P t = Some i"
proof (cases "slot_find P t")
  case None
  then show ?thesis using assms(1,2) by (simp add: slot_find_None)
next
  case (Some k)
  then obtain y where y: "slot_get k t = Some y" "P y" "\<forall>j < k. \<forall>y. slot_get j t = Some y \<longrightarrow> \<not> P y" using slot_find_Some by blast
  have "i \<le> k" using assms(3) y(1,2) .
  moreover have "\<not> i < k" using y(3) assms(1,2) by blast
  ultimately show ?thesis using Some by simp
qed

lemma slot_find_alloc:
  assumes "slot_alloc x t = (h, t')"
  shows "slot_find P t = None \<Longrightarrow> slot_find P t' = (if P x then Some h else None)"
    and "slot_find P t = Some i \<Longrightarrow> \<not> P x \<Longrightarrow> slot_find P t' = Some i"
proof -
  note A = slot_get_alloc [OF assms]
  have get: "slot_get j t' = (if j = h then Some x else slot_get j t)" for j using A by simp
  assume none: "slot_find P t = None"
  show "slot_find P t' = (if P x then Some h else None)"
  proof (cases "P x")
    case True
    have "slot_find P t' = Some h" using none True by (intro slot_find_eqI [of h t' x]) (auto simp: get slot_find_None split: if_splits)
    with True show ?thesis by simp
  qed (use none in \<open>auto simp: slot_find_None get\<close>)
next
  note A = slot_get_alloc [OF assms]
  have get: "slot_get j t' = (if j = h then Some x else slot_get j t)" for j using A by simp
  assume some: "slot_find P t = Some i" and np: "\<not> P x"
  from slot_find_Some [OF some] obtain y where y: "slot_get i t = Some y" "P y" "\<forall>j < i. \<forall>y. slot_get j t = Some y \<longrightarrow> \<not> P y" by blast
  have "i \<noteq> h" using y(1) A by auto
  then show "slot_find P t' = Some i" using y np
    by (intro slot_find_eqI [of i t' y]) (auto simp: get split: if_splits dest: leI)
qed

lemma slot_find_put: "slot_get h t = Some y \<Longrightarrow> P x = P y \<Longrightarrow> slot_find P (slot_put h x t) = slot_find P t"
proof (induction t arbitrary: h)
  case (Cons s t)
  then show ?case by (cases h) (auto simp: slot_put_def slot_get_Cons split: option.splits)
qed (simp add: slot_put_def)

end
