(* ===== verification/Tcp.thy ===== *)
theory Tcp
  imports Wire Slots
begin

text \<open>
  TCP endpoints (\<^verbatim>\<open>src/net/tcp.rs\<close>): the connection state, acknowledgement processing with congestion control, the state machine for an incoming
  segment, and the endpoint table. The operations that emit segments are in the theory of the network stack.
\<close>

section \<open>Endpoints\<close>

datatype tcp_state = Closed | Listen | SynSent | SynRcvd | Established | FinWait1 | FinWait2 | CloseWait | LastAck | Closing | TimeWait

record retx_segment =
  rx_seq :: u32
  rx_flags :: u8
  rx_data :: "u8 list"
  rx_send_tick :: u64
  rx_retries :: u8

definition MSS :: u32 where "MSS = 1460"

record tcp_endpoint =
  ep_state :: tcp_state
  ep_local :: socket_addr
  ep_remote :: socket_addr
  snd_nxt :: u32
  snd_una :: u32
  rcv_nxt :: u32
  rcv_buf :: "u8 list"
  cwnd :: u32
  ssthresh :: u32
  srtt :: u32
  rttvar :: u32
  rto :: u32
  retx :: "retx_segment list"
  rto_backoff :: u8
  accept_queue :: "nat list"
  ep_backlog :: u32

definition endpoint_in :: "tcp_state \<Rightarrow> socket_addr \<Rightarrow> socket_addr \<Rightarrow> u32 \<Rightarrow> u32 \<Rightarrow> u32 \<Rightarrow> u32 \<Rightarrow> tcp_endpoint" where
  "endpoint_in st local remote nxt una rcv bl =
     \<lparr>ep_state = st, ep_local = local, ep_remote = remote, snd_nxt = nxt, snd_una = una, rcv_nxt = rcv, rcv_buf = [],
      cwnd = MSS, ssthresh = - 1, srtt = 0, rttvar = 0, rto = 2, retx = [], rto_backoff = 0, accept_queue = [], ep_backlog = bl\<rparr>"

definition new_listener :: "socket_addr \<Rightarrow> u32 \<Rightarrow> tcp_endpoint" where
  "new_listener local bl = endpoint_in Listen local \<lparr>sa_ip = ANY, sa_port = 0\<rparr> 0 0 0 bl"

definition new_child_for_syn :: "u64 \<Rightarrow> socket_addr \<Rightarrow> socket_addr \<Rightarrow> u32 \<Rightarrow> tcp_endpoint" where
  "new_child_for_syn ticks local remote peer_seq =
     (let iss = ucast ticks XOR 0x12345678 in endpoint_in SynRcvd local remote iss iss (peer_seq + 1) 0)"

definition new_active :: "u64 \<Rightarrow> socket_addr \<Rightarrow> socket_addr \<Rightarrow> tcp_endpoint" where
  "new_active ticks local remote =
     (let iss = ucast ticks XOR 0xCAFEBABE in endpoint_in SynSent local remote (iss + 1) iss 0 0)"

section \<open>Acknowledgements and congestion control\<close>

definition seq_le :: "u32 \<Rightarrow> u32 \<Rightarrow> bool" where
  "seq_le a b \<longleftrightarrow> b - a < 0x80000000"

definition saturating_sub :: "'n::len word \<Rightarrow> 'n word \<Rightarrow> 'n word" where
  "saturating_sub a b = (if b \<le> a then a - b else 0)"

definition saturating_mul :: "'n::len word \<Rightarrow> 'n word \<Rightarrow> 'n word" where
  "saturating_mul a b = (if unat a * unat b < 2 ^ LENGTH('n) then a * b else - 1)"

text \<open>The loop that drops acknowledged segments from the front of the queue.\<close>

fun ack_loop :: "u32 \<Rightarrow> retx_segment list \<Rightarrow> u32 \<Rightarrow> u64 option \<Rightarrow> retx_segment list \<times> u32 \<times> u64 option" where
  "ack_loop ack [] acked tick = ([], acked, tick)"
| "ack_loop ack (seg # segs) acked tick =
     (if seq_le (rx_seq seg + word_of_nat (length (rx_data seg))) ack
      then ack_loop ack segs (saturating_add acked (word_of_nat (length (rx_data seg))))
             (if rx_retries seg = 0 then Some (rx_send_tick seg) else tick)
      else (seg # segs, acked, tick))"

definition rtt_update :: "u64 \<Rightarrow> u64 option \<Rightarrow> tcp_endpoint \<Rightarrow> tcp_endpoint" where
  "rtt_update now tick ep =
     (case tick of
        None \<Rightarrow> ep
      | Some st \<Rightarrow>
          let rtt = ucast (saturating_sub now st);
              (s, v) = (if srtt ep = 0 then (rtt, rtt div 2)
                        else
                          let abs_diff = (if rtt < srtt ep then srtt ep - rtt else rtt - srtt ep) in
                          (srtt ep - srtt ep div 8 + rtt div 8, rttvar ep - rttvar ep div 4 + abs_diff div 4))
          in ep\<lparr>srtt := s, rttvar := v, rto := max (s + 4 * v) 2\<rparr>)"

definition grow_cwnd :: "u32 \<Rightarrow> tcp_endpoint \<Rightarrow> tcp_endpoint" where
  "grow_cwnd acked ep =
     (if cwnd ep < ssthresh ep then ep\<lparr>cwnd := saturating_add (cwnd ep) (min acked MSS)\<rparr>
      else ep\<lparr>cwnd := saturating_add (cwnd ep) (max (saturating_mul MSS MSS div max (cwnd ep) 1) 1)\<rparr>)"

definition process_ack :: "u64 \<Rightarrow> u32 \<Rightarrow> tcp_endpoint \<Rightarrow> tcp_endpoint" where
  "process_ack now ack ep =
     (case ack_loop ack (retx ep) 0 None of (rest, acked, tick) \<Rightarrow>
      let ep1 = ep\<lparr>retx := rest\<rparr> in
      if 0 < acked then grow_cwnd acked (rtt_update now tick (ep1\<lparr>snd_una := ack, rto_backoff := 0\<rparr>)) else ep1)"

definition on_rto :: "tcp_endpoint \<Rightarrow> tcp_endpoint" where
  "on_rto ep = ep\<lparr>ssthresh := max (cwnd ep div 2) (2 * MSS), cwnd := MSS, rto := min (saturating_mul (rto ep) 2) 60,
     rto_backoff := saturating_add (rto_backoff ep) 1\<rparr>"

section \<open>An incoming segment\<close>

type_synonym reply = "u32 \<times> u32 \<times> u8"

abbreviation flag :: "tcp_header \<Rightarrow> u8 \<Rightarrow> bool" where "flag th f \<equiv> th_flags th AND f \<noteq> 0"

text \<open>Data in order is appended and acknowledged.\<close>

definition take_data :: "tcp_header \<Rightarrow> u8 list \<Rightarrow> tcp_endpoint \<times> reply option \<Rightarrow> tcp_endpoint \<times> reply option" where
  "take_data th payload = (\<lambda>(ep, ans).
     if payload \<noteq> [] \<and> th_seq th = rcv_nxt ep
     then let ep1 = ep\<lparr>rcv_buf := rcv_buf ep @ payload, rcv_nxt := rcv_nxt ep + word_of_nat (length payload)\<rparr>
          in (ep1, Some (snd_nxt ep1, rcv_nxt ep1, TCP_ACK))
     else (ep, ans))"

definition process_segment :: "u64 \<Rightarrow> tcp_header \<Rightarrow> u8 list \<Rightarrow> tcp_endpoint \<Rightarrow> tcp_endpoint \<times> reply option" where
  "process_segment now th payload ep =
     (case ep_state ep of
        SynSent \<Rightarrow>
          if th_flags th AND (TCP_SYN OR TCP_ACK) = TCP_SYN OR TCP_ACK
          then let ep1 = ep\<lparr>snd_una := th_ack th, rcv_nxt := th_seq th + 1, ep_state := Established\<rparr>
               in (ep1, Some (snd_nxt ep1, rcv_nxt ep1, TCP_ACK))
          else if flag th TCP_RST then (ep\<lparr>ep_state := Closed\<rparr>, None) else (ep, None)
      | SynRcvd \<Rightarrow>
          if flag th TCP_ACK \<and> th_ack th = snd_nxt ep + 1
          then (ep\<lparr>snd_una := th_ack th, snd_nxt := th_ack th, ep_state := Established\<rparr>, None) else (ep, None)
      | Established \<Rightarrow>
          let (ep1, a1) = take_data th payload (ep, None);
              ep2 = (if flag th TCP_ACK then process_ack now (th_ack th) ep1 else ep1)
          in if flag th TCP_FIN
             then let ep3 = ep2\<lparr>rcv_nxt := rcv_nxt ep2 + 1, ep_state := CloseWait\<rparr> in (ep3, Some (snd_nxt ep3, rcv_nxt ep3, TCP_ACK))
             else (ep2, a1)
      | FinWait1 \<Rightarrow>
          if flag th TCP_FIN \<and> flag th TCP_ACK
          then let ep1 = ep\<lparr>rcv_nxt := th_seq th + 1\<rparr> in (ep1\<lparr>ep_state := Closed\<rparr>, Some (snd_nxt ep1, rcv_nxt ep1, TCP_ACK))
          else if flag th TCP_ACK then (ep\<lparr>ep_state := FinWait2\<rparr>, None)
          else if flag th TCP_FIN
          then let ep1 = ep\<lparr>rcv_nxt := th_seq th + 1\<rparr> in (ep1\<lparr>ep_state := Closing\<rparr>, Some (snd_nxt ep1, rcv_nxt ep1, TCP_ACK))
          else (ep, None)
      | FinWait2 \<Rightarrow>
          if flag th TCP_FIN
          then let ep1 = ep\<lparr>rcv_nxt := th_seq th + 1\<rparr> in (ep1\<lparr>ep_state := Closed\<rparr>, Some (snd_nxt ep1, rcv_nxt ep1, TCP_ACK))
          else (ep, None)
      | CloseWait \<Rightarrow> take_data th payload (ep, None)
      | LastAck \<Rightarrow> if flag th TCP_ACK then (ep\<lparr>ep_state := Closed\<rparr>, None) else (ep, None)
      | _ \<Rightarrow> (ep, None))"

section \<open>The table\<close>

record tcp_table =
  endpoints :: "tcp_endpoint slots"
  next_ephemeral_port :: u16

definition tcp_table_new :: tcp_table where
  "tcp_table_new = \<lparr>endpoints = [], next_ephemeral_port = 49152\<rparr>"

definition tcp_allocate :: "tcp_endpoint \<Rightarrow> tcp_table \<Rightarrow> nat \<times> tcp_table" where
  "tcp_allocate ep t = (case slot_alloc ep (endpoints t) of (h, es) \<Rightarrow> (h, t\<lparr>endpoints := es\<rparr>))"

definition next_port :: "u16 \<Rightarrow> u16" where
  "next_port p = (if 65000 \<le> p then 49152 else p + 1)"

definition tcp_pick_port :: "tcp_table \<Rightarrow> u16 \<times> tcp_table" where
  "tcp_pick_port t = (next_ephemeral_port t, t\<lparr>next_ephemeral_port := next_port (next_ephemeral_port t)\<rparr>)"

definition listens_on :: "socket_addr \<Rightarrow> tcp_endpoint \<Rightarrow> bool" where
  "listens_on local ep \<longleftrightarrow> ep_state ep = Listen \<and> (is_unspecified (sa_ip (ep_local ep)) \<or> sa_ip (ep_local ep) = sa_ip local)
     \<and> sa_port (ep_local ep) = sa_port local"

definition find_listener :: "socket_addr \<Rightarrow> tcp_table \<Rightarrow> nat option" where
  "find_listener local t = slot_find (listens_on local) (endpoints t)"

definition connects :: "socket_addr \<Rightarrow> socket_addr \<Rightarrow> tcp_endpoint \<Rightarrow> bool" where
  "connects local remote ep \<longleftrightarrow> sa_port (ep_local ep) = sa_port local \<and> ep_remote ep = remote"

definition find_endpoint :: "socket_addr \<Rightarrow> socket_addr \<Rightarrow> tcp_table \<Rightarrow> nat option" where
  "find_endpoint local remote t = slot_find (connects local remote) (endpoints t)"


section \<open>Bounds of the congestion state\<close>

definition congestion_ok :: "tcp_endpoint \<Rightarrow> bool" where
  "congestion_ok ep \<longleftrightarrow> MSS \<le> cwnd ep \<and> 2 * MSS \<le> ssthresh ep \<and> 2 \<le> rto ep"

lemma saturating_add_ge: "a \<le> saturating_add a (b :: 'n::len word)"
proof -
  have "unat a < 2 ^ LENGTH('n)" by (rule unsigned_less)
  then have "unat a \<le> 2 ^ LENGTH('n) - 1" by linarith
  then show ?thesis by (simp add: word_le_nat_alt unat_saturating_add)
qed

lemma saturating_double_ge: "2 \<le> a \<Longrightarrow> 2 \<le> saturating_mul a (2 :: u32)"
proof -
  assume "2 \<le> a"
  then have a: "2 \<le> unat a" by (simp add: word_le_nat_alt)
  show ?thesis
  proof (cases "unat a * 2 < 2 ^ 32")
    case True
    then have "unat (a * 2) = unat a * 2" by (simp add: unat_word_ariths)
    with a True show ?thesis by (simp add: saturating_mul_def word_le_nat_alt)
  qed (simp add: saturating_mul_def word_le_nat_alt unat_max_word)
qed

lemma rtt_update_ok: "congestion_ok ep \<Longrightarrow> congestion_ok (rtt_update now tick ep)"
  by (auto simp: congestion_ok_def rtt_update_def Let_def split: option.splits prod.splits)

lemma grow_cwnd_ok: "congestion_ok ep \<Longrightarrow> congestion_ok (grow_cwnd acked ep)"
  using order_trans [OF _ saturating_add_ge, of MSS "cwnd ep"] by (auto simp: congestion_ok_def grow_cwnd_def)

lemma congestion_fields [simp]:
  "congestion_ok (ep\<lparr>snd_una := a\<rparr>) = congestion_ok ep" "congestion_ok (ep\<lparr>rto_backoff := b\<rparr>) = congestion_ok ep"
  "congestion_ok (ep\<lparr>retx := r\<rparr>) = congestion_ok ep" "congestion_ok (ep\<lparr>rcv_nxt := a\<rparr>) = congestion_ok ep"
  "congestion_ok (ep\<lparr>rcv_buf := q\<rparr>) = congestion_ok ep" "congestion_ok (ep\<lparr>ep_state := st\<rparr>) = congestion_ok ep"
  "congestion_ok (ep\<lparr>snd_nxt := a\<rparr>) = congestion_ok ep"
  by (simp_all add: congestion_ok_def)

lemma process_ack_ok: "congestion_ok ep \<Longrightarrow> congestion_ok (process_ack now ack ep)"
  by (auto simp: process_ack_def Let_def split: prod.splits intro!: grow_cwnd_ok rtt_update_ok)

lemma on_rto_ok: "congestion_ok ep \<Longrightarrow> congestion_ok (on_rto ep)"
  using saturating_double_ge [of "rto ep"] by (auto simp: congestion_ok_def on_rto_def)

lemma take_data_ok: "congestion_ok (fst p) \<Longrightarrow> congestion_ok (fst (take_data th payload p))"
  by (auto simp: take_data_def Let_def split: prod.splits)

lemma process_segment_ok: "congestion_ok ep \<Longrightarrow> congestion_ok (fst (process_segment now th payload ep))"
  using take_data_ok [of "(ep, None)" th payload]
  by (auto simp: process_segment_def Let_def process_ack_ok split: tcp_state.splits prod.splits)

text \<open>Everything that happens to an endpoint: a segment arrives, the retransmission timer fires, data is queued for sending.\<close>

datatype tcp_event = Arrives u64 tcp_header "u8 list" | TimerFires | Queues retx_segment

fun tcp_step :: "tcp_event \<Rightarrow> tcp_endpoint \<Rightarrow> tcp_endpoint" where
  "tcp_step (Arrives now th payload) ep = fst (process_segment now th payload ep)"
| "tcp_step TimerFires ep = on_rto ep"
| "tcp_step (Queues seg) ep = ep\<lparr>retx := retx ep @ [seg]\<rparr>"

lemma tcp_step_ok: "congestion_ok ep \<Longrightarrow> congestion_ok (tcp_step ev ep)"
  by (cases ev) (simp_all add: process_segment_ok on_rto_ok)

lemma endpoint_in_ok: "congestion_ok (endpoint_in st l r a b c d)"
  by (simp add: congestion_ok_def endpoint_in_def MSS_def word_le_nat_alt unat_max_word)


section \<open>The byte stream\<close>

text \<open>A segment that carries the bytes of the stream \<open>D\<close> at offset \<open>off\<close>, where sequence number \<open>s0\<close> is the number of the first byte.\<close>

definition carries :: "u8 list \<Rightarrow> u32 \<Rightarrow> tcp_header \<Rightarrow> u8 list \<Rightarrow> bool" where
  "carries D s0 th payload \<longleftrightarrow> \<not> flag th TCP_FIN
     \<and> (\<exists>off. th_seq th = s0 + word_of_nat off \<and> off + length payload \<le> length D \<and> payload = take (length payload) (drop off D))"

definition has_prefix :: "u8 list \<Rightarrow> u32 \<Rightarrow> nat \<Rightarrow> tcp_endpoint \<Rightarrow> bool" where
  "has_prefix D s0 k ep \<longleftrightarrow> ep_state ep = Established \<and> k \<le> length D \<and> rcv_buf ep = take k D \<and> rcv_nxt ep = s0 + word_of_nat k"

lemma process_ack_receives [simp]:
  "rcv_buf (process_ack now a ep) = rcv_buf ep" "rcv_nxt (process_ack now a ep) = rcv_nxt ep" "ep_state (process_ack now a ep) = ep_state ep"
  "snd_nxt (process_ack now a ep) = snd_nxt ep" "ep_local (process_ack now a ep) = ep_local ep" "ep_remote (process_ack now a ep) = ep_remote ep"
  by (auto simp: process_ack_def grow_cwnd_def rtt_update_def Let_def split: prod.splits option.splits)

lemma word_of_nat_eq:
  assumes "a < 2 ^ 32" and "b < 2 ^ 32" and "(word_of_nat a :: u32) = word_of_nat b"
  shows "a = b"
proof -
  have "unat (word_of_nat a :: u32) = a" "unat (word_of_nat b :: u32) = b" using assms(1,2) by (simp_all add: unat_of_nat)
  with assms(3) show ?thesis by metis
qed

lemma segment_prefix:
  assumes "has_prefix D s0 k ep" and "carries D s0 th payload" and "length D < 2 ^ 32"
  shows "has_prefix D s0 (if payload \<noteq> [] \<and> th_seq th = rcv_nxt ep then k + length payload else k) (fst (process_segment now th payload ep))"
proof -
  have nf: "\<not> flag th TCP_FIN" using assms(2) by (simp add: carries_def)
  obtain ep1 a1 where td: "take_data th payload (ep, None) = (ep1, a1)" by fastforce
  have r: "rcv_buf (fst (process_segment now th payload ep)) = rcv_buf ep1" "rcv_nxt (fst (process_segment now th payload ep)) = rcv_nxt ep1"
    "ep_state (fst (process_segment now th payload ep)) = ep_state ep1"
    using assms(1) nf td by (simp_all add: has_prefix_def process_segment_def take_data_def Let_def split: if_splits)
  show ?thesis
  proof (cases "payload \<noteq> [] \<and> th_seq th = rcv_nxt ep")
    case True
    obtain off where off: "th_seq th = s0 + word_of_nat off" "off + length payload \<le> length D" "payload = take (length payload) (drop off D)"
      using assms(2) by (auto simp: carries_def)
    have "off = k" using off True assms(1,3) by (intro word_of_nat_eq) (auto simp: has_prefix_def)
    with off(2,3) have "take k D @ payload = take (k + length payload) D" by (metis take_add)
    with True td assms(1) off(2) \<open>off = k\<close> show ?thesis by (auto simp: has_prefix_def r take_data_def Let_def)
  next
    case False
    then have "ep1 = ep" using td by (auto simp: take_data_def)
    with False assms(1) show ?thesis by (simp only: has_prefix_def r if_False)
  qed
qed


type_synonym arrival = "u64 \<times> tcp_header \<times> u8 list"

definition deliver :: "arrival list \<Rightarrow> tcp_endpoint \<Rightarrow> tcp_endpoint" where
  "deliver as ep = fold (\<lambda>(now, th, payload) ep. fst (process_segment now th payload ep)) as ep"

text \<open>Arrivals that carry non-empty consecutive chunks starting at offset \<open>k\<close>.\<close>

fun in_sequence :: "u32 \<Rightarrow> nat \<Rightarrow> arrival list \<Rightarrow> bool" where
  "in_sequence s0 k [] = True"
| "in_sequence s0 k ((now, th, payload) # as) \<longleftrightarrow> payload \<noteq> [] \<and> th_seq th = s0 + word_of_nat k \<and> in_sequence s0 (k + length payload) as"

lemma deliver_prefix:
  assumes "length D < 2 ^ 32"
  shows "has_prefix D s0 k ep \<Longrightarrow> \<forall>(now, th, payload) \<in> set as. carries D s0 th payload \<Longrightarrow> \<exists>k' \<ge> k. has_prefix D s0 k' (deliver as ep)"
proof (induction as arbitrary: ep k)
  case (Cons a as)
  obtain now th payload where a: "a = (now, th, payload)" by (metis prod_cases3)
  define ep1 k1 where "ep1 = fst (process_segment now th payload ep)" and "k1 = (if payload \<noteq> [] \<and> th_seq th = rcv_nxt ep then k + length payload else k)"
  have "carries D s0 th payload" using Cons.prems(2) a by simp
  then have "has_prefix D s0 k1 ep1" unfolding ep1_def k1_def by (rule segment_prefix [OF Cons.prems(1) _ assms])
  from Cons.IH [OF this] Cons.prems(2) obtain k' where "k1 \<le> k'" "has_prefix D s0 k' (deliver as ep1)" by auto
  moreover have "k \<le> k1" by (simp add: k1_def)
  ultimately show ?case by (auto simp: a deliver_def ep1_def intro: le_trans)
qed (auto simp: deliver_def)

lemma deliver_in_sequence:
  assumes "length D < 2 ^ 32"
  shows "has_prefix D s0 k ep \<Longrightarrow> \<forall>(now, th, payload) \<in> set as. carries D s0 th payload \<Longrightarrow> in_sequence s0 k as \<Longrightarrow>
    has_prefix D s0 (k + (\<Sum>(now, th, payload) \<leftarrow> as. length payload)) (deliver as ep)"
proof (induction as arbitrary: ep k)
  case (Cons a as)
  obtain now th payload where a: "a = (now, th, payload)" by (metis prod_cases3)
  define ep1 where "ep1 = fst (process_segment now th payload ep)"
  have c: "payload \<noteq> [] \<and> th_seq th = rcv_nxt ep" using Cons.prems(1,3) by (simp add: a has_prefix_def)
  have "carries D s0 th payload" using Cons.prems(2) a by simp
  from segment_prefix [OF Cons.prems(1) this assms, of now] c have "has_prefix D s0 (k + length payload) ep1" by (simp add: ep1_def)
  from Cons.IH [OF this] Cons.prems(2,3) show ?case by (simp add: a deliver_def ep1_def add.assoc)
qed (simp add: deliver_def)

text \<open>
  C17: a connection delivers the byte stream of its peer. Whatever segments of the stream arrive, in any order and with any repetitions, the receive
  buffer holds a prefix of the stream that only grows; and when the chunks arrive in sequence, all of their bytes are delivered.
\<close>

theorem stream_in_order:
  assumes "length D < 2 ^ 32" and "has_prefix D s0 k ep" and "\<forall>(now, th, payload) \<in> set as. carries D s0 th payload"
  shows "(\<exists>k' \<ge> k. has_prefix D s0 k' (deliver as ep))
    \<and> (in_sequence s0 k as \<longrightarrow> rcv_buf (deliver as ep) = take (k + (\<Sum>(now, th, payload) \<leftarrow> as. length payload)) D)"
  using deliver_prefix [OF assms] deliver_in_sequence [OF assms] by (auto simp: has_prefix_def)

definition wit_th :: "u32 \<Rightarrow> tcp_header" where
  "wit_th s = \<lparr>th_src_port = 80, th_dst_port = 49152, th_seq = s, th_ack = 0, th_data_offset_words = 5, th_flags = 0, th_window = 0,
     th_checksum = 0, th_urgent = 0\<rparr>"

definition wit_ep :: tcp_endpoint where
  "wit_ep = (endpoint_in Established \<lparr>sa_ip = LOCALHOST, sa_port = 49152\<rparr> \<lparr>sa_ip = LOCALHOST, sa_port = 80\<rparr> 0 0 100 0)"

theorem stream_in_order_witness:
  "rcv_buf (deliver [(0, wit_th 100, [1, 2]), (1, wit_th 102, [3])] wit_ep) = [1, 2, 3]"
proof -
  have h: "has_prefix [1, 2, 3] 100 0 wit_ep" by (simp add: has_prefix_def wit_ep_def endpoint_in_def)
  have "carries [1, 2, 3] 100 (wit_th 100) [1, 2]" by (simp add: carries_def wit_th_def) (rule exI [of _ 0], simp)
  moreover have "carries [1, 2, 3] 100 (wit_th 102) [3]" by (simp add: carries_def wit_th_def) (rule exI [of _ 2], simp)
  ultimately have "\<forall>(now, th, payload) \<in> set [(0, wit_th 100, [1, 2]), (1, wit_th 102, [3])]. carries [1, 2, 3] 100 th payload" by simp
  from conjunct2 [OF stream_in_order [OF _ h this]] show ?thesis by (simp add: wit_th_def)
qed

end
