(* ===== verification/NetStack.thy ===== *)
theory NetStack
  imports Tcp
begin

text \<open>
  The network stack (\<^verbatim>\<open>src/net/mod.rs\<close>, \<^verbatim>\<open>loopback.rs\<close>, \<^verbatim>\<open>socket.rs\<close>, \<^verbatim>\<open>icmp.rs\<close>, the sending side of \<^verbatim>\<open>tcp.rs\<close>): interfaces and routing, the queue of the
  loopback interface, UDP sockets, ping, and TCP connections. Sending a packet drains the loopback queue before it returns, and draining hands
  packets to protocols that may send again: the calls nest. The depth of the nesting is bounded by a fuel, the room on the kernel
  stack; running out of it is \<open>Stuck\<close>. Slices out of range panic. Transmission by a network card is an argument.
\<close>

section \<open>State\<close>

datatype if_kind = LoopbackIface | NicIface

record iface =
  if_name :: string
  if_kind :: if_kind
  if_ipv4 :: ipv4_addr
  if_netmask :: ipv4_addr
  if_mtu :: u16
  if_up :: bool
  rx_packets :: u64
  tx_packets :: u64
  rx_bytes :: u64
  tx_bytes :: u64

datatype socket_type = Datagram | Stream

record udp_socket =
  so_handle :: nat
  so_kind :: socket_type
  so_bound :: "socket_addr option"
  so_rx :: "(socket_addr \<times> u8 list) list"

record socket_table =
  st_sockets :: "udp_socket slots"
  st_next_port :: u16

record echo_reply =
  er_from :: ipv4_addr
  er_identifier :: u16
  er_sequence :: u16
  er_payload :: "u8 list"
  er_recv_tick :: u64

record net =
  n_interfaces :: "iface list"
  n_lo_queue :: "u8 list list"
  n_sockets :: socket_table
  n_echo :: "echo_reply list"
  n_tcp :: tcp_table

definition loopback_new :: iface where
  "loopback_new = \<lparr>if_name = ''lo'', if_kind = LoopbackIface, if_ipv4 = LOCALHOST, if_netmask = Ipv4Addr 255 0 0 0, if_mtu = 65535, if_up = False,
     rx_packets = 0, tx_packets = 0, rx_bytes = 0, tx_bytes = 0\<rparr>"

definition net_register :: "iface \<Rightarrow> net \<Rightarrow> net" where
  "net_register i n = n\<lparr>n_interfaces := n_interfaces n @ [i]\<rparr>"

definition net_boot :: net where
  "net_boot = \<lparr>n_interfaces = [], n_lo_queue = [], n_sockets = \<lparr>st_sockets = [], st_next_port = 49152\<rparr>, n_echo = [], n_tcp = tcp_table_new\<rparr>"

text \<open>\<open>init\<close>: register the loopback interface and bring the first interface up.\<close>

definition net_init :: "net \<Rightarrow> net" where
  "net_init n =
     (let n1 = net_register loopback_new n
      in n1\<lparr>n_interfaces := (case n_interfaces n1 of [] \<Rightarrow> [] | i # is \<Rightarrow> i\<lparr>if_up := True\<rparr> # is)\<rparr>)"

section \<open>Routing and transmission\<close>

definition route :: "ipv4_addr \<Rightarrow> net \<Rightarrow> nat option" where
  "route dst n =
     (if is_loopback dst then position (\<lambda>i. if_name i = ''lo'') (n_interfaces n)
      else position (\<lambda>i. if_up i \<and> if_name i \<noteq> ''lo'') (n_interfaces n))"

datatype tx_error = NoRouteTo | InterfaceDown | DriverError

type_synonym nic = "iface \<Rightarrow> u8 list \<Rightarrow> (tx_error + unit) \<times> iface"

definition lo_count :: "nat \<Rightarrow> iface \<Rightarrow> iface" where
  "lo_count len i = i\<lparr>tx_packets := tx_packets i + 1, tx_bytes := tx_bytes i + word_of_nat len,
     rx_packets := rx_packets i + 1, rx_bytes := rx_bytes i + word_of_nat len\<rparr>"

definition transmit_ipv4 :: "nic \<Rightarrow> nat \<Rightarrow> u8 list \<Rightarrow> net \<Rightarrow> (tx_error + unit) \<times> net" where
  "transmit_ipv4 nic k packet n =
     (let i = n_interfaces n ! k in
      case if_kind i of
        LoopbackIface \<Rightarrow>
          if \<not> if_up i then (Inl InterfaceDown, n)
          else (Inr (), n\<lparr>n_interfaces := (n_interfaces n)[k := lo_count (length packet) i], n_lo_queue := n_lo_queue n @ [packet]\<rparr>)
      | NicIface \<Rightarrow> (case nic i packet of (r, i1) \<Rightarrow> (r, n\<lparr>n_interfaces := (n_interfaces n)[k := i1]\<rparr>)))"

definition pop_pending :: "net \<Rightarrow> (u8 list \<times> net) option" where
  "pop_pending n = (case n_lo_queue n of [] \<Rightarrow> None | p # ps \<Rightarrow> Some (p, n\<lparr>n_lo_queue := ps\<rparr>))"

text \<open>Route, transmit and drain: the tail of every sending operation. \<open>dr\<close> is \<open>drain_pending\<close>.\<close>

definition send_packet :: "nic \<Rightarrow> (net \<Rightarrow> net outcome) \<Rightarrow> ipv4_addr \<Rightarrow> u8 list \<Rightarrow> net \<Rightarrow> ((tx_error + unit) \<times> net) outcome" where
  "send_packet nic dr dst packet n =
     (case route dst n of
        None \<Rightarrow> Done (Inl NoRouteTo, n)
      | Some k \<Rightarrow>
          (case transmit_ipv4 nic k packet n of
             (Inl e, n1) \<Rightarrow> Done (Inl e, n1)
           | (Inr _, n1) \<Rightarrow> obind (dr n1) (\<lambda>n2. Done (Inr (), n2))))"

section \<open>Incoming packets\<close>

definition find_bound :: "ipv4_addr \<Rightarrow> u16 \<Rightarrow> socket_table \<Rightarrow> nat option" where
  "find_bound ip port t = slot_find (\<lambda>s. case so_bound s of
     None \<Rightarrow> False
   | Some a \<Rightarrow> (is_unspecified (sa_ip a) \<or> sa_ip a = ip) \<and> sa_port a = port) (st_sockets t)"

definition push_rx :: "nat \<Rightarrow> socket_addr \<times> u8 list \<Rightarrow> net \<Rightarrow> net" where
  "push_rx h d n =
     (case slot_get h (st_sockets (n_sockets n)) of
        None \<Rightarrow> n
      | Some s \<Rightarrow> n\<lparr>n_sockets := (n_sockets n)\<lparr>st_sockets := slot_put h (s\<lparr>so_rx := so_rx s @ [d]\<rparr>) (st_sockets (n_sockets n))\<rparr>\<rparr>)"

definition udp_input :: "ipv4_header \<Rightarrow> u8 list \<Rightarrow> net \<Rightarrow> net outcome" where
  "udp_input hdr seg n =
     (case udp_parse seg of
        None \<Rightarrow> Done n
      | Some udp \<Rightarrow>
          if length seg < unat (udp_length udp) then Done n
          else obind (slice_at seg 8 (unat (udp_length udp))) (\<lambda>payload.
            case find_bound (ip_dst hdr) (udp_dst_port udp) (n_sockets n) of
              None \<Rightarrow> Done n
            | Some h \<Rightarrow> Done (push_rx h (\<lparr>sa_ip = ip_src hdr, sa_port = udp_src_port udp\<rparr>, payload) n)))"

type_synonym sender = "ipv4_addr \<Rightarrow> u8 list \<Rightarrow> net \<Rightarrow> ((tx_error + unit) \<times> net) outcome"

definition ignore_result :: "((tx_error + unit) \<times> net) outcome \<Rightarrow> net outcome" where
  "ignore_result r = obind r (\<lambda>(_, n). Done n)"

definition icmp_input :: "u64 \<Rightarrow> sender \<Rightarrow> ipv4_header \<Rightarrow> u8 list \<Rightarrow> net \<Rightarrow> net outcome" where
  "icmp_input now tx hdr seg n =
     (case icmp_parse seg of
        None \<Rightarrow> Done n
      | Some h \<Rightarrow>
          if icmp_kind h = 8
          then ignore_result (tx (ip_src hdr) (echo_packet 0 (ip_dst hdr) (ip_src hdr) (icmp_identifier h) (icmp_sequence h) (drop 8 seg)) n)
          else if icmp_kind h = 0
          then Done (n\<lparr>n_echo := n_echo n @ [\<lparr>er_from = ip_src hdr, er_identifier = icmp_identifier h, er_sequence = icmp_sequence h,
                 er_payload = drop 8 seg, er_recv_tick = now\<rparr>]\<rparr>)
          else Done n)"

definition emit :: "sender \<Rightarrow> socket_addr \<Rightarrow> socket_addr \<Rightarrow> u32 \<Rightarrow> u32 \<Rightarrow> u8 \<Rightarrow> u8 list \<Rightarrow> net \<Rightarrow> ((tx_error + unit) \<times> net) outcome" where
  "emit tx local remote seq ack fl payload n = tx (sa_ip remote) (tcp_packet local remote seq ack fl payload) n"

definition put_endpoint :: "nat \<Rightarrow> tcp_endpoint \<Rightarrow> net \<Rightarrow> net" where
  "put_endpoint h ep n = n\<lparr>n_tcp := (n_tcp n)\<lparr>endpoints := slot_put h ep (endpoints (n_tcp n))\<rparr>\<rparr>"

abbreviation endpoint_at :: "nat \<Rightarrow> net \<Rightarrow> tcp_endpoint option" where
  "endpoint_at h n \<equiv> slot_get h (endpoints (n_tcp n))"

text \<open>A segment for \<open>local\<close> from \<open>remote\<close>: an endpoint of the connection handles it, else a listener takes a first SYN, else it is refused.\<close>

definition spawn_child :: "socket_addr \<Rightarrow> tcp_endpoint \<Rightarrow> tcp_table \<Rightarrow> tcp_table" where
  "spawn_child local child t =
     (case tcp_allocate child t of (idx, t1) \<Rightarrow>
      case find_listener local t1 of
        None \<Rightarrow> t1
      | Some l \<Rightarrow>
          (case slot_get l (endpoints t1) of
             None \<Rightarrow> t1
           | Some lp \<Rightarrow> t1\<lparr>endpoints := slot_put l (lp\<lparr>accept_queue := accept_queue lp @ [idx]\<rparr>) (endpoints t1)\<rparr>))"

definition tcp_segment :: "u64 \<Rightarrow> sender \<Rightarrow> tcp_header \<Rightarrow> u8 list \<Rightarrow> socket_addr \<Rightarrow> socket_addr \<Rightarrow> net \<Rightarrow> net outcome" where
  "tcp_segment now tx th payload local remote n =
     (case find_endpoint local remote (n_tcp n) of
        Some idx \<Rightarrow>
          (case endpoint_at idx n of
             None \<Rightarrow> Done n
           | Some ep \<Rightarrow>
               (case process_segment now th payload ep of
                  (ep1, None) \<Rightarrow> Done (put_endpoint idx ep1 n)
                | (ep1, Some (seq, ack, fl)) \<Rightarrow> ignore_result (emit tx local remote seq ack fl [] (put_endpoint idx ep1 n))))
      | None \<Rightarrow>
          if flag th TCP_SYN \<and> \<not> flag th TCP_ACK
          then
            (case find_listener local (n_tcp n) of
               Some _ \<Rightarrow>
                 let child = new_child_for_syn now local remote (th_seq th)
                 in ignore_result (emit tx local remote (snd_una child) (rcv_nxt child) (TCP_SYN OR TCP_ACK) [] (n\<lparr>n_tcp := spawn_child local child (n_tcp n)\<rparr>))
             | None \<Rightarrow> ignore_result (emit tx local remote 0 (th_seq th + 1) (TCP_RST OR TCP_ACK) [] n))
          else ignore_result (emit tx local remote (th_ack th) (th_seq th + word_of_nat (length payload)) TCP_RST [] n))"

definition tcp_input :: "u64 \<Rightarrow> sender \<Rightarrow> ipv4_header \<Rightarrow> u8 list \<Rightarrow> net \<Rightarrow> net outcome" where
  "tcp_input now tx hdr seg n =
     (case tcp_parse seg of
        None \<Rightarrow> Done n
      | Some th \<Rightarrow>
          let header_len = unat (th_data_offset_words th) * 4 in
          if length seg < header_len then Done n
          else tcp_segment now tx th (drop header_len seg) \<lparr>sa_ip = ip_dst hdr, sa_port = th_dst_port th\<rparr> \<lparr>sa_ip = ip_src hdr, sa_port = th_src_port th\<rparr> n)"

definition ipv4_input :: "u64 \<Rightarrow> sender \<Rightarrow> u8 list \<Rightarrow> net \<Rightarrow> net outcome" where
  "ipv4_input now tx packet n =
     (case ip_header_parse packet of
        None \<Rightarrow> Done n
      | Some hdr \<Rightarrow>
          if length packet < unat (total_length hdr) then Done n
          else if protocol hdr = PROTO_UDP then obind (slice_at packet 20 (unat (total_length hdr))) (\<lambda>seg. udp_input hdr seg n)
          else if protocol hdr = PROTO_ICMP then obind (slice_at packet 20 (unat (total_length hdr))) (\<lambda>seg. icmp_input now tx hdr seg n)
          else if protocol hdr = PROTO_TCP then obind (slice_at packet 20 (unat (total_length hdr))) (\<lambda>seg. tcp_input now tx hdr seg n)
          else Done n)"

text \<open>Each call pops at most 128 packets; handling a packet may send, one level deeper.\<close>

fun drain_pending :: "nic \<Rightarrow> u64 \<Rightarrow> nat \<Rightarrow> nat \<Rightarrow> net \<Rightarrow> net outcome" where
  "drain_pending nic now f 0 n = Done n"
| "drain_pending nic now f (Suc k) n =
     (case pop_pending n of
        None \<Rightarrow> Done n
      | Some (packet, n1) \<Rightarrow>
          (case f of
             0 \<Rightarrow> Stuck
           | Suc f1 \<Rightarrow>
               obind (ipv4_input now (send_packet nic (drain_pending nic now f1 128)) packet n1) (drain_pending nic now f k)))"

abbreviation tx_at :: "nic \<Rightarrow> u64 \<Rightarrow> nat \<Rightarrow> sender" where
  "tx_at nic now f \<equiv> send_packet nic (drain_pending nic now f 128)"


section \<open>Datagram sockets\<close>

datatype socket_error = InvalidHandle | AddressInUse | NotBound | Unreachable | NoRoute | BufferTooSmall

definition sock_create :: "socket_type \<Rightarrow> net \<Rightarrow> nat \<times> net" where
  "sock_create kind n =
     (let ss = st_sockets (n_sockets n)
      in (length ss, n\<lparr>n_sockets := (n_sockets n)\<lparr>st_sockets := ss @ [Some \<lparr>so_handle = length ss, so_kind = kind, so_bound = None, so_rx = []\<rparr>]\<rparr>\<rparr>))"

definition put_socket :: "nat \<Rightarrow> udp_socket \<Rightarrow> net \<Rightarrow> net" where
  "put_socket h s n = n\<lparr>n_sockets := (n_sockets n)\<lparr>st_sockets := slot_put h s (st_sockets (n_sockets n))\<rparr>\<rparr>"

abbreviation socket_at :: "nat \<Rightarrow> net \<Rightarrow> udp_socket option" where
  "socket_at h n \<equiv> slot_get h (st_sockets (n_sockets n))"

definition sock_bind :: "nat \<Rightarrow> socket_addr \<Rightarrow> net \<Rightarrow> (socket_error + unit) \<times> net" where
  "sock_bind h addr n =
     (if slot_any (\<lambda>s. so_handle s \<noteq> h \<and> so_bound s = Some addr) (st_sockets (n_sockets n)) then (Inl AddressInUse, n)
      else
        (case socket_at h n of
           None \<Rightarrow> (Inl InvalidHandle, n)
         | Some s \<Rightarrow> (Inr (), put_socket h (s\<lparr>so_bound := Some addr\<rparr>) n)))"

definition source_ip_for :: "ipv4_addr \<Rightarrow> ipv4_addr option" where
  "source_ip_for dst = (if is_loopback dst then Some LOCALHOST else None)"

definition sock_pick_port :: "net \<Rightarrow> u16 \<times> net" where
  "sock_pick_port n = (st_next_port (n_sockets n), n\<lparr>n_sockets := (n_sockets n)\<lparr>st_next_port := next_port (st_next_port (n_sockets n))\<rparr>\<rparr>)"

text \<open>The source address of a datagram: an unbound socket is bound to a fresh port first.\<close>

definition source_addr :: "nat \<Rightarrow> socket_addr \<Rightarrow> net \<Rightarrow> (socket_error + socket_addr) \<times> net" where
  "source_addr h dst n =
     (let ip = (case source_ip_for (sa_ip dst) of Some a \<Rightarrow> a | None \<Rightarrow> LOCALHOST) in
      case socket_at h n of
        None \<Rightarrow> (Inl InvalidHandle, n)
      | Some s \<Rightarrow>
          (case so_bound s of
             Some b \<Rightarrow> (Inr (if is_unspecified (sa_ip b) then \<lparr>sa_ip = ip, sa_port = sa_port b\<rparr> else b), n)
           | None \<Rightarrow>
               (case sock_pick_port n of (port, n1) \<Rightarrow>
                let addr = \<lparr>sa_ip = ip, sa_port = port\<rparr> in (Inr addr, put_socket h (s\<lparr>so_bound := Some addr\<rparr>) n1))))"

definition sock_sendto :: "sender \<Rightarrow> nat \<Rightarrow> u8 list \<Rightarrow> socket_addr \<Rightarrow> net \<Rightarrow> ((socket_error + nat) \<times> net) outcome" where
  "sock_sendto tx h payload dst n =
     (case source_addr h dst n of
        (Inl e, n1) \<Rightarrow> Done (Inl e, n1)
      | (Inr src, n1) \<Rightarrow>
          obind (tx (sa_ip dst) (build_datagram src dst payload) n1) (\<lambda>(r, n2).
            case r of
              Inl NoRouteTo \<Rightarrow> Done (Inl NoRoute, n2)
            | Inl _ \<Rightarrow> Done (Inl Unreachable, n2)
            | Inr _ \<Rightarrow> Done (Inr (length payload), n2)))"

definition MSG_TRUNC :: u32 where "MSG_TRUNC = 0x20"

definition sock_recvfrom_flags :: "nat \<Rightarrow> nat \<Rightarrow> net \<Rightarrow> (socket_error + u8 list \<times> socket_addr \<times> u32) \<times> net" where
  "sock_recvfrom_flags h buflen n =
     (case socket_at h n of
        None \<Rightarrow> (Inl InvalidHandle, n)
      | Some s \<Rightarrow>
          (case so_rx s of
             [] \<Rightarrow> (Inl NotBound, n)
           | (from, data) # rest \<Rightarrow>
               (Inr (take buflen data, from, if min (length data) buflen < length data then MSG_TRUNC else 0),
                put_socket h (s\<lparr>so_rx := rest\<rparr>) n)))"

definition sock_recvfrom :: "nat \<Rightarrow> nat \<Rightarrow> net \<Rightarrow> (socket_error + u8 list \<times> socket_addr) \<times> net" where
  "sock_recvfrom h buflen n =
     (case sock_recvfrom_flags h buflen n of
        (Inl e, n1) \<Rightarrow> (Inl e, n1)
      | (Inr (data, from, fl), n1) \<Rightarrow> if fl AND MSG_TRUNC \<noteq> 0 then (Inl BufferTooSmall, n1) else (Inr (data, from), n1))"

definition sock_has_pending :: "nat \<Rightarrow> net \<Rightarrow> bool" where
  "sock_has_pending h n = (case socket_at h n of Some s \<Rightarrow> so_rx s \<noteq> [] | None \<Rightarrow> False)"

definition sock_close :: "nat \<Rightarrow> net \<Rightarrow> net" where
  "sock_close h n = n\<lparr>n_sockets := (n_sockets n)\<lparr>st_sockets := slot_close h (st_sockets (n_sockets n))\<rparr>\<rparr>"

section \<open>Ping\<close>

definition send_echo_request :: "sender \<Rightarrow> ipv4_addr \<Rightarrow> ipv4_addr \<Rightarrow> u16 \<Rightarrow> u16 \<Rightarrow> u8 list \<Rightarrow> net \<Rightarrow> ((tx_error + unit) \<times> net) outcome" where
  "send_echo_request tx src dst ident seq payload n = tx dst (echo_packet 8 src dst ident seq payload) n"

definition drain_echo_reply :: "u16 \<Rightarrow> u16 \<Rightarrow> net \<Rightarrow> echo_reply option \<times> net" where
  "drain_echo_reply ident seq n =
     (case position (\<lambda>r. er_identifier r = ident \<and> er_sequence r = seq) (n_echo n) of
        None \<Rightarrow> (None, n)
      | Some k \<Rightarrow> (Some (n_echo n ! k), n\<lparr>n_echo := take k (n_echo n) @ drop (Suc k) (n_echo n)\<rparr>))"

section \<open>Connections\<close>

datatype tcp_error = TcpInvalidHandle | TcpNotListening | TcpAddressInUse | TcpNoRoute | TcpRefused | TcpAlreadyConnected | TcpNotConnected | TcpClosed

definition tcp_listen :: "socket_addr \<Rightarrow> u32 \<Rightarrow> net \<Rightarrow> (tcp_error + nat) \<times> net" where
  "tcp_listen addr bl n =
     (if slot_any (\<lambda>ep. ep_state ep = Listen \<and> ep_local ep = addr) (endpoints (n_tcp n)) then (Inl TcpAddressInUse, n)
      else (case tcp_allocate (new_listener addr bl) (n_tcp n) of (h, t) \<Rightarrow> (Inr h, n\<lparr>n_tcp := t\<rparr>)))"

definition tcp_accept :: "nat \<Rightarrow> net \<Rightarrow> (tcp_error + nat) \<times> net" where
  "tcp_accept l n =
     (case endpoint_at l n of
        None \<Rightarrow> (Inl TcpInvalidHandle, n)
      | Some lp \<Rightarrow>
          if ep_state lp \<noteq> Listen then (Inl TcpNotListening, n)
          else (case accept_queue lp of
                  [] \<Rightarrow> (Inl TcpNotListening, n)
                | h # hs \<Rightarrow> (Inr h, put_endpoint l (lp\<lparr>accept_queue := hs\<rparr>) n)))"

definition tcp_connect :: "u64 \<Rightarrow> sender \<Rightarrow> socket_addr \<Rightarrow> net \<Rightarrow> ((tcp_error + nat) \<times> net) outcome" where
  "tcp_connect now tx remote n =
     (case tcp_pick_port (n_tcp n) of (port, t1) \<Rightarrow>
      let local = \<lparr>sa_ip = LOCALHOST, sa_port = port\<rparr>; ep = new_active now local remote in
      case tcp_allocate ep t1 of (h, t2) \<Rightarrow>
      obind (emit tx local remote (snd_una ep) 0 TCP_SYN [] (n\<lparr>n_tcp := t2\<rparr>)) (\<lambda>(r, n2).
        case r of
          Inl _ \<Rightarrow> Done (Inl TcpNoRoute, n2)
        | Inr _ \<Rightarrow>
            (case endpoint_at h n2 of
               None \<Rightarrow> Done (Inl TcpInvalidHandle, n2)
             | Some ep2 \<Rightarrow> Done (if ep_state ep2 = Closed then Inl TcpRefused else Inr h, n2))))"

definition tcp_send :: "u64 \<Rightarrow> sender \<Rightarrow> nat \<Rightarrow> u8 list \<Rightarrow> net \<Rightarrow> ((tcp_error + nat) \<times> net) outcome" where
  "tcp_send now tx h data n =
     (case endpoint_at h n of
        None \<Rightarrow> Done (Inl TcpInvalidHandle, n)
      | Some ep \<Rightarrow>
          if ep_state ep \<noteq> Established \<and> ep_state ep \<noteq> CloseWait then Done (Inl TcpNotConnected, n)
          else
            let seg = \<lparr>rx_seq = snd_nxt ep, rx_flags = TCP_ACK OR TCP_PSH, rx_data = data, rx_send_tick = now, rx_retries = 0\<rparr>;
                ep1 = ep\<lparr>snd_nxt := snd_nxt ep + word_of_nat (length data), retx := retx ep @ [seg]\<rparr> in
            obind (emit tx (ep_local ep) (ep_remote ep) (snd_nxt ep) (rcv_nxt ep) (TCP_ACK OR TCP_PSH) data (put_endpoint h ep1 n)) (\<lambda>(r, n2).
              case r of Inl _ \<Rightarrow> Done (Inl TcpClosed, n2) | Inr _ \<Rightarrow> Done (Inr (length data), n2)))"

definition tcp_recv :: "nat \<Rightarrow> nat \<Rightarrow> net \<Rightarrow> (tcp_error + u8 list) \<times> net" where
  "tcp_recv h buflen n =
     (case endpoint_at h n of
        None \<Rightarrow> (Inl TcpInvalidHandle, n)
      | Some ep \<Rightarrow>
          if rcv_buf ep = []
          then (if ep_state ep \<in> {Closed, CloseWait, LastAck} then Inr [] else Inl TcpNotConnected, n)
          else (Inr (take buflen (rcv_buf ep)), put_endpoint h (ep\<lparr>rcv_buf := drop buflen (rcv_buf ep)\<rparr>) n))"

definition tcp_close :: "sender \<Rightarrow> nat \<Rightarrow> net \<Rightarrow> ((tcp_error + unit) \<times> net) outcome" where
  "tcp_close tx h n =
     (case endpoint_at h n of
        None \<Rightarrow> Done (Inl TcpInvalidHandle, n)
      | Some ep \<Rightarrow>
          let fin = (\<lambda>st. let ep1 = ep\<lparr>ep_state := st, snd_nxt := snd_nxt ep + 1\<rparr> in
            obind (emit tx (ep_local ep) (ep_remote ep) (snd_nxt ep) (rcv_nxt ep) (TCP_FIN OR TCP_ACK) [] (put_endpoint h ep1 n))
              (\<lambda>(_, n2). Done (Inr (), n2))) in
          (case ep_state ep of
             Established \<Rightarrow> fin FinWait1
           | CloseWait \<Rightarrow> fin LastAck
           | Listen \<Rightarrow> Done (Inr (), put_endpoint h (ep\<lparr>ep_state := Closed\<rparr>) n)
           | Closed \<Rightarrow> Done (Inr (), put_endpoint h (ep\<lparr>ep_state := Closed\<rparr>) n)
           | _ \<Rightarrow> Done (Inr (), n)))"


text \<open>The retransmission timer: every endpoint whose oldest segment has waited too long resends it.\<close>

type_synonym resend = "socket_addr \<times> socket_addr \<times> u32 \<times> u32 \<times> u8 \<times> u8 list"

definition retx_endpoint :: "u64 \<Rightarrow> tcp_endpoint \<Rightarrow> tcp_endpoint \<times> resend option" where
  "retx_endpoint now ep =
     (case retx ep of
        [] \<Rightarrow> (ep, None)
      | oldest # rest \<Rightarrow>
          if ucast (saturating_sub now (rx_send_tick oldest)) < rto ep then (ep, None)
          else
            let ep1 = on_rto ep; seg = oldest\<lparr>rx_retries := saturating_add (rx_retries oldest) 1, rx_send_tick := now\<rparr>
            in (ep1\<lparr>retx := rest @ [seg]\<rparr>, Some (ep_local ep, ep_remote ep, rx_seq seg, rcv_nxt ep, rx_flags seg, rx_data seg)))"

definition retx_slots :: "u64 \<Rightarrow> tcp_endpoint slots \<Rightarrow> tcp_endpoint slots \<times> resend list" where
  "retx_slots now es =
     (map (map_option (\<lambda>ep. fst (retx_endpoint now ep))) es,
      concat (map (\<lambda>s. case s of None \<Rightarrow> [] | Some ep \<Rightarrow> (case snd (retx_endpoint now ep) of None \<Rightarrow> [] | Some r \<Rightarrow> [r])) es))"

fun resend_all :: "sender \<Rightarrow> resend list \<Rightarrow> net \<Rightarrow> net outcome" where
  "resend_all tx [] n = Done n"
| "resend_all tx ((local, remote, seq, ack, fl, data) # rs) n = obind (ignore_result (emit tx local remote seq ack fl data n)) (resend_all tx rs)"

definition retransmit_tick :: "u64 \<Rightarrow> sender \<Rightarrow> net \<Rightarrow> (nat \<times> net) outcome" where
  "retransmit_tick now tx n =
     (case retx_slots now (endpoints (n_tcp n)) of (es, rs) \<Rightarrow>
      obind (resend_all tx rs (n\<lparr>n_tcp := (n_tcp n)\<lparr>endpoints := es\<rparr>\<rparr>)) (\<lambda>n1. Done (length rs, n1)))"

section \<open>The loopback link\<close>

text \<open>The link is ready: the interface is there and up, and nothing is queued.\<close>

definition lo_ready :: "net \<Rightarrow> bool" where
  "lo_ready n \<longleftrightarrow> n_lo_queue n = []
     \<and> (\<exists>k. position (\<lambda>i. if_name i = ''lo'') (n_interfaces n) = Some k \<and> if_kind (n_interfaces n ! k) = LoopbackIface \<and> if_up (n_interfaces n ! k))"

text \<open>Everything of the state but the counters of the interfaces.\<close>

definition same_but_counters :: "net \<Rightarrow> net \<Rightarrow> bool" where
  "same_but_counters n m \<longleftrightarrow> n_lo_queue m = n_lo_queue n \<and> n_sockets m = n_sockets n \<and> n_echo m = n_echo n \<and> n_tcp m = n_tcp n"

lemma position_update: "position P xs = Some k \<Longrightarrow> P y \<Longrightarrow> position P (xs[k := y]) = Some k"
proof (induction xs arbitrary: k)
  case (Cons x xs)
  then show ?case by (cases k) (auto split: if_splits)
qed simp

lemma position_bound: "position P xs = Some k \<Longrightarrow> k < length xs \<and> P (xs ! k)"
  by (induction xs arbitrary: k) (auto split: if_splits)

lemma lo_send:
  assumes "lo_ready n" and "is_loopback dst"
  shows "\<exists>n1. lo_ready (n1\<lparr>n_lo_queue := []\<rparr>) \<and> same_but_counters n (n1\<lparr>n_lo_queue := []\<rparr>) \<and> n_lo_queue n1 = [packet]
    \<and> send_packet nic dr dst packet n = obind (dr n1) (\<lambda>n2. Done (Inr (), n2))"
proof -
  obtain k where k: "position (\<lambda>i. if_name i = ''lo'') (n_interfaces n) = Some k" "if_kind (n_interfaces n ! k) = LoopbackIface"
    "if_up (n_interfaces n ! k)" and q: "n_lo_queue n = []" using assms(1) by (auto simp: lo_ready_def)
  note b = position_bound [OF k(1)]
  define n1 where "n1 = n\<lparr>n_interfaces := (n_interfaces n)[k := lo_count (length packet) (n_interfaces n ! k)], n_lo_queue := [packet]\<rparr>"
  have "lo_ready (n1\<lparr>n_lo_queue := []\<rparr>)" using k b position_update [OF k(1)] by (auto simp: lo_ready_def n1_def lo_count_def)
  moreover have "send_packet nic dr dst packet n = obind (dr n1) (\<lambda>n2. Done (Inr (), n2))"
    using k assms(2) q by (simp add: send_packet_def route_def transmit_ipv4_def Let_def n1_def)
  ultimately show ?thesis by (intro exI [of _ n1]) (simp add: same_but_counters_def n1_def q)
qed

lemma drain_empty: "n_lo_queue n = [] \<Longrightarrow> drain_pending nic now f k n = Done n"
  by (cases k) (simp_all add: pop_pending_def)

lemma drain_one:
  assumes "n_lo_queue n = [p]"
  shows "drain_pending nic now (Suc f) 128 n =
    obind (ipv4_input now (tx_at nic now f) p (n\<lparr>n_lo_queue := []\<rparr>)) (drain_pending nic now (Suc f) 127)"
proof -
  have "(128 :: nat) = Suc 127" by simp
  then show ?thesis by (simp only: drain_pending.simps) (simp add: pop_pending_def assms)
qed


lemma lo_delivers:
  assumes "lo_ready n" and "is_loopback dst"
  shows "\<exists>n1. lo_ready n1 \<and> same_but_counters n n1 \<and>
    tx_at nic now (Suc f) dst packet n = obind (obind (ipv4_input now (tx_at nic now f) packet n1) (drain_pending nic now (Suc f) 127)) (\<lambda>n2. Done (Inr (), n2))"
proof -
  obtain n1 where n1: "lo_ready (n1\<lparr>n_lo_queue := []\<rparr>)" "same_but_counters n (n1\<lparr>n_lo_queue := []\<rparr>)" "n_lo_queue n1 = [packet]"
    "tx_at nic now (Suc f) dst packet n = obind (drain_pending nic now (Suc f) 128 n1) (\<lambda>n2. Done (Inr (), n2))"
    using lo_send [OF assms, of packet nic "drain_pending nic now (Suc f) 128"] by blast
  show ?thesis
    by (intro exI [of _ "n1\<lparr>n_lo_queue := []\<rparr>"] conjI n1(1,2)) (simp only: n1(4) drain_one [OF n1(3)])
qed

lemma segment_slice:
  assumes "length p = unat (total_length h)" and "20 \<le> length p"
  shows "slice_at p 20 (unat (total_length h)) = Done (segment_of p h)" "length (segment_of p h) = length p - 20"
  using assms by (simp_all add: slice_at_def segment_of_def)

lemma socket_addr_collapse [simp]: "\<lparr>sa_ip = sa_ip a, sa_port = sa_port a\<rparr> = a"
  by (cases a) simp

lemma datagram_input:
  assumes "length payload \<le> 65507"
  shows "ipv4_input now tx (build_datagram src dst payload) n =
    (case find_bound (sa_ip dst) (sa_port dst) (n_sockets n) of None \<Rightarrow> Done n | Some h \<Rightarrow> Done (push_rx h (src, payload) n))"
proof -
  define p where "p = build_datagram src dst payload"
  obtain h u where R: "ip_header_parse p = Some h" "unat (total_length h) = 28 + length payload" "length p = 28 + length payload"
    "protocol h = PROTO_UDP" "ip_src h = sa_ip src" "ip_dst h = sa_ip dst" "udp_parse (segment_of p h) = Some u"
    "udp_src_port u = sa_port src" "udp_dst_port u = sa_port dst" "unat (udp_length u) = 8 + length payload" "drop 8 (segment_of p h) = payload"
    using datagram_received [OF assms, of src dst] unfolding p_def by blast
  have l: "length p = unat (total_length h)" "20 \<le> length p" using R by simp_all
  have seg: "length (segment_of p h) = 8 + length payload" using segment_slice(2) [OF l] R(3) by simp
  have "slice_at (segment_of p h) 8 (8 + length payload) = Done payload" using R(11) seg by (simp add: slice_at_def)
  moreover have "slice_at p 20 (28 + length payload) = Done (segment_of p h)" using segment_slice(1) [OF l] R(2) by simp
  ultimately show ?thesis unfolding p_def [symmetric] by (simp add: R ipv4_input_def udp_input_def seg split: option.splits)
qed



definition wit_nic :: nic where "wit_nic i packet = (Inl DriverError, i)"

definition wit_udp :: net where
  "wit_udp = snd (sock_bind 1 \<lparr>sa_ip = ANY, sa_port = 53\<rparr> (snd (sock_create Datagram (snd (sock_create Datagram (net_init net_boot))))))"

lemma wit_udp_eq: "wit_udp = \<lparr>n_interfaces = [loopback_new\<lparr>if_up := True\<rparr>], n_lo_queue = [],
    n_sockets = \<lparr>st_sockets = [Some \<lparr>so_handle = 0, so_kind = Datagram, so_bound = None, so_rx = []\<rparr>,
      Some \<lparr>so_handle = 1, so_kind = Datagram, so_bound = Some \<lparr>sa_ip = ANY, sa_port = 53\<rparr>, so_rx = []\<rparr>], st_next_port = 49152\<rparr>,
    n_echo = [], n_tcp = tcp_table_new\<rparr>"
  by (simp add: wit_udp_def sock_bind_def sock_create_def net_init_def net_boot_def net_register_def Let_def put_socket_def
      slot_any_def slot_get_def slot_put_def)


end
