(* ===== verification/TcpLoop.thy ===== *)
theory TcpLoop
  imports NetStack
begin

text \<open>
  Connections over the loopback link (src/net/tcp.rs with loopback.rs and mod.rs): every segment that is emitted is handled, with all the segments it
  provokes, before the sender continues. The theory composes the operations of NetStack into whole sessions: the handshake, data in both
  directions, the closing of a connection, and what happens to a segment nobody expects.
\<close>

section \<open>A segment and what it provokes\<close>

definition header_of :: "u32 \<Rightarrow> u32 \<Rightarrow> u8 \<Rightarrow> tcp_header \<Rightarrow> bool" where
  "header_of seq ack fl th \<longleftrightarrow> th_seq th = seq \<and> th_ack th = ack \<and> th_flags th = fl"

definition put_ep :: "nat \<Rightarrow> tcp_endpoint \<Rightarrow> tcp_table \<Rightarrow> tcp_table" where
  "put_ep h ep t = t\<lparr>endpoints := slot_put h ep (endpoints t)\<rparr>"

abbreviation ep_at :: "nat \<Rightarrow> tcp_table \<Rightarrow> tcp_endpoint option" where
  "ep_at h t \<equiv> slot_get h (endpoints t)"

lemma n_tcp_put_endpoint [simp]:
  "n_tcp (put_endpoint h ep n) = put_ep h ep (n_tcp n)" "n_sockets (put_endpoint h ep n) = n_sockets n"
  "n_echo (put_endpoint h ep n) = n_echo n" "lo_ready (put_endpoint h ep n) = lo_ready n" "n_lo_queue (put_endpoint h ep n) = n_lo_queue n"
  by (simp_all add: put_endpoint_def put_ep_def lo_ready_def)

lemma lo_ready_tcp [simp]: "lo_ready (n\<lparr>n_tcp := t\<rparr>) = lo_ready n"
  by (simp add: lo_ready_def)

lemma tcp_arrives:
  assumes "length payload \<le> 65495" and "take_bit 6 fl = fl"
  shows "\<exists>th. header_of seq ack fl th \<and>
    ipv4_input now tx (tcp_packet local remote seq ack fl payload) n = tcp_segment now tx th payload remote local n"
proof -
  define p where "p = tcp_packet local remote seq ack fl payload"
  obtain h th where R: "ip_header_parse p = Some h" "unat (total_length h) = 40 + length payload" "length p = 40 + length payload"
    "protocol h = PROTO_TCP" "ip_src h = sa_ip local" "ip_dst h = sa_ip remote" "tcp_parse (segment_of p h) = Some th"
    "th_src_port th = sa_port local" "th_dst_port th = sa_port remote" "th_seq th = seq" "th_ack th = ack" "th_flags th = fl"
    "th_data_offset_words th = 5" "drop 20 (segment_of p h) = payload"
    using tcp_received [OF assms, of local remote seq ack] unfolding p_def by blast
  have l: "length p = unat (total_length h)" "20 \<le> length p" using R by simp_all
  have seg: "length (segment_of p h) = 20 + length payload" using segment_slice(2) [OF l] R(3) by simp
  have "slice_at p 20 (40 + length payload) = Done (segment_of p h)" using segment_slice(1) [OF l] R(2) by simp
  then have "ipv4_input now tx p n = tcp_segment now tx th payload remote local n"
    by (simp add: R ipv4_input_def tcp_input_def seg PROTO_TCP_def PROTO_UDP_def PROTO_ICMP_def)
  with R show ?thesis unfolding p_def [symmetric] header_of_def by blast
qed

text \<open>The segment, handled together with everything sent in answer to it, turns the connection table \<open>t\<close> into \<open>t'\<close> and leaves the rest alone.\<close>

definition turns_into :: "nic \<Rightarrow> u64 \<Rightarrow> nat \<Rightarrow> socket_addr \<Rightarrow> socket_addr \<Rightarrow> u32 \<Rightarrow> u32 \<Rightarrow> u8 \<Rightarrow> u8 list \<Rightarrow> tcp_table \<Rightarrow> tcp_table \<Rightarrow> bool" where
  "turns_into nic now f local remote seq ack fl payload t t' \<longleftrightarrow>
     (\<forall>n. lo_ready n \<and> n_tcp n = t \<longrightarrow>
        (\<exists>n2. emit (tx_at nic now f) local remote seq ack fl payload n = Done (Inr (), n2)
           \<and> lo_ready n2 \<and> n_tcp n2 = t' \<and> n_sockets n2 = n_sockets n \<and> n_echo n2 = n_echo n))"

lemma turns_intoI:
  assumes "is_loopback (sa_ip remote)" and "length payload \<le> 65495" and "take_bit 6 fl = fl"
    and "\<And>th n. header_of seq ack fl th \<Longrightarrow> lo_ready n \<Longrightarrow> n_tcp n = t \<Longrightarrow>
      \<exists>n2. tcp_segment now (tx_at nic now f) th payload remote local n = Done n2
         \<and> lo_ready n2 \<and> n_tcp n2 = t' \<and> n_sockets n2 = n_sockets n \<and> n_echo n2 = n_echo n"
  shows "turns_into nic now (Suc f) local remote seq ack fl payload t t'"
  unfolding turns_into_def
proof (intro allI impI)
  fix n assume n: "lo_ready n \<and> n_tcp n = t"
  obtain m where m: "lo_ready m" "same_but_counters n m"
    "tx_at nic now (Suc f) (sa_ip remote) (tcp_packet local remote seq ack fl payload) n =
      obind (obind (ipv4_input now (tx_at nic now f) (tcp_packet local remote seq ack fl payload) m) (drain_pending nic now (Suc f) 127)) (\<lambda>n2. Done (Inr (), n2))"
    using lo_delivers [of n "sa_ip remote" nic now f "tcp_packet local remote seq ack fl payload"] n assms(1) by blast
  have mt: "n_tcp m = t" "n_sockets m = n_sockets n" "n_echo m = n_echo n" using m(2) n by (simp_all add: same_but_counters_def)
  obtain th where th: "header_of seq ack fl th"
    "ipv4_input now (tx_at nic now f) (tcp_packet local remote seq ack fl payload) m = tcp_segment now (tx_at nic now f) th payload remote local m"
    using tcp_arrives [OF assms(2,3)] by blast
  obtain n2 where n2: "tcp_segment now (tx_at nic now f) th payload remote local m = Done n2" "lo_ready n2" "n_tcp n2 = t'" "n_sockets n2 = n_sockets m" "n_echo n2 = n_echo m"
    using assms(4) [OF th(1) m(1) mt(1)] by blast
  have "n_lo_queue n2 = []" using n2(2) by (simp add: lo_ready_def)
  then have "emit (tx_at nic now (Suc f)) local remote seq ack fl payload n = Done (Inr (), n2)"
    by (simp add: emit_def m(3) th(2) n2(1) drain_empty)
  with n2 mt show "\<exists>n2. emit (tx_at nic now (Suc f)) local remote seq ack fl payload n = Done (Inr (), n2)
     \<and> lo_ready n2 \<and> n_tcp n2 = t' \<and> n_sockets n2 = n_sockets n \<and> n_echo n2 = n_echo n" by auto
qed

text \<open>The three ways a segment is handled: by an endpoint that stays silent, by one that answers, and by a listener that answers a SYN.\<close>

lemma turns_silent:
  assumes "is_loopback (sa_ip remote)" and "length payload \<le> 65495" and "take_bit 6 fl = fl"
    and "find_endpoint remote local t = Some i" and "ep_at i t = Some ep"
    and "\<And>th. header_of seq ack fl th \<Longrightarrow> process_segment now th payload ep = (ep1, None)"
  shows "turns_into nic now (Suc f) local remote seq ack fl payload t (put_ep i ep1 t)"
  using assms(4-6) by (intro turns_intoI assms(1-3)) (simp add: tcp_segment_def)

lemma ignore_emit:
  assumes "turns_into nic now f local remote seq ack fl payload t t'" and "lo_ready n" and "n_tcp n = t"
  shows "\<exists>n2. ignore_result (emit (tx_at nic now f) local remote seq ack fl payload n) = Done n2
    \<and> lo_ready n2 \<and> n_tcp n2 = t' \<and> n_sockets n2 = n_sockets n \<and> n_echo n2 = n_echo n"
  using assms unfolding turns_into_def ignore_result_def by fastforce

lemma turns_answered:
  assumes "is_loopback (sa_ip remote)" and "length payload \<le> 65495" and "take_bit 6 fl = fl"
    and "find_endpoint remote local t = Some i" and "ep_at i t = Some ep"
    and "\<And>th. header_of seq ack fl th \<Longrightarrow> process_segment now th payload ep = (ep1, Some (s, a, g))"
    and "turns_into nic now f remote local s a g [] (put_ep i ep1 t) t'"
  shows "turns_into nic now (Suc f) local remote seq ack fl payload t t'"
proof (intro turns_intoI assms(1-3))
  fix th n assume "header_of seq ack fl th" "lo_ready n" "n_tcp n = t"
  then show "\<exists>n2. tcp_segment now (tx_at nic now f) th payload remote local n = Done n2
     \<and> lo_ready n2 \<and> n_tcp n2 = t' \<and> n_sockets n2 = n_sockets n \<and> n_echo n2 = n_echo n"
    using assms(4-6) ignore_emit [OF assms(7), of "put_endpoint i ep1 n"] by (simp add: tcp_segment_def)
qed

lemma turns_spawned:
  assumes "is_loopback (sa_ip remote)" and "find_endpoint remote local t = None" and "find_listener remote t = Some l"
    and "child = new_child_for_syn now remote local seq"
    and "turns_into nic now f remote local (snd_una child) (rcv_nxt child) (TCP_SYN OR TCP_ACK) [] (spawn_child remote child t) t'"
  shows "turns_into nic now (Suc f) local remote seq ack TCP_SYN [] t t'"
proof (intro turns_intoI assms(1))
  fix th n assume "header_of seq ack TCP_SYN th" "lo_ready n" "n_tcp n = t"
  then show "\<exists>n2. tcp_segment now (tx_at nic now f) th [] remote local n = Done n2
     \<and> lo_ready n2 \<and> n_tcp n2 = t' \<and> n_sockets n2 = n_sockets n \<and> n_echo n2 = n_echo n"
    using assms(2,3) ignore_emit [OF assms(5), of "n\<lparr>n_tcp := spawn_child remote child t\<rparr>"]
    by (simp add: tcp_segment_def header_of_def assms(4) Let_def TCP_SYN_def TCP_ACK_def)
qed (simp_all add: TCP_SYN_def)


section \<open>The table\<close>

lemma tcp_allocate_facts:
  assumes "tcp_allocate ep t = (h, t')"
  shows "ep_at h t = None" "ep_at j t' = (if j = h then Some ep else ep_at j t)"
    and "find_endpoint l r t = None \<Longrightarrow> find_endpoint l r t' = (if connects l r ep then Some h else None)"
    and "find_endpoint l r t = Some i \<Longrightarrow> \<not> connects l r ep \<Longrightarrow> find_endpoint l r t' = Some i"
    and "find_listener l t = Some i \<Longrightarrow> \<not> listens_on l ep \<Longrightarrow> find_listener l t' = Some i"
proof -
  obtain es where es: "slot_alloc ep (endpoints t) = (h, es)" "t' = t\<lparr>endpoints := es\<rparr>" using assms by (auto simp: tcp_allocate_def split: prod.splits)
  show "ep_at h t = None" "ep_at j t' = (if j = h then Some ep else ep_at j t)" using slot_get_alloc [OF es(1)] es(2) by simp_all
  show "find_endpoint l r t = None \<Longrightarrow> find_endpoint l r t' = (if connects l r ep then Some h else None)"
    "find_endpoint l r t = Some i \<Longrightarrow> \<not> connects l r ep \<Longrightarrow> find_endpoint l r t' = Some i"
    "find_listener l t = Some i \<Longrightarrow> \<not> listens_on l ep \<Longrightarrow> find_listener l t' = Some i"
    using slot_find_alloc [OF es(1)] es(2) by (simp_all add: find_endpoint_def find_listener_def)
qed

lemma ep_at_put: "ep_at h t \<noteq> None \<Longrightarrow> ep_at j (put_ep h ep t) = (if j = h then Some ep else ep_at j t)"
  by (simp add: put_ep_def slot_get_put)

lemma put_same: "ep_at h t = Some ep \<Longrightarrow> put_ep h ep t = t"
  by (auto simp: put_ep_def slot_put_def slot_get_def list_update_same_conv split: if_splits)

lemma find_endpoint_put:
  "ep_at h t = Some ep0 \<Longrightarrow> ep_local ep = ep_local ep0 \<Longrightarrow> ep_remote ep = ep_remote ep0 \<Longrightarrow> find_endpoint l r (put_ep h ep t) = find_endpoint l r t"
  by (simp add: find_endpoint_def put_ep_def slot_find_put [where y = ep0] connects_def)

lemma find_listener_put:
  "ep_at h t = Some ep0 \<Longrightarrow> listens_on l ep = listens_on l ep0 \<Longrightarrow> find_listener l (put_ep h ep t) = find_listener l t"
  by (simp add: find_listener_def put_ep_def slot_find_put [where y = ep0])

lemma find_listener_Some: "find_listener l t = Some i \<Longrightarrow> \<exists>ep. ep_at i t = Some ep \<and> listens_on l ep"
  unfolding find_listener_def using slot_find_Some by blast

text \<open>Two endpoints of one established connection, each found by the other's segments and neither owing the other a byte.\<close>

definition connected :: "nat \<Rightarrow> nat \<Rightarrow> tcp_table \<Rightarrow> bool" where
  "connected i j t \<longleftrightarrow>
     (case (ep_at i t, ep_at j t) of
        (Some a, Some b) \<Rightarrow>
          i \<noteq> j \<and> ep_state a = Established \<and> ep_state b = Established \<and> ep_remote a = ep_local b \<and> ep_remote b = ep_local a
          \<and> is_loopback (sa_ip (ep_local a)) \<and> is_loopback (sa_ip (ep_local b))
          \<and> find_endpoint (ep_local a) (ep_local b) t = Some i \<and> find_endpoint (ep_local b) (ep_local a) t = Some j
          \<and> snd_nxt a = rcv_nxt b \<and> snd_nxt b = rcv_nxt a
      | _ \<Rightarrow> False)"

lemma connected_sym: "connected i j t \<Longrightarrow> connected j i t"
  by (auto simp: connected_def split: option.splits)

section \<open>The handshake\<close>

lemma spawn_child_eq:
  assumes "find_listener remote t = Some l" and "ep_at l t = Some lp" and "ep_state child \<noteq> Listen"
    and "tcp_allocate child t = (c, t1)"
  shows "spawn_child remote child t = put_ep l (lp\<lparr>accept_queue := accept_queue lp @ [c]\<rparr>) t1" "l \<noteq> c" "ep_at l t1 = Some lp"
proof -
  note T = tcp_allocate_facts [OF assms(4)]
  have "\<not> listens_on remote child" using assms(3) by (simp add: listens_on_def)
  then have fl: "find_listener remote t1 = Some l" using T(5) assms(1) by simp
  show lc: "l \<noteq> c" using T(1) assms(2) by auto
  then show l1: "ep_at l t1 = Some lp" using T(2) [of l] assms(2) by simp
  show "spawn_child remote child t = put_ep l (lp\<lparr>accept_queue := accept_queue lp @ [c]\<rparr>) t1"
    by (simp add: spawn_child_def assms(4) fl l1 put_ep_def)
qed

text \<open>The table after the SYN: the client's endpoint, the child of the listener, and the child in the listener's queue.\<close>

lemma handshake_table:
  fixes local remote :: socket_addr and cl :: tcp_endpoint
  assumes "find_listener remote t = Some l" and "find_endpoint remote local t = None" and "find_endpoint local remote t = None"
    and "local \<noteq> remote" and "cl = new_active now local remote" and "tcp_allocate cl t = (h, t1)"
    and "ch = new_child_for_syn now remote local seq" and "ep_at l t = Some lp"
  obtains c where "ep_at h (spawn_child remote ch t1) = Some cl" "ep_at c (spawn_child remote ch t1) = Some ch" "h \<noteq> c" "h \<noteq> l" "l \<noteq> c"
    "ep_at l (spawn_child remote ch t1) = Some (lp\<lparr>accept_queue := accept_queue lp @ [c]\<rparr>)"
    "find_endpoint local remote (spawn_child remote ch t1) = Some h" "find_endpoint remote local (spawn_child remote ch t1) = Some c"
    "find_endpoint remote local t1 = None" "find_listener remote t1 = Some l"
proof -
  obtain c t2 where a2: "tcp_allocate ch t1 = (c, t2)" by fastforce
  note A = tcp_allocate_facts [OF assms(6)] and B = tcp_allocate_facts [OF a2]
  have sides: "ep_local cl = local" "ep_remote cl = remote" "ep_state cl = SynSent" "ep_local ch = remote" "ep_remote ch = local" "ep_state ch = SynRcvd"
    by (simp_all add: assms(5,7) new_active_def new_child_for_syn_def endpoint_in_def Let_def)
  have con: "connects local remote cl" "\<not> connects remote local cl" "connects remote local ch" "\<not> connects local remote ch"
    using assms(4) sides by (auto simp: connects_def)
  have nl: "\<not> listens_on remote cl" using sides by (simp add: listens_on_def)
  have h1: "ep_at h t1 = Some cl" using A(2) [of h] by simp
  have lh: "h \<noteq> l" using A(1) assms(8) by auto
  have l1: "ep_at l t1 = Some lp" using A(2) [of l] lh assms(8) by simp
  have f1: "find_listener remote t1 = Some l" "find_endpoint remote local t1 = None" "find_endpoint local remote t1 = Some h"
    using A(3,5) assms(1-3) con nl by simp_all
  note S = spawn_child_eq [OF f1(1) l1 _ a2]
  have s: "spawn_child remote ch t1 = put_ep l (lp\<lparr>accept_queue := accept_queue lp @ [c]\<rparr>) t2" "l \<noteq> c" "ep_at l t2 = Some lp" using S sides by simp_all
  have hc: "h \<noteq> c" using B(1) h1 by auto
  have at: "ep_at j (spawn_child remote ch t1) = (if j = l then Some (lp\<lparr>accept_queue := accept_queue lp @ [c]\<rparr>) else ep_at j t2)" for j
    using s by (simp add: ep_at_put)
  have f2: "find_endpoint local remote t2 = Some h" "find_endpoint remote local t2 = Some c" using B(3,4) f1 con by simp_all
  have fs: "find_endpoint a b (spawn_child remote ch t1) = find_endpoint a b t2" for a b using s by (simp add: find_endpoint_put)
  show thesis
    using at [of h] at [of c] at [of l] B(2) [of h] B(2) [of c] h1 hc lh s(2) f1 f2 fs by (intro that [of c]) simp_all
qed


lemmas tcp_flag_defs = TCP_SYN_def TCP_ACK_def TCP_FIN_def TCP_RST_def TCP_PSH_def

lemma flags_fit [simp]:
  "take_bit 6 TCP_SYN = TCP_SYN" "take_bit 6 TCP_ACK = TCP_ACK" "take_bit 6 TCP_RST = TCP_RST" "take_bit 6 TCP_PSH = TCP_PSH" "take_bit 6 TCP_FIN = TCP_FIN" "take_bit 6 (TCP_SYN OR TCP_ACK) = TCP_SYN OR TCP_ACK"
  "take_bit 6 (TCP_ACK OR TCP_PSH) = TCP_ACK OR TCP_PSH" "take_bit 6 (TCP_FIN OR TCP_ACK) = TCP_FIN OR TCP_ACK"
  "take_bit 6 (TCP_RST OR TCP_ACK) = TCP_RST OR TCP_ACK"
  by (simp_all add: tcp_flag_defs)

lemma handshake:
  fixes local remote :: socket_addr and cl :: tcp_endpoint
  assumes "find_listener remote t = Some l" and "find_endpoint remote local t = None" and "find_endpoint local remote t = None"
    and "local \<noteq> remote" and "cl = new_active now local remote" and "tcp_allocate cl t = (h, t1)" and "ep_at l t = Some lp"
    and lo: "is_loopback (sa_ip local)" "is_loopback (sa_ip remote)"
  obtains t' c a b where "turns_into nic now (Suc (Suc (Suc f))) local remote (snd_una cl) 0 TCP_SYN [] t1 t'" "connected h c t'"
    "ep_at h t' = Some a" "rcv_buf a = []" "ep_at c t' = Some b" "rcv_buf b = []" "h \<noteq> l" "l \<noteq> c"
    "ep_at l t' = Some (lp\<lparr>accept_queue := accept_queue lp @ [c]\<rparr>)"
proof -
  define ch where "ch = new_child_for_syn now remote local (snd_una cl)"
  define s where "s = spawn_child remote ch t1"
  obtain c where H: "ep_at h s = Some cl" "ep_at c s = Some ch" "h \<noteq> c" "h \<noteq> l" "l \<noteq> c"
    "ep_at l s = Some (lp\<lparr>accept_queue := accept_queue lp @ [c]\<rparr>)" "find_endpoint local remote s = Some h" "find_endpoint remote local s = Some c"
    "find_endpoint remote local t1 = None" "find_listener remote t1 = Some l"
    using handshake_table [OF assms(1-6) ch_def assms(7)] unfolding s_def by blast
  define cl1 where "cl1 = cl\<lparr>snd_una := rcv_nxt ch, rcv_nxt := snd_una ch + 1, ep_state := Established\<rparr>"
  define ch1 where "ch1 = ch\<lparr>snd_una := snd_una ch + 1, snd_nxt := snd_una ch + 1, ep_state := Established\<rparr>"
  define s1 where "s1 = put_ep h cl1 s"
  have cl: "ep_state cl = SynSent" "snd_nxt cl = snd_una cl + 1" "rcv_buf cl = []" "ep_local cl = local" "ep_remote cl = remote"
    and ch: "ep_state ch = SynRcvd" "snd_nxt ch = snd_una ch" "rcv_nxt ch = snd_una cl + 1" "rcv_buf ch = []" "ep_local ch = remote" "ep_remote ch = local"
    by (simp_all add: assms(5) ch_def new_active_def new_child_for_syn_def endpoint_in_def Let_def)
  have f1: "find_endpoint a b s1 = find_endpoint a b s" for a b unfolding s1_def by (rule find_endpoint_put [OF H(1)]) (simp_all add: cl1_def)
  have at1: "ep_at j s1 = (if j = h then Some cl1 else ep_at j s)" for j unfolding s1_def using H(1) by (simp add: ep_at_put)
  have "ep_at c s1 = Some ch" using at1 [of c] H by simp
  then have f2: "find_endpoint a b (put_ep c ch1 s1) = find_endpoint a b s1" for a b by (rule find_endpoint_put) (simp_all add: ch1_def)
  have at2: "ep_at j (put_ep c ch1 s1) = (if j = c then Some ch1 else ep_at j s1)" for j using \<open>ep_at c s1 = Some ch\<close> by (simp add: ep_at_put)
  have p1: "process_segment now th [] ch = (ch1, None)" if "header_of (snd_nxt cl1) (rcv_nxt cl1) TCP_ACK th" for th
    using that by (simp add: ch process_segment_def header_of_def cl1_def ch1_def tcp_flag_defs)
  have p2: "process_segment now th [] cl = (cl1, Some (snd_nxt cl1, rcv_nxt cl1, TCP_ACK))" if "header_of (snd_una ch) (rcv_nxt ch) (TCP_SYN OR TCP_ACK) th" for th
    using that by (simp add: cl process_segment_def header_of_def cl1_def Let_def tcp_flag_defs)
  have "turns_into nic now (Suc f) local remote (snd_nxt cl1) (rcv_nxt cl1) TCP_ACK [] s1 (put_ep c ch1 s1)"
    using H(8) f1 by (intro turns_silent [OF lo(2) _ _ _ \<open>ep_at c s1 = Some ch\<close> p1]) simp_all
  then have "turns_into nic now (Suc (Suc f)) remote local (snd_una ch) (rcv_nxt ch) (TCP_SYN OR TCP_ACK) [] s (put_ep c ch1 s1)"
    unfolding s1_def by (intro turns_answered [OF lo(1) _ _ H(7,1) p2]) simp_all
  then have "turns_into nic now (Suc (Suc (Suc f))) local remote (snd_una cl) 0 TCP_SYN [] t1 (put_ep c ch1 s1)"
    unfolding s_def by (intro turns_spawned [OF lo(2) H(9,10) ch_def]) simp
  moreover have "connected h c (put_ep c ch1 s1)"
    using at2 [of h] at2 [of c] at1 [of h] H f1 f2 cl ch lo by (simp add: connected_def cl1_def ch1_def)
  moreover have "ep_at h (put_ep c ch1 s1) = Some cl1" "rcv_buf cl1 = []" "ep_at c (put_ep c ch1 s1) = Some ch1" "rcv_buf ch1 = []"
    using at2 [of h] at2 [of c] at1 [of h] H cl ch by (simp_all add: cl1_def ch1_def)
  moreover have "ep_at l (put_ep c ch1 s1) = Some (lp\<lparr>accept_queue := accept_queue lp @ [c]\<rparr>)" using at2 [of l] at1 [of l] H by simp
  ultimately show thesis using H(4,5) by (intro that)
qed

section \<open>Data and closing\<close>

lemma send_connected:
  assumes "connected i j t" and "ep_at i t = Some a" and "ep_at j t = Some b" and "length data \<le> 65495"
    and "a1 = a\<lparr>snd_nxt := snd_nxt a + word_of_nat (length data), retx := rx\<rparr>"
  obtains t' a' b' where
    "turns_into nic now (Suc (Suc f)) (ep_local a) (ep_remote a) (snd_nxt a) (rcv_nxt a) (TCP_ACK OR TCP_PSH) data (put_ep i a1 t) t'"
    "connected i j t'" "ep_at i t' = Some a'" "ep_at j t' = Some b'" "rcv_buf a' = rcv_buf a" "rcv_buf b' = rcv_buf b @ data"
    "\<And>k. k \<noteq> i \<Longrightarrow> k \<noteq> j \<Longrightarrow> ep_at k t' = ep_at k t"
proof -
  have C: "i \<noteq> j" "ep_state a = Established" "ep_state b = Established" "ep_remote a = ep_local b" "ep_remote b = ep_local a"
    "is_loopback (sa_ip (ep_local a))" "is_loopback (sa_ip (ep_local b))"
    "find_endpoint (ep_local a) (ep_local b) t = Some i" "find_endpoint (ep_local b) (ep_local a) t = Some j"
    "snd_nxt a = rcv_nxt b" "snd_nxt b = rcv_nxt a"
    using assms(1-3) by (simp_all add: connected_def)
  define t1 where "t1 = put_ep i a1 t"
  define b0 where "b0 = (if data = [] then b else b\<lparr>rcv_buf := rcv_buf b @ data, rcv_nxt := rcv_nxt b + word_of_nat (length data)\<rparr>)"
  define b1 where "b1 = process_ack now (rcv_nxt a) b0"
  have a1: "ep_local a1 = ep_local a" "ep_remote a1 = ep_remote a" "ep_state a1 = Established" "snd_nxt a1 = rcv_nxt b0" "rcv_nxt a1 = rcv_nxt a"
    and b1: "ep_local b1 = ep_local b" "ep_remote b1 = ep_remote b" "ep_state b1 = Established" "snd_nxt b1 = rcv_nxt a" "rcv_nxt b1 = rcv_nxt b0"
      "rcv_buf b1 = rcv_buf b @ data" by (simp_all add: C assms(5) b1_def b0_def)
  have at1: "ep_at k t1 = (if k = i then Some a1 else ep_at k t)" for k unfolding t1_def using assms(2) by (simp add: ep_at_put)
  have j1: "ep_at j t1 = Some b" and i1: "ep_at i t1 = Some a1" using at1 C(1) assms(3) by simp_all
  have f1: "find_endpoint x y t1 = find_endpoint x y t" for x y unfolding t1_def by (rule find_endpoint_put [OF assms(2)]) (simp_all add: assms(5))
  define t2 where "t2 = put_ep j b1 t1"
  have at2: "ep_at k t2 = (if k = j then Some b1 else ep_at k t1)" for k unfolding t2_def using j1 by (simp add: ep_at_put)
  have i2: "ep_at i t2 = Some a1" using at2 C(1) i1 by simp
  have f2: "find_endpoint x y t2 = find_endpoint x y t" for x y unfolding t2_def f1 [symmetric] by (rule find_endpoint_put [OF j1]) (simp_all add: b1)
  have ps: "process_segment now th data b = (b1, if data = [] then None else Some (snd_nxt b1, rcv_nxt b1, TCP_ACK))"
    if "header_of (snd_nxt a) (rcv_nxt a) (TCP_ACK OR TCP_PSH) th" for th
    using that by (simp add: C process_segment_def header_of_def b1_def b0_def Let_def take_data_def tcp_flag_defs)
  define a2 where "a2 = process_ack now (rcv_nxt b1) a1"
  have a2: "ep_local a2 = ep_local a" "ep_remote a2 = ep_remote a" "ep_state a2 = Established" "snd_nxt a2 = rcv_nxt b0" "rcv_nxt a2 = rcv_nxt a"
    "rcv_buf a2 = rcv_buf a" "rcv_buf a1 = rcv_buf a" using a1 by (simp_all add: a2_def assms(5))
  have pa: "process_segment now th [] a1 = (a2, None)" if "header_of (snd_nxt b1) (rcv_nxt b1) TCP_ACK th" for th
    using that by (simp add: a1 process_segment_def header_of_def a2_def Let_def take_data_def tcp_flag_defs)
  have con: "connected i j (put_ep i x t2)" if "x \<in> {a1, a2}" for x
    using that C at2 [of j] f2 a1 b1 a2 by (auto simp: connected_def ep_at_put i2 find_endpoint_put [OF i2])
  have fj: "find_endpoint (ep_remote a) (ep_local a) t1 = Some j" and fi: "find_endpoint (ep_local a) (ep_remote a) t2 = Some i" using C f1 f2 by simp_all
  show thesis
  proof (cases "data = []")
    case True
    have "turns_into nic now (Suc (Suc f)) (ep_local a) (ep_remote a) (snd_nxt a) (rcv_nxt a) (TCP_ACK OR TCP_PSH) data t1 t2"
      unfolding t2_def using C True ps by (intro turns_silent [OF _ _ _ fj j1]) simp_all
    with True show thesis using con [of a1] at2 at1 i2 a2(7) b1(6) unfolding t1_def by (intro that [of t2 a1 b1]) (simp_all add: put_same)
  next
    case False
    have "turns_into nic now (Suc f) (ep_remote a) (ep_local a) (snd_nxt b1) (rcv_nxt b1) TCP_ACK [] t2 (put_ep i a2 t2)"
      using C by (intro turns_silent [OF _ _ _ fi i2 pa]) simp_all
    then have "turns_into nic now (Suc (Suc f)) (ep_local a) (ep_remote a) (snd_nxt a) (rcv_nxt a) (TCP_ACK OR TCP_PSH) data t1 (put_ep i a2 t2)"
      unfolding t2_def using C False ps assms(4) by (intro turns_answered [OF _ _ _ fj j1]) simp_all
    then show thesis using con [of a2] at2 at1 i2 a2 b1 C(1) unfolding t1_def by (intro that [of "put_ep i a2 t2" a2 b1]) (simp_all add: ep_at_put)
  qed
qed


lemma close_connected:
  assumes "connected i j t" and "ep_at i t = Some a" and "ep_at j t = Some b"
    and "a1 = a\<lparr>ep_state := FinWait1, snd_nxt := snd_nxt a + 1\<rparr>"
  obtains t' a' b' where
    "turns_into nic now (Suc (Suc f)) (ep_local a) (ep_remote a) (snd_nxt a) (rcv_nxt a) (TCP_FIN OR TCP_ACK) [] (put_ep i a1 t) t'"
    "ep_at i t' = Some a'" "ep_state a' = FinWait2" "ep_at j t' = Some b'" "ep_state b' = CloseWait" "rcv_buf b' = rcv_buf b"
proof -
  have C: "i \<noteq> j" "ep_state a = Established" "ep_state b = Established" "ep_remote a = ep_local b" "ep_remote b = ep_local a"
    "is_loopback (sa_ip (ep_local a))" "is_loopback (sa_ip (ep_local b))"
    "find_endpoint (ep_local a) (ep_local b) t = Some i" "find_endpoint (ep_local b) (ep_local a) t = Some j"
    using assms(1-3) by (simp_all add: connected_def)
  define t1 where "t1 = put_ep i a1 t"
  define b1 where "b1 = (process_ack now (rcv_nxt a) b)\<lparr>rcv_nxt := rcv_nxt b + 1, ep_state := CloseWait\<rparr>"
  have at1: "ep_at k t1 = (if k = i then Some a1 else ep_at k t)" for k unfolding t1_def using assms(2) by (simp add: ep_at_put)
  have j1: "ep_at j t1 = Some b" and i1: "ep_at i t1 = Some a1" using at1 C(1) assms(3) by simp_all
  have f1: "find_endpoint x y t1 = find_endpoint x y t" for x y unfolding t1_def by (rule find_endpoint_put [OF assms(2)]) (simp_all add: assms(4))
  define t2 where "t2 = put_ep j b1 t1"
  have at2: "ep_at k t2 = (if k = j then Some b1 else ep_at k t1)" for k unfolding t2_def using j1 by (simp add: ep_at_put)
  have i2: "ep_at i t2 = Some a1" using at2 C(1) i1 by simp
  have f2: "find_endpoint x y t2 = find_endpoint x y t" for x y unfolding t2_def f1 [symmetric] by (rule find_endpoint_put [OF j1]) (simp_all add: b1_def)
  have ps: "process_segment now th [] b = (b1, Some (snd_nxt b1, rcv_nxt b1, TCP_ACK))"
    if "header_of (snd_nxt a) (rcv_nxt a) (TCP_FIN OR TCP_ACK) th" for th
    using that by (simp add: C process_segment_def header_of_def b1_def Let_def take_data_def tcp_flag_defs)
  have pa: "process_segment now th [] a1 = (a1\<lparr>ep_state := FinWait2\<rparr>, None)" if "header_of (snd_nxt b1) (rcv_nxt b1) TCP_ACK th" for th
    using that by (simp add: assms(4) process_segment_def header_of_def tcp_flag_defs)
  have fj: "find_endpoint (ep_remote a) (ep_local a) t1 = Some j" and fi: "find_endpoint (ep_local a) (ep_remote a) t2 = Some i" using C f1 f2 by simp_all
  have "turns_into nic now (Suc f) (ep_remote a) (ep_local a) (snd_nxt b1) (rcv_nxt b1) TCP_ACK [] t2 (put_ep i (a1\<lparr>ep_state := FinWait2\<rparr>) t2)"
    using C by (intro turns_silent [OF _ _ _ fi i2 pa]) simp_all
  then have "turns_into nic now (Suc (Suc f)) (ep_local a) (ep_remote a) (snd_nxt a) (rcv_nxt a) (TCP_FIN OR TCP_ACK) [] t1 (put_ep i (a1\<lparr>ep_state := FinWait2\<rparr>) t2)"
    unfolding t2_def using C by (intro turns_answered [OF _ _ _ fj j1 ps]) simp_all
  then show thesis using C(1) at2 [of j] i2 unfolding t1_def
    by (intro that [of "put_ep i (a1\<lparr>ep_state := FinWait2\<rparr>) t2" "a1\<lparr>ep_state := FinWait2\<rparr>" b1]) (simp_all add: ep_at_put b1_def)
qed

section \<open>Sessions\<close>

text \<open>The operations on a connected pair, as the programs call them.\<close>

lemma use_turns:
  assumes "turns_into nic now f local remote seq ack fl payload t t'" and "lo_ready n" and "n_tcp n = t"
  obtains n2 where "emit (tx_at nic now f) local remote seq ack fl payload n = Done (Inr (), n2)" "lo_ready n2" "n_tcp n2 = t'"
  using assms unfolding turns_into_def by blast

lemma tcp_send_delivers:
  assumes "lo_ready n" and "connected i j (n_tcp n)" and "endpoint_at j n = Some b" and "length data \<le> 65495"
  obtains n2 b2 where "tcp_send now (tx_at nic now (Suc (Suc f))) i data n = Done (Inr (length data), n2)"
    "lo_ready n2" "connected i j (n_tcp n2)" "endpoint_at j n2 = Some b2" "rcv_buf b2 = rcv_buf b @ data"
proof -
  obtain a where a: "endpoint_at i n = Some a" "ep_state a = Established" using assms(2) by (auto simp: connected_def split: option.splits)
  define seg where "seg = \<lparr>rx_seq = snd_nxt a, rx_flags = TCP_ACK OR TCP_PSH, rx_data = data, rx_send_tick = now, rx_retries = 0\<rparr>"
  define a1 where "a1 = a\<lparr>snd_nxt := snd_nxt a + word_of_nat (length data), retx := retx a @ [seg]\<rparr>"
  obtain t' a' b' where T: "turns_into nic now (Suc (Suc f)) (ep_local a) (ep_remote a) (snd_nxt a) (rcv_nxt a) (TCP_ACK OR TCP_PSH) data (put_ep i a1 (n_tcp n)) t'"
    "connected i j t'" "ep_at j t' = Some b'" "rcv_buf b' = rcv_buf b @ data"
    using send_connected [OF assms(2) a(1) assms(3,4) a1_def] by metis
  obtain n2 where n2: "emit (tx_at nic now (Suc (Suc f))) (ep_local a) (ep_remote a) (snd_nxt a) (rcv_nxt a) (TCP_ACK OR TCP_PSH) data (put_endpoint i a1 n) = Done (Inr (), n2)"
    "lo_ready n2" "n_tcp n2 = t'" using use_turns [OF T(1), of "put_endpoint i a1 n"] assms(1) by (auto simp del: drain_pending.simps)
  have "tcp_send now (tx_at nic now (Suc (Suc f))) i data n = Done (Inr (length data), n2)"
    using a n2(1) by (simp add: tcp_send_def Let_def seg_def a1_def)
  then show thesis using n2 T by (intro that [of n2 b']) simp_all
qed

lemma tcp_close_half:
  assumes "lo_ready n" and "connected i j (n_tcp n)" and "endpoint_at j n = Some b"
  obtains n2 b2 where "tcp_close (tx_at nic now (Suc (Suc f))) i n = Done (Inr (), n2)"
    "lo_ready n2" "endpoint_at j n2 = Some b2" "ep_state b2 = CloseWait" "rcv_buf b2 = rcv_buf b"
proof -
  obtain a where a: "endpoint_at i n = Some a" "ep_state a = Established" using assms(2) by (auto simp: connected_def split: option.splits)
  define a1 where "a1 = a\<lparr>ep_state := FinWait1, snd_nxt := snd_nxt a + 1\<rparr>"
  obtain t' a' b' where T: "turns_into nic now (Suc (Suc f)) (ep_local a) (ep_remote a) (snd_nxt a) (rcv_nxt a) (TCP_FIN OR TCP_ACK) [] (put_ep i a1 (n_tcp n)) t'"
    "ep_at j t' = Some b'" "ep_state b' = CloseWait" "rcv_buf b' = rcv_buf b"
    using close_connected [OF assms(2) a(1) assms(3) a1_def] by metis
  obtain n2 where n2: "emit (tx_at nic now (Suc (Suc f))) (ep_local a) (ep_remote a) (snd_nxt a) (rcv_nxt a) (TCP_FIN OR TCP_ACK) [] (put_endpoint i a1 n) = Done (Inr (), n2)"
    "lo_ready n2" "n_tcp n2 = t'" using use_turns [OF T(1), of "put_endpoint i a1 n"] assms(1) by (auto simp del: drain_pending.simps)
  have "tcp_close (tx_at nic now (Suc (Suc f))) i n = Done (Inr (), n2)" using a n2(1) by (simp add: tcp_close_def Let_def a1_def)
  then show thesis using n2 T by (intro that [of n2 b']) simp_all
qed


lemma tcp_connect_establishes:
  assumes "lo_ready n" and "is_loopback (sa_ip remote)" and "find_listener remote (n_tcp n) = Some l" and "endpoint_at l n = Some lp"
    and "local = \<lparr>sa_ip = LOCALHOST, sa_port = next_ephemeral_port (n_tcp n)\<rparr>" and "local \<noteq> remote"
    and "find_endpoint remote local (n_tcp n) = None" and "find_endpoint local remote (n_tcp n) = None"
  obtains n1 h c b where "tcp_connect now (tx_at nic now (Suc (Suc (Suc f)))) remote n = Done (Inr h, n1)" "lo_ready n1" "connected h c (n_tcp n1)"
    "h \<noteq> l" "l \<noteq> c" "endpoint_at c n1 = Some b" "rcv_buf b = []" "endpoint_at l n1 = Some (lp\<lparr>accept_queue := accept_queue lp @ [c]\<rparr>)"
proof -
  define t where "t = (n_tcp n)\<lparr>next_ephemeral_port := next_port (next_ephemeral_port (n_tcp n))\<rparr>"
  have t: "find_listener x t = find_listener x (n_tcp n)" "find_endpoint x y t = find_endpoint x y (n_tcp n)" "ep_at k t = endpoint_at k n" for x y k
    by (simp_all add: t_def find_listener_def find_endpoint_def)
  define cl where "cl = new_active now local remote"
  obtain h t1 where al: "tcp_allocate cl t = (h, t1)" by fastforce
  have lo: "is_loopback (sa_ip local)" by (simp add: assms(5) LOCALHOST_def)
  obtain t' c a b where H: "turns_into nic now (Suc (Suc (Suc f))) local remote (snd_una cl) 0 TCP_SYN [] t1 t'" "connected h c t'"
    "ep_at h t' = Some a" "ep_at c t' = Some b" "rcv_buf b = []" "h \<noteq> l" "l \<noteq> c" "ep_at l t' = Some (lp\<lparr>accept_queue := accept_queue lp @ [c]\<rparr>)"
    using handshake [of remote t l local cl now h t1 lp] t assms lo cl_def al by metis
  obtain n1 where n1: "emit (tx_at nic now (Suc (Suc (Suc f)))) local remote (snd_una cl) 0 TCP_SYN [] (n\<lparr>n_tcp := t1\<rparr>) = Done (Inr (), n1)" "lo_ready n1" "n_tcp n1 = t'"
    using use_turns [OF H(1), of "n\<lparr>n_tcp := t1\<rparr>"] assms(1) by (auto simp del: drain_pending.simps)
  have "ep_state a \<noteq> Closed" using H(2-4) by (simp add: connected_def)
  then have "tcp_connect now (tx_at nic now (Suc (Suc (Suc f)))) remote n = Done (Inr h, n1)"
    using n1 H(3) by (simp add: tcp_connect_def tcp_pick_port_def Let_def t_def [symmetric] assms(5) [symmetric] cl_def [symmetric] al)
  then show thesis using n1 H by (intro that [of h n1 c b]) simp_all
qed

fun send_all :: "u64 \<Rightarrow> sender \<Rightarrow> nat \<Rightarrow> u8 list list \<Rightarrow> net \<Rightarrow> ((tcp_error + nat) list \<times> net) outcome" where
  "send_all now tx h [] n = Done ([], n)"
| "send_all now tx h (d # ds) n =
     obind (tcp_send now tx h d n) (\<lambda>(r, n1). obind (send_all now tx h ds n1) (\<lambda>(rs, n2). Done (r # rs, n2)))"

lemma send_all_delivers:
  assumes "lo_ready n" and "connected i j (n_tcp n)" and "endpoint_at j n = Some b" and "\<forall>d \<in> set ds. length d \<le> 65495"
  shows "\<exists>n2 b2. send_all now (tx_at nic now (Suc (Suc f))) i ds n = Done (map (\<lambda>d. Inr (length d)) ds, n2)
    \<and> lo_ready n2 \<and> connected i j (n_tcp n2) \<and> endpoint_at j n2 = Some b2 \<and> rcv_buf b2 = rcv_buf b @ concat ds"
  using assms
proof (induction ds arbitrary: n b)
  case (Cons d ds)
  obtain n1 b1 where n1: "tcp_send now (tx_at nic now (Suc (Suc f))) i d n = Done (Inr (length d), n1)"
    "lo_ready n1" "connected i j (n_tcp n1)" "endpoint_at j n1 = Some b1" "rcv_buf b1 = rcv_buf b @ d"
    using tcp_send_delivers [OF Cons.prems(1-3)] Cons.prems(4) by (metis list.set_intros(1))
  have "\<forall>d \<in> set ds. length d \<le> 65495" using Cons.prems(4) by simp
  from Cons.IH [OF n1(2-4) this] n1 show ?case by auto
qed simp


text \<open>
  C16: a whole connection over the loopback link. Connecting to an address with a listener returns a handle once the handshake is over; the listener
  accepts the other end; every send reports its full length; after the client has closed, the server reads exactly the concatenation of what
  was sent, in order, and then the end of the stream. Three nested deliveries are enough, so nothing loops.
\<close>

theorem tcp_session:
  assumes "lo_ready n" and "is_loopback (sa_ip remote)" and "find_listener remote (n_tcp n) = Some l" and "endpoint_at l n = Some lp" and "accept_queue lp = []"
    and "local = \<lparr>sa_ip = LOCALHOST, sa_port = next_ephemeral_port (n_tcp n)\<rparr>" and "local \<noteq> remote"
    and "find_endpoint remote local (n_tcp n) = None" and "find_endpoint local remote (n_tcp n) = None"
    and "\<forall>d \<in> set ds. length d \<le> 65495" and "length (concat ds) \<le> buflen"
  shows "\<exists>h c n1 n2 n3 n4 n5. tcp_connect now (tx_at nic now (3 + f)) remote n = Done (Inr h, n1)
     \<and> tcp_accept l n1 = (Inr c, n2)
     \<and> send_all now (tx_at nic now (3 + f)) h ds n2 = Done (map (\<lambda>d. Inr (length d)) ds, n3)
     \<and> tcp_close (tx_at nic now (3 + f)) h n3 = Done (Inr (), n4)
     \<and> tcp_recv c buflen n4 = (Inr (concat ds), n5) \<and> fst (tcp_recv c buflen n5) = Inr []"
proof -
  obtain n1 h c b where C: "tcp_connect now (tx_at nic now (Suc (Suc (Suc f)))) remote n = Done (Inr h, n1)" "lo_ready n1" "connected h c (n_tcp n1)"
    "h \<noteq> l" "l \<noteq> c" "endpoint_at c n1 = Some b" "rcv_buf b = []" "endpoint_at l n1 = Some (lp\<lparr>accept_queue := accept_queue lp @ [c]\<rparr>)"
    using tcp_connect_establishes [OF assms(1-4,6-9)] by metis
  have "listens_on remote lp" using find_listener_Some [OF assms(3)] assms(4) by auto
  define n2 where "n2 = put_endpoint l (lp\<lparr>accept_queue := []\<rparr>) n1"
  have acc: "tcp_accept l n1 = (Inr c, n2)" using C(8) assms(5) \<open>listens_on remote lp\<close> by (simp add: tcp_accept_def n2_def listens_on_def)
  have at2: "ep_at k (n_tcp n2) = (if k = l then Some (lp\<lparr>accept_queue := []\<rparr>) else endpoint_at k n1)" for k using C(8) by (simp add: n2_def ep_at_put)
  have "find_endpoint x y (n_tcp n2) = find_endpoint x y (n_tcp n1)" for x y unfolding n2_def using find_endpoint_put [OF C(8)] by simp
  then have con: "connected h c (n_tcp n2)" using C(3-5) at2 [of h] at2 [of c] by (simp add: connected_def split: option.splits)
  have b2: "endpoint_at c n2 = Some b" "lo_ready n2" using at2 [of c] C by (simp_all add: n2_def)
  obtain n3 b3 where S: "send_all now (tx_at nic now (Suc (Suc (Suc f)))) h ds n2 = Done (map (\<lambda>d. Inr (length d)) ds, n3)" "lo_ready n3"
    "connected h c (n_tcp n3)" "endpoint_at c n3 = Some b3" "rcv_buf b3 = concat ds"
    using send_all_delivers [OF b2(2) con b2(1) assms(10), of now nic "Suc f"] C(7) by auto
  obtain n4 b4 where K: "tcp_close (tx_at nic now (Suc (Suc (Suc f)))) h n3 = Done (Inr (), n4)" "endpoint_at c n4 = Some b4" "ep_state b4 = CloseWait"
    "rcv_buf b4 = concat ds" using tcp_close_half [OF S(2-4)] S(5) by metis
  define n5 where "n5 = (if concat ds = [] then n4 else put_endpoint c (b4\<lparr>rcv_buf := []\<rparr>) n4)"
  have "tcp_recv c buflen n4 = (Inr (concat ds), n5)" using K assms(11) by (auto simp: tcp_recv_def n5_def simp del: concat_eq_Nil_conv)
  moreover have "fst (tcp_recv c buflen n5) = Inr []" using K by (auto simp: tcp_recv_def n5_def ep_at_put simp del: concat_eq_Nil_conv)
  moreover have "3 + f = Suc (Suc (Suc f))" by simp
  ultimately show ?thesis using C(1) acc S(1) K(1) by metis
qed

definition wit_tcp :: net where
  "wit_tcp = snd (tcp_listen \<lparr>sa_ip = ANY, sa_port = 80\<rparr> 16 (net_init net_boot))"

lemma wit_tcp_eq: "n_tcp wit_tcp = \<lparr>endpoints = [Some (new_listener \<lparr>sa_ip = ANY, sa_port = 80\<rparr> 16)], next_ephemeral_port = 49152\<rparr>" "lo_ready wit_tcp"
  by (simp_all add: wit_tcp_def tcp_listen_def net_init_def net_boot_def net_register_def tcp_table_new_def slot_any_def tcp_allocate_def slot_alloc_def
      Let_def lo_ready_def loopback_new_def)

theorem tcp_session_witness:
  "\<exists>h c n1 n2 n3 n4 n5. tcp_connect 7 (tx_at wit_nic 7 3) \<lparr>sa_ip = LOCALHOST, sa_port = 80\<rparr> wit_tcp = Done (Inr h, n1)
     \<and> tcp_accept 0 n1 = (Inr c, n2) \<and> send_all 7 (tx_at wit_nic 7 3) h [[104, 105], [], [33]] n2 = Done ([Inr 2, Inr 0, Inr 1], n3)
     \<and> tcp_close (tx_at wit_nic 7 3) h n3 = Done (Inr (), n4)
     \<and> tcp_recv c 512 n4 = (Inr [104, 105, 33], n5) \<and> fst (tcp_recv c 512 n5) = Inr []"
proof -
  let ?l = "new_listener \<lparr>sa_ip = ANY, sa_port = 80\<rparr> 16" and ?r = "\<lparr>sa_ip = LOCALHOST, sa_port = 80\<rparr>" and ?c = "\<lparr>sa_ip = LOCALHOST, sa_port = 49152\<rparr>"
  have A: "find_listener ?r (n_tcp wit_tcp) = Some 0" "endpoint_at 0 wit_tcp = Some ?l" "find_endpoint ?r ?c (n_tcp wit_tcp) = None"
    "find_endpoint ?c ?r (n_tcp wit_tcp) = None" "?c = \<lparr>sa_ip = LOCALHOST, sa_port = next_ephemeral_port (n_tcp wit_tcp)\<rparr>"
    by (simp_all add: wit_tcp_eq find_listener_def find_endpoint_def listens_on_def connects_def new_listener_def endpoint_in_def
        is_unspecified_def ANY_def slot_get_def)
  have B: "is_loopback (sa_ip ?r)" "accept_queue ?l = []" "?c \<noteq> ?r" by (simp_all add: LOCALHOST_def new_listener_def endpoint_in_def)
  show ?thesis
    using tcp_session [OF wit_tcp_eq(2) B(1) A(1,2) B(2) A(5) B(3) A(3,4), of "[[104, 105], [], [33]]" 512 7 wit_nic 0] by (simp add: numeral_2_eq_2)
qed


section \<open>Segments nobody expects, malformed packets\<close>

text \<open>A reset that no endpoint expects is answered with a reset: over the loopback link the exchange never ends, whatever the nesting allowed.\<close>

lemma drain_out:
  assumes "n_lo_queue n = [p]"
  shows "drain_pending nic now 0 128 n = Stuck"
proof -
  have "(128 :: nat) = Suc 127" by simp
  then show ?thesis by (simp only: drain_pending.simps) (simp add: pop_pending_def assms)
qed

lemma rst_storm:
  assumes "is_loopback (sa_ip local)" and "is_loopback (sa_ip remote)"
    and "find_endpoint local remote t = None" and "find_endpoint remote local t = None"
  shows "lo_ready n \<Longrightarrow> n_tcp n = t \<Longrightarrow> emit (tx_at nic now f) local remote seq ack TCP_RST [] n = Stuck"
  using assms
proof (induction f arbitrary: n local remote seq ack)
  case 0
  obtain n1 where "n_lo_queue n1 = [tcp_packet local remote seq ack TCP_RST []]"
    "tx_at nic now 0 (sa_ip remote) (tcp_packet local remote seq ack TCP_RST []) n = obind (drain_pending nic now 0 128 n1) (\<lambda>n2. Done (Inr (), n2))"
    using lo_send [OF 0(1,4), of "tcp_packet local remote seq ack TCP_RST []" nic "drain_pending nic now 0 128"] by blast
  then show ?case by (simp only: emit_def drain_out obind.simps)
next
  case (Suc f)
  obtain m where m: "lo_ready m" "same_but_counters n m"
    "tx_at nic now (Suc f) (sa_ip remote) (tcp_packet local remote seq ack TCP_RST []) n =
      obind (obind (ipv4_input now (tx_at nic now f) (tcp_packet local remote seq ack TCP_RST []) m) (drain_pending nic now (Suc f) 127)) (\<lambda>n2. Done (Inr (), n2))"
    using lo_delivers [OF Suc.prems(1,4), of nic now f "tcp_packet local remote seq ack TCP_RST []"] by blast
  obtain th where th: "header_of seq ack TCP_RST th"
    "ipv4_input now (tx_at nic now f) (tcp_packet local remote seq ack TCP_RST []) m = tcp_segment now (tx_at nic now f) th [] remote local m"
    using tcp_arrives [of "[]" TCP_RST seq ack now "tx_at nic now f" local remote m] by auto
  have mt: "n_tcp m = t" using m(2) Suc.prems(2) by (simp add: same_but_counters_def)
  have "emit (tx_at nic now f) remote local ack seq TCP_RST [] m = Stuck" by (rule Suc.IH [OF m(1) mt Suc.prems(4,3,6,5)])
  then have "tcp_segment now (tx_at nic now f) th [] remote local m = Stuck"
    using th(1) Suc.prems(6) mt by (simp add: tcp_segment_def header_of_def tcp_flag_defs ignore_result_def)
  then show ?case by (simp add: emit_def m(3) th(2))
qed

text \<open>
  C26: exactly which UDP packets make the kernel panic on arrival: those whose IPv4 total length is below the 20 bytes of the header, and those whose UDP
  length is below the 8 bytes of its own header. Neither length is checked before it is used as the end of a slice, and no checksum is verified.
\<close>

theorem udp_packet_panics:
  assumes "ip_header_parse p = Some h" and "protocol h = PROTO_UDP" and "unat (total_length h) \<le> length p"
  shows "ipv4_input now tx p n = Panic \<longleftrightarrow> unat (total_length h) < 20
     \<or> (\<exists>u. udp_parse (segment_of p h) = Some u \<and> unat (udp_length u) \<le> length (segment_of p h) \<and> unat (udp_length u) < 8)"
proof (cases "unat (total_length h) < 20")
  case True
  then show ?thesis using assms by (simp add: ipv4_input_def slice_at_def)
next
  case False
  then have "slice_at p 20 (unat (total_length h)) = Done (segment_of p h)" using assms(3) by (simp add: slice_at_def segment_of_def)
  then show ?thesis using assms False by (auto simp: ipv4_input_def udp_input_def slice_at_def split: option.splits)
qed

definition wit_short :: "u8 list" where
  "wit_short = [0x45, 0, 0, 19, 0, 0, 0x40, 0, 64, 17, 0, 0, 127, 0, 0, 1, 127, 0, 0, 1]"

theorem udp_packet_panics_witness: "ipv4_input 7 (tx_at wit_nic 7 1) wit_short wit_tcp = Panic"
proof -
  obtain h where h: "ip_header_parse wit_short = Some h" "protocol h = PROTO_UDP" "unat (total_length h) = 19"
    by (simp add: wit_short_def ip_header_parse_def PROTO_UDP_def Let_def from_be_def)
  have "length wit_short = 20" by (simp add: wit_short_def)
  then show ?thesis using udp_packet_panics [OF h(1,2), of 7 "tx_at wit_nic 7 1" wit_tcp] h(3) by simp
qed

text \<open>An echo request to a loopback address is answered before the sender continues, and the reply carries its identifier, number and payload.\<close>


lemma echo_input:
  assumes "length payload \<le> 65507"
  shows "\<exists>h seg. ip_src h = src \<and> ip_dst h = dst \<and> drop 8 seg = payload
    \<and> (\<exists>c. icmp_parse seg = Some \<lparr>icmp_kind = kind, icmp_code = 0, icmp_checksum = c, icmp_identifier = ident, icmp_sequence = seq\<rparr>)
    \<and> ipv4_input now tx (echo_packet kind src dst ident seq payload) n = icmp_input now tx h seg n"
proof -
  let ?n = "length payload" and ?p = "echo_packet kind src dst ident seq payload"
  define hd where "hd = ip_header_new src dst PROTO_ICMP (word_of_nat (8 + ?n))"
  obtain ck :: u16 where ck: "?p = ip_write hd @ [kind, 0] @ to_be 2 ck @ to_be 2 ident @ to_be 2 seq @ payload"
    by (auto simp: echo_packet_def Let_def hd_def)
  define seg where "seg = [kind, 0] @ to_be 2 ck @ to_be 2 ident @ to_be 2 seq @ payload"
  have len: "length ?p = 28 + ?n" by (simp add: ck)
  have tl: "unat (total_length (ip_sealed hd)) = 28 + ?n"
    using assms unat_total [of "8 + ?n"] by (simp add: hd_def ip_sealed_def ip_header_new_def)
  have "segment_of ?p (ip_sealed hd) = seg" by (simp add: segment_of_def tl ck seg_def)
  then have "slice_at ?p 20 (28 + ?n) = Done seg" using segment_slice(1) [of ?p "ip_sealed hd"] len tl by simp
  moreover have "ip_header_parse ?p = Some (ip_sealed hd)" by (simp add: ck ip_parse_write)
  moreover have "protocol (ip_sealed hd) = PROTO_ICMP" by (simp add: hd_def)
  ultimately have run: "ipv4_input now tx ?p n = icmp_input now tx (ip_sealed hd) seg n"
    by (simp add: ipv4_input_def tl len PROTO_ICMP_def PROTO_UDP_def)
  have "icmp_parse seg = Some \<lparr>icmp_kind = kind, icmp_code = 0, icmp_checksum = ck, icmp_identifier = ident, icmp_sequence = seq\<rparr>"
    by (simp add: icmp_parse_def seg_def to_be_2)
  with run show ?thesis by (intro exI [of _ "ip_sealed hd"] exI [of _ seg]) (auto simp: hd_def seg_def)
qed


lemma ping_loopback:
  assumes "lo_ready n" and "is_loopback src" and "is_loopback dst" and "length payload \<le> 65507"
  shows "\<exists>n2. send_echo_request (tx_at nic now (Suc (Suc f))) src dst ident seq payload n = Done (Inr (), n2) \<and> lo_ready n2
    \<and> n_echo n2 = n_echo n @ [\<lparr>er_from = dst, er_identifier = ident, er_sequence = seq, er_payload = payload, er_recv_tick = now\<rparr>]"
proof -
  define q where "q = echo_packet 8 src dst ident seq payload"
  define r where "r = echo_packet 0 dst src ident seq payload"
  obtain m where m: "lo_ready m" "same_but_counters n m" "tx_at nic now (Suc (Suc f)) dst q n =
      obind (obind (ipv4_input now (tx_at nic now (Suc f)) q m) (drain_pending nic now (Suc (Suc f)) 127)) (\<lambda>n2. Done (Inr (), n2))"
    using lo_delivers [OF assms(1,3), of nic now "Suc f" q] by blast
  obtain m2 where m2: "lo_ready m2" "same_but_counters m m2" "tx_at nic now (Suc f) src r m =
      obind (obind (ipv4_input now (tx_at nic now f) r m2) (drain_pending nic now (Suc f) 127)) (\<lambda>n2. Done (Inr (), n2))"
    using lo_delivers [OF m(1) assms(2), of nic now f r] by blast
  define n2 where "n2 = m2\<lparr>n_echo := n_echo m2 @ [\<lparr>er_from = dst, er_identifier = ident, er_sequence = seq, er_payload = payload, er_recv_tick = now\<rparr>]\<rparr>"
  have "ipv4_input now (tx_at nic now f) r m2 = Done n2"
    using echo_input [OF assms(4), of dst src 0 ident seq now "tx_at nic now f" m2] unfolding r_def by (auto simp: icmp_input_def n2_def)
  moreover have lo: "lo_ready n2" using m2(1) by (simp add: n2_def lo_ready_def)
  ultimately have "tx_at nic now (Suc f) src r m = Done (Inr (), n2)" using m2(3) by (simp add: drain_empty lo_ready_def)
  then have "ipv4_input now (tx_at nic now (Suc f)) q m = Done n2"
    using echo_input [OF assms(4), of src dst 8 ident seq now "tx_at nic now (Suc f)" m] unfolding q_def r_def
    by (auto simp: icmp_input_def ignore_result_def)
  then have "send_echo_request (tx_at nic now (Suc (Suc f))) src dst ident seq payload n = Done (Inr (), n2)"
    using m(3) lo by (simp add: send_echo_request_def q_def [symmetric] drain_empty lo_ready_def)
  moreover have "n_echo m2 = n_echo n" using m(2) m2(2) by (simp add: same_but_counters_def)
  ultimately show ?thesis using lo by (intro exI [of _ n2]) (simp add: n2_def)
qed

end
