(* ===== verification/ShellGrammar.thy ===== *)
theory ShellGrammar
  imports Text
begin

text \<open>
  The grammar of the shell (src/shell_parser.rs): the tokenizer, the recursive-descent parser with its syntax tree, and the printing of a simple
  command. The parser's position in the token vector is the list of the tokens from there on; the vector ends in \<open>Eof\<close>, which \<open>bump\<close> never passes.
  The mutually recursive parse functions carry fuel; four units per token plus three are always enough (\<open>parse_total\<close>).
\<close>

section \<open>Tokens\<close>

datatype token = Word string | Semi | Newline | KwIf | KwThen | KwElif | KwElse | KwFi | KwWhile | KwDo | KwDone | KwFor | KwIn | Eof

definition keyword :: "string \<Rightarrow> token option" where
  "keyword s = map_of [(''if'', KwIf), (''then'', KwThen), (''elif'', KwElif), (''else'', KwElse), (''fi'', KwFi), (''while'', KwWhile),
     (''do'', KwDo), (''done'', KwDone), (''for'', KwFor), (''in'', KwIn)] s"

definition flush_word :: "string \<Rightarrow> token list" where
  "flush_word buf = (if buf = [] then [] else [case keyword buf of Some k \<Rightarrow> k | None \<Rightarrow> Word buf])"

definition DQUOTE :: char where "DQUOTE = CHR 0x22"
definition SQUOTE :: char where "SQUOTE = CHR 0x27"
definition TAB :: char where "TAB = CHR 0x09"
definition NL :: char where "NL = CHR 0x0A"

text \<open>A quoted part: up to the closing quote, which is consumed, or to the end of the input.\<close>

definition quoted :: "char \<Rightarrow> string \<Rightarrow> string \<times> string" where
  "quoted q cs = (takeWhile (\<lambda>c. c \<noteq> q) cs, drop 1 (dropWhile (\<lambda>c. c \<noteq> q) cs))"

lemma quoted_shorter: "quoted q cs = (w, rest) \<Longrightarrow> length rest \<le> length cs"
  by (auto simp: quoted_def) (metis diff_le_self le_trans length_dropWhile_le)

function tok :: "string \<Rightarrow> string \<Rightarrow> token list" where
  "tok buf [] = flush_word buf @ [Eof]"
| "tok buf (c # cs) =
     (if c = CHR '' '' \<or> c = TAB then flush_word buf @ tok [] cs
      else if c = CHR '';'' then flush_word buf @ Semi # tok [] cs
      else if c = NL then flush_word buf @ Newline # tok [] cs
      else if c = DQUOTE \<or> c = SQUOTE then (case quoted c cs of (w, rest) \<Rightarrow> tok (buf @ w) rest)
      else tok (buf @ [c]) cs)"
  by pat_completeness auto
termination
  by (relation "measure (\<lambda>(buf, cs). length cs)") (auto dest: quoted_shorter [OF sym] simp: less_Suc_eq_le)

definition tokenize :: "string \<Rightarrow> token list" where
  "tokenize input = tok [] input"

section \<open>The syntax tree\<close>

datatype cmd =
    Simple "string list"
  | Sequence "cmd list"
  | If "(cmd \<times> cmd) list" "cmd option"
  | While cmd cmd
  | For string "string list" cmd

section \<open>The parser\<close>

text \<open>The syntax errors, one per message.\<close>

datatype syntax_error =
    ExpectedCommand | IfExpectedThen | ElifExpectedThen | IfExpectedBranch | WhileExpectedDo | WhileExpectedDone
  | ForExpectedName | ForExpectedIn | ForExpectedDo | ForExpectedDone

datatype 'a parsed = Ok 'a "token list" | Err syntax_error | NoFuel

primrec pbind :: "'a parsed \<Rightarrow> ('a \<Rightarrow> token list \<Rightarrow> 'b parsed) \<Rightarrow> 'b parsed" where
  "pbind (Ok x ts) k = k x ts"
| "pbind (Err e) k = Err e"
| "pbind NoFuel k = NoFuel"

fun peek :: "token list \<Rightarrow> token" where
  "peek [] = Eof"
| "peek (t # ts) = t"

fun bump :: "token list \<Rightarrow> token list" where
  "bump (t # u # ts) = u # ts"
| "bump ts = ts"

definition is_sep :: "token \<Rightarrow> bool" where "is_sep t \<longleftrightarrow> t = Semi \<or> t = Newline"

definition ends_list :: "token \<Rightarrow> bool" where
  "ends_list t \<longleftrightarrow> t \<in> {Eof, KwFi, KwDone, KwElse, KwElif, KwThen, KwDo}"

text \<open>Leading separators; the last token is \<open>Eof\<close>, so the loop stops before it.\<close>

fun skip_sep :: "token list \<Rightarrow> token list" where
  "skip_sep (t # u # ts) = (if is_sep t then skip_sep (u # ts) else t # u # ts)"
| "skip_sep ts = ts"

definition expect :: "token \<Rightarrow> syntax_error \<Rightarrow> token list \<Rightarrow> unit parsed" where
  "expect t e ts = (if peek ts = t then Ok () (bump ts) else Err e)"

fun words_of :: "token list \<Rightarrow> string list \<times> token list" where
  "words_of (Word w # u # ts) = (case words_of (u # ts) of (ws, rest) \<Rightarrow> (w # ws, rest))"
| "words_of ts = ([], ts)"

definition parse_simple :: "token list \<Rightarrow> cmd parsed" where
  "parse_simple ts = (case words_of ts of (ws, rest) \<Rightarrow> if ws = [] then Err ExpectedCommand else Ok (Simple ws) rest)"

definition seq_of :: "cmd list \<Rightarrow> cmd" where
  "seq_of items = (if length items = 1 then hd items else Sequence items)"

text \<open>
  The parse functions call one another. Each body takes the parser \<open>p\<close> for the calls it makes; a goal names the function to call, with the arguments
  it has besides the tokens. The two loops are goals of their own.
\<close>

datatype goal = GList | GRest "cmd list" | GItem | GIf | GBranches "(cmd \<times> cmd) list" "cmd option" | GWhile | GFor

type_synonym parser = "goal \<Rightarrow> token list \<Rightarrow> cmd parsed"

definition parse_list :: "parser \<Rightarrow> token list \<Rightarrow> cmd parsed" where
  "parse_list p ts = pbind (p GItem ts) (\<lambda>c ts1. p (GRest [c]) ts1)"

definition parse_rest :: "parser \<Rightarrow> cmd list \<Rightarrow> token list \<Rightarrow> cmd parsed" where
  "parse_rest p items ts =
     (if is_sep (peek ts)
      then let ts1 = bump ts in
        if ends_list (peek ts1) then Ok (seq_of items) ts1
        else pbind (p GItem ts1) (\<lambda>c ts2. p (GRest (items @ [c])) ts2)
      else Ok (seq_of items) ts)"

definition parse_item :: "parser \<Rightarrow> token list \<Rightarrow> cmd parsed" where
  "parse_item p ts = (case peek ts of KwIf \<Rightarrow> p GIf ts | KwWhile \<Rightarrow> p GWhile ts | KwFor \<Rightarrow> p GFor ts | _ \<Rightarrow> parse_simple ts)"

definition parse_if :: "parser \<Rightarrow> token list \<Rightarrow> cmd parsed" where
  "parse_if p ts =
     pbind (p GList (bump ts)) (\<lambda>cond ts1.
     pbind (expect KwThen IfExpectedThen (skip_sep ts1)) (\<lambda>_ ts2.
     pbind (p GList (skip_sep ts2)) (\<lambda>body ts3. p (GBranches [(cond, body)] None) ts3)))"

definition parse_branches :: "parser \<Rightarrow> (cmd \<times> cmd) list \<Rightarrow> cmd option \<Rightarrow> token list \<Rightarrow> cmd parsed" where
  "parse_branches p branches els ts0 =
     (let ts = skip_sep ts0 in
      case peek ts of
        KwElif \<Rightarrow>
          pbind (p GList (bump ts)) (\<lambda>cond ts1.
          pbind (expect KwThen ElifExpectedThen (skip_sep ts1)) (\<lambda>_ ts2.
          pbind (p GList (skip_sep ts2)) (\<lambda>body ts3. p (GBranches (branches @ [(cond, body)]) els) ts3)))
      | KwElse \<Rightarrow> pbind (p GList (skip_sep (bump ts))) (\<lambda>body ts1. p (GBranches branches (Some body)) ts1)
      | KwFi \<Rightarrow> Ok (If branches els) (bump ts)
      | _ \<Rightarrow> Err IfExpectedBranch)"

definition parse_while :: "parser \<Rightarrow> token list \<Rightarrow> cmd parsed" where
  "parse_while p ts =
     pbind (p GList (bump ts)) (\<lambda>cond ts1.
     pbind (expect KwDo WhileExpectedDo (skip_sep ts1)) (\<lambda>_ ts2.
     pbind (p GList (skip_sep ts2)) (\<lambda>body ts3.
     pbind (expect KwDone WhileExpectedDone (skip_sep ts3)) (\<lambda>_ ts4. Ok (While cond body) ts4))))"

definition parse_for :: "parser \<Rightarrow> token list \<Rightarrow> cmd parsed" where
  "parse_for p ts =
     (let ts1 = bump ts in
      case peek ts1 of
        Word var \<Rightarrow>
          pbind (expect KwIn ForExpectedIn (bump ts1)) (\<lambda>_ ts2.
            case words_of ts2 of (items, ts3) \<Rightarrow>
            pbind (expect KwDo ForExpectedDo (skip_sep ts3)) (\<lambda>_ ts4.
            pbind (p GList (skip_sep ts4)) (\<lambda>body ts5.
            pbind (expect KwDone ForExpectedDone (skip_sep ts5)) (\<lambda>_ ts6. Ok (For var items body) ts6))))
      | _ \<Rightarrow> Err ForExpectedName)"

primrec parse_at :: "nat \<Rightarrow> parser" where
  "parse_at 0 g ts = NoFuel"
| "parse_at (Suc f) g ts =
     (case g of
        GList \<Rightarrow> parse_list (parse_at f) ts
      | GRest items \<Rightarrow> parse_rest (parse_at f) items ts
      | GItem \<Rightarrow> parse_item (parse_at f) ts
      | GIf \<Rightarrow> parse_if (parse_at f) ts
      | GBranches branches els \<Rightarrow> parse_branches (parse_at f) branches els ts
      | GWhile \<Rightarrow> parse_while (parse_at f) ts
      | GFor \<Rightarrow> parse_for (parse_at f) ts)"

definition parse_fuel :: "token list \<Rightarrow> nat" where "parse_fuel ts = 4 * length ts + 3"

definition parse_program :: "token list \<Rightarrow> cmd parsed" where
  "parse_program ts = (let ts1 = skip_sep ts in parse_at (parse_fuel ts1) GList ts1)"

definition parse :: "string \<Rightarrow> cmd parsed" where
  "parse input = parse_program (tokenize input)"

text \<open>Reassembling a simple command for the dispatcher.\<close>

definition quote_word :: "string \<Rightarrow> string" where
  "quote_word w = (if CHR '' '' \<in> set w \<or> TAB \<in> set w then DQUOTE # w @ [DQUOTE] else w)"

definition join_simple :: "string list \<Rightarrow> string" where
  "join_simple ws = join_char (CHR '' '') (map quote_word ws)"


lemmas parse_bodies [simp] = parse_list_def parse_rest_def parse_item_def parse_if_def parse_branches_def parse_while_def parse_for_def

section \<open>The parser returns, and returns well-formed trees\<close>

definition word_ok :: "string \<Rightarrow> bool" where
  "word_ok w \<longleftrightarrow> w \<noteq> [] \<and> keyword w = None"

definition is_sequence :: "cmd \<Rightarrow> bool" where
  "is_sequence c \<longleftrightarrow> (case c of Sequence _ \<Rightarrow> True | _ \<Rightarrow> False)"

text \<open>What the grammar allows: at least two items in a sequence, none of them a sequence itself, and no empty command or branch list.\<close>

fun wf_cmd :: "cmd \<Rightarrow> bool" where
  "wf_cmd (Simple ws) = (ws \<noteq> [] \<and> (\<forall>w \<in> set ws. word_ok w))"
| "wf_cmd (Sequence cs) = (2 \<le> length cs \<and> (\<forall>c \<in> set cs. wf_cmd c \<and> \<not> is_sequence c))"
| "wf_cmd (If brs els) = (brs \<noteq> [] \<and> (\<forall>(c, b) \<in> set brs. wf_cmd c \<and> wf_cmd b) \<and> (case els of None \<Rightarrow> True | Some e \<Rightarrow> wf_cmd e))"
| "wf_cmd (While c b) = (wf_cmd c \<and> wf_cmd b)"
| "wf_cmd (For v ws b) = (word_ok v \<and> (\<forall>w \<in> set ws. word_ok w) \<and> wf_cmd b)"

definition wf_item :: "cmd \<Rightarrow> bool" where "wf_item c \<longleftrightarrow> wf_cmd c \<and> \<not> is_sequence c"

definition valid :: "token list \<Rightarrow> bool" where
  "valid ts \<longleftrightarrow> ts \<noteq> [] \<and> last ts = Eof \<and> (\<forall>w. Word w \<in> set ts \<longrightarrow> word_ok w)"

definition fine :: "('a \<Rightarrow> bool) \<Rightarrow> nat \<Rightarrow> 'a parsed \<Rightarrow> bool" where
  "fine Q n r \<longleftrightarrow> (case r of Ok x ts \<Rightarrow> valid ts \<and> length ts < n \<and> Q x | Err _ \<Rightarrow> True | NoFuel \<Rightarrow> False)"

lemma fine_simps [simp]:
  "fine Q n (Ok x ts) \<longleftrightarrow> valid ts \<and> length ts < n \<and> Q x" "fine Q n (Err e)" "\<not> fine Q n NoFuel"
  by (simp_all add: fine_def)

lemma fine_bind:
  assumes "fine Q n r" and "\<And>x ts. valid ts \<Longrightarrow> length ts < n \<Longrightarrow> Q x \<Longrightarrow> fine Q' m (k x ts)"
  shows "fine Q' m (pbind r k)"
  using assms by (cases r) simp_all

lemma valid_bump: "valid ts \<Longrightarrow> valid (bump ts)"
  by (induction ts rule: bump.induct) (auto simp: valid_def)

lemma length_bump: "length (bump ts) \<le> length ts"
  by (induction ts rule: bump.induct) auto

lemma bump_shorter: "valid ts \<Longrightarrow> peek ts \<noteq> Eof \<Longrightarrow> length (bump ts) < length ts"
  by (induction ts rule: bump.induct) (auto simp: valid_def)

lemma valid_skip: "valid ts \<Longrightarrow> valid (skip_sep ts) \<and> length (skip_sep ts) \<le> length ts"
  by (induction ts rule: skip_sep.induct) (auto simp: valid_def)

lemma fine_expect: "valid ts \<Longrightarrow> t \<noteq> Eof \<Longrightarrow> fine (\<lambda>_. True) (length ts) (expect t e ts)"
  using valid_bump bump_shorter by (auto simp: expect_def)

lemma words_of_valid:
  "words_of ts = (ws, rest) \<Longrightarrow> valid ts \<Longrightarrow> valid rest \<and> length rest + length ws = length ts \<and> (\<forall>w \<in> set ws. word_ok w)"
proof (induction ts arbitrary: ws rest rule: words_of.induct)
  case (1 w u ts)
  then show ?case by (auto simp: valid_def split: prod.splits)
qed (auto simp: valid_def)

lemma fine_simple: "valid ts \<Longrightarrow> fine wf_item (length ts) (parse_simple ts)"
proof -
  assume v: "valid ts"
  obtain ws rest where w: "words_of ts = (ws, rest)" by fastforce
  note W = words_of_valid [OF w v]
  show ?thesis
  proof (cases ws)
    case (Cons x xs)
    then have "length rest < length ts" using W by simp
    with W Cons show ?thesis by (simp add: parse_simple_def w wf_item_def is_sequence_def)
  qed (simp add: parse_simple_def w)
qed

lemma wf_seq_of: "cs \<noteq> [] \<Longrightarrow> \<forall>c \<in> set cs. wf_item c \<Longrightarrow> wf_cmd (seq_of cs)"
  by (cases cs; cases "tl cs") (auto simp: seq_of_def wf_item_def)

lemma fine_mono: "fine Q n r \<Longrightarrow> n \<le> m \<Longrightarrow> (\<And>x. Q x \<Longrightarrow> Q' x) \<Longrightarrow> fine Q' m r"
  by (cases r) auto

text \<open>The claim for one amount of fuel, for all seven functions.\<close>

definition fuel_ok :: "nat \<Rightarrow> bool" where
  "fuel_ok f \<longleftrightarrow>
     (\<forall>ts. valid ts \<and> 4 * length ts + 3 \<le> f \<longrightarrow> fine wf_cmd (length ts) (parse_at f GList ts))
   \<and> (\<forall>items ts. valid ts \<and> 4 * length ts + 1 \<le> f \<and> items \<noteq> [] \<and> (\<forall>c \<in> set items. wf_item c) \<longrightarrow> fine wf_cmd (Suc (length ts)) (parse_at f (GRest items) ts))
   \<and> (\<forall>ts. valid ts \<and> 4 * length ts + 2 \<le> f \<longrightarrow> fine wf_item (length ts) (parse_at f GItem ts))
   \<and> (\<forall>ts. valid ts \<and> 4 * length ts + 1 \<le> f \<and> peek ts = KwIf \<longrightarrow> fine wf_item (length ts) (parse_at f GIf ts))
   \<and> (\<forall>brs els ts. valid ts \<and> 4 * length ts + 1 \<le> f \<and> brs \<noteq> [] \<and> (\<forall>(c, b) \<in> set brs. wf_cmd c \<and> wf_cmd b) \<and> (\<forall>e. els = Some e \<longrightarrow> wf_cmd e)
        \<longrightarrow> fine wf_item (length ts) (parse_at f (GBranches brs els) ts))
   \<and> (\<forall>ts. valid ts \<and> 4 * length ts + 1 \<le> f \<and> peek ts = KwWhile \<longrightarrow> fine wf_item (length ts) (parse_at f GWhile ts))
   \<and> (\<forall>ts. valid ts \<and> 4 * length ts + 1 \<le> f \<and> peek ts = KwFor \<longrightarrow> fine wf_item (length ts) (parse_at f GFor ts))"

lemma fuel_list:
  assumes "fuel_ok f" and "valid ts" and "4 * length ts + 3 \<le> Suc f"
  shows "fine wf_cmd (length ts) (parse_at (Suc f) GList ts)"
proof -
  have "fine wf_item (length ts) (parse_at f GItem ts)" using assms by (simp add: fuel_ok_def)
  then show ?thesis unfolding parse_at.simps goal.simps parse_list_def
  proof (rule fine_bind)
    fix c ts1 assume "valid ts1" "length ts1 < length ts" "wf_item c"
    then have "fine wf_cmd (Suc (length ts1)) (parse_at f (GRest [c]) ts1)" using assms by (simp add: fuel_ok_def)
    then show "fine wf_cmd (length ts) (parse_at f (GRest [c]) ts1)" using \<open>length ts1 < length ts\<close> by (auto intro: fine_mono)
  qed
qed

lemma fuel_rest:
  assumes "fuel_ok f" and "valid ts" and "4 * length ts + 1 \<le> Suc f" and "items \<noteq> []" and "\<forall>c \<in> set items. wf_item c"
  shows "fine wf_cmd (Suc (length ts)) (parse_at (Suc f) (GRest items) ts)"
proof (cases "is_sep (peek ts)")
  case True
  then have s: "length (bump ts) < length ts" "valid (bump ts)" using assms(2) bump_shorter valid_bump by (auto simp: is_sep_def)
  then have item: "fine wf_item (length (bump ts)) (parse_at f GItem (bump ts))" using assms by (simp add: fuel_ok_def)
  have "fine wf_cmd (Suc (length ts)) (pbind (parse_at f GItem (bump ts)) (\<lambda>c ts2. parse_at f (GRest (items @ [c])) ts2))"
  proof (rule fine_bind [OF item])
    fix c ts2 assume c: "valid ts2" "length ts2 < length (bump ts)" "wf_item c"
    then have "fine wf_cmd (Suc (length ts2)) (parse_at f (GRest (items @ [c])) ts2)" using assms s by (simp add: fuel_ok_def)
    then show "fine wf_cmd (Suc (length ts)) (parse_at f (GRest (items @ [c])) ts2)" using c s by (auto intro: fine_mono)
  qed
  with True s show ?thesis using wf_seq_of [OF assms(4,5)] by (simp add: Let_def)
qed (use assms wf_seq_of in simp)

lemma fuel_item:
  assumes "fuel_ok f" and "valid ts" and "4 * length ts + 2 \<le> Suc f"
  shows "fine wf_item (length ts) (parse_at (Suc f) GItem ts)"
  using assms fine_simple [OF assms(2)] by (cases "peek ts") (simp_all add: fuel_ok_def)


text \<open>The part that \<open>if\<close>, \<open>elif\<close> and \<open>while\<close> share: a list, a keyword, another list.\<close>

lemma fuel_clause:
  assumes "fuel_ok f" and "valid ts" and "4 * length ts + 3 \<le> f" and "t \<noteq> Eof"
    and "\<And>c b ts'. valid ts' \<Longrightarrow> length ts' < length ts \<Longrightarrow> wf_cmd c \<Longrightarrow> wf_cmd b \<Longrightarrow> fine Q n (k c b ts')"
  shows "fine Q n (pbind (parse_at f GList ts) (\<lambda>c ts1. pbind (expect t e (skip_sep ts1)) (\<lambda>_ ts2. pbind (parse_at f GList (skip_sep ts2)) (\<lambda>b ts3. k c b ts3))))"
proof (rule fine_bind)
  show "fine wf_cmd (length ts) (parse_at f GList ts)" using assms(1-3) by (simp add: fuel_ok_def)
next
  fix c ts1 assume c: "valid ts1" "length ts1 < length ts" "wf_cmd c"
  have s1: "valid (skip_sep ts1)" "length (skip_sep ts1) \<le> length ts1" using valid_skip [OF c(1)] by simp_all
  show "fine Q n (pbind (expect t e (skip_sep ts1)) (\<lambda>_ ts2. pbind (parse_at f GList (skip_sep ts2)) (\<lambda>b ts3. k c b ts3)))"
  proof (rule fine_bind [OF fine_expect [OF s1(1) assms(4)]])
    fix u ts2 assume e: "valid ts2" "length ts2 < length (skip_sep ts1)"
    have s2: "valid (skip_sep ts2)" "length (skip_sep ts2) \<le> length ts2" using valid_skip [OF e(1)] by simp_all
    have "fine wf_cmd (length (skip_sep ts2)) (parse_at f GList (skip_sep ts2))" using assms(1,3) c e s1 s2 by (simp add: fuel_ok_def)
    then show "fine Q n (pbind (parse_at f GList (skip_sep ts2)) (\<lambda>b ts3. k c b ts3))"
      using assms(5) c e s1 s2 by (auto intro: fine_bind)
  qed
qed

lemma fuel_if:
  assumes "fuel_ok f" and "valid ts" and "4 * length ts + 1 \<le> Suc f" and "peek ts = KwIf"
  shows "fine wf_item (length ts) (parse_at (Suc f) GIf ts)"
proof -
  have s: "length (bump ts) < length ts" "valid (bump ts)" using assms(2,4) bump_shorter valid_bump by auto
  show ?thesis unfolding parse_at.simps goal.simps parse_if_def
  proof (rule fuel_clause [OF assms(1) s(2)])
    show "4 * length (bump ts) + 3 \<le> f" using s assms(3) by simp
  next
    fix c b ts' assume "valid ts'" "length ts' < length (bump ts)" "wf_cmd c" "wf_cmd b"
    then have "fine wf_item (length ts') (parse_at f (GBranches [(c, b)] None) ts')" using assms s by (simp add: fuel_ok_def)
    then show "fine wf_item (length ts) (parse_at f (GBranches [(c, b)] None) ts')" using \<open>length ts' < length (bump ts)\<close> s by (auto intro: fine_mono)
  qed simp
qed

lemma fuel_branches:
  assumes "fuel_ok f" and "valid ts0" and "4 * length ts0 + 1 \<le> Suc f" and "brs \<noteq> []" and "\<forall>(c, b) \<in> set brs. wf_cmd c \<and> wf_cmd b"
    and "\<forall>e. els = Some e \<longrightarrow> wf_cmd e"
  shows "fine wf_item (length ts0) (parse_at (Suc f) (GBranches brs els) ts0)"
proof -
  define ts where "ts = skip_sep ts0"
  have v: "valid ts" "length ts \<le> length ts0" using valid_skip [OF assms(2)] by (simp_all add: ts_def)
  have b: "valid (bump ts)" using valid_bump v(1) .
  have next_branch: "fine wf_item (length ts0) (parse_at f (GBranches brs' els') ts')"
    if "valid ts'" "length ts' < length ts" "brs' \<noteq> []" "\<forall>(c, b) \<in> set brs'. wf_cmd c \<and> wf_cmd b" "\<forall>e. els' = Some e \<longrightarrow> wf_cmd e" for brs' els' ts'
  proof -
    have "fine wf_item (length ts') (parse_at f (GBranches brs' els') ts')" using assms(1,3) that v by (simp add: fuel_ok_def)
    then show ?thesis using that v by (auto intro: fine_mono)
  qed
  have elif: "fine wf_item (length ts0)
      (pbind (parse_at f GList (bump ts)) (\<lambda>cond ts1. pbind (expect KwThen ElifExpectedThen (skip_sep ts1)) (\<lambda>_ ts2.
        pbind (parse_at f GList (skip_sep ts2)) (\<lambda>body ts3. parse_at f (GBranches (brs @ [(cond, body)]) els) ts3))))" if k: "peek ts = KwElif"
  proof (rule fuel_clause [OF assms(1) b])
    have s: "length (bump ts) < length ts" using bump_shorter [OF v(1)] k by simp
    then show "4 * length (bump ts) + 3 \<le> f" using v assms(3) by simp
    fix c b ts' assume "valid ts'" "length ts' < length (bump ts)" "wf_cmd c" "wf_cmd b"
    then show "fine wf_item (length ts0) (parse_at f (GBranches (brs @ [(c, b)]) els) ts')" using s assms by (intro next_branch) auto
  qed simp
  have els: "fine wf_item (length ts0) (pbind (parse_at f GList (skip_sep (bump ts))) (\<lambda>body ts1. parse_at f (GBranches brs (Some body)) ts1))" if k: "peek ts = KwElse"
  proof -
    have s: "length (bump ts) < length ts" using bump_shorter [OF v(1)] k by simp
    have w: "valid (skip_sep (bump ts))" "length (skip_sep (bump ts)) \<le> length (bump ts)" using valid_skip [OF b] by simp_all
    have "fine wf_cmd (length (skip_sep (bump ts))) (parse_at f GList (skip_sep (bump ts)))" using assms(1,3) s w v by (simp add: fuel_ok_def)
    then show ?thesis by (rule fine_bind) (use next_branch assms s w in auto)
  qed
  have fi: "fine wf_item (length ts0) (Ok (If brs els) (bump ts))" if "peek ts = KwFi"
    using bump_shorter [OF v(1)] that v b assms by (auto simp: wf_item_def is_sequence_def split: option.splits)
  show ?thesis unfolding parse_at.simps goal.simps parse_branches_def Let_def ts_def [symmetric] using elif els fi by (cases "peek ts") simp_all
qed

lemma fuel_while:
  assumes "fuel_ok f" and "valid ts" and "4 * length ts + 1 \<le> Suc f" and "peek ts = KwWhile"
  shows "fine wf_item (length ts) (parse_at (Suc f) GWhile ts)"
proof -
  have s: "length (bump ts) < length ts" "valid (bump ts)" using assms(2,4) bump_shorter valid_bump by auto
  show ?thesis unfolding parse_at.simps goal.simps parse_while_def
  proof (rule fuel_clause [OF assms(1) s(2)])
    show "4 * length (bump ts) + 3 \<le> f" using s assms(3) by simp
  next
    fix c b ts' assume c: "valid ts'" "length ts' < length (bump ts)" "wf_cmd c" "wf_cmd b"
    have w: "valid (skip_sep ts')" "length (skip_sep ts') \<le> length ts'" using valid_skip [OF c(1)] by simp_all
    show "fine wf_item (length ts) (pbind (expect KwDone WhileExpectedDone (skip_sep ts')) (\<lambda>_ ts4. Ok (While c b) ts4))"
      by (rule fine_bind [OF fine_expect [OF w(1)]]) (use c s w in \<open>auto simp: wf_item_def is_sequence_def\<close>)
  qed simp
qed

lemma fuel_for:
  assumes "fuel_ok f" and "valid ts" and "4 * length ts + 1 \<le> Suc f" and "peek ts = KwFor"
  shows "fine wf_item (length ts) (parse_at (Suc f) GFor ts)"
proof (cases "\<exists>var. peek (bump ts) = Word var")
  case True
  then obtain var where var: "peek (bump ts) = Word var" by blast
  have s: "length (bump ts) < length ts" "valid (bump ts)" using assms(2,4) bump_shorter valid_bump by auto
  then have wv: "word_ok var" using var by (cases "bump ts") (auto simp: valid_def)
  have s2: "length (bump (bump ts)) < length (bump ts)" "valid (bump (bump ts))" using s bump_shorter valid_bump var by auto
  have "fine wf_item (length ts) (pbind (expect KwIn ForExpectedIn (bump (bump ts))) (\<lambda>_ ts2. case words_of ts2 of (items, ts3) \<Rightarrow>
      pbind (expect KwDo ForExpectedDo (skip_sep ts3)) (\<lambda>_ ts4. pbind (parse_at f GList (skip_sep ts4)) (\<lambda>body ts5.
      pbind (expect KwDone ForExpectedDone (skip_sep ts5)) (\<lambda>_ ts6. Ok (For var items body) ts6)))))"
  proof (rule fine_bind [OF fine_expect [OF s2(2)]])
    fix u ts2 assume t2: "valid ts2" "length ts2 < length (bump (bump ts))"
    obtain items ts3 where w: "words_of ts2 = (items, ts3)" by fastforce
    have t3: "valid ts3" "length ts3 \<le> length ts2" "\<forall>w \<in> set items. word_ok w" using words_of_valid [OF w t2(1)] by simp_all
    have k3: "valid (skip_sep ts3)" "length (skip_sep ts3) \<le> length ts3" using valid_skip [OF t3(1)] by simp_all
    have "fine wf_item (length ts) (pbind (expect KwDo ForExpectedDo (skip_sep ts3)) (\<lambda>_ ts4. pbind (parse_at f GList (skip_sep ts4)) (\<lambda>body ts5.
      pbind (expect KwDone ForExpectedDone (skip_sep ts5)) (\<lambda>_ ts6. Ok (For var items body) ts6))))"
    proof (rule fine_bind [OF fine_expect [OF k3(1)]])
      fix u ts4 assume t4: "valid ts4" "length ts4 < length (skip_sep ts3)"
      have k4: "valid (skip_sep ts4)" "length (skip_sep ts4) \<le> length ts4" using valid_skip [OF t4(1)] by simp_all
      have "fine wf_cmd (length (skip_sep ts4)) (parse_at f GList (skip_sep ts4))" using assms(1,3) s s2 t2 t3 k3 t4 k4 by (simp add: fuel_ok_def)
      then show "fine wf_item (length ts) (pbind (parse_at f GList (skip_sep ts4)) (\<lambda>body ts5.
        pbind (expect KwDone ForExpectedDone (skip_sep ts5)) (\<lambda>_ ts6. Ok (For var items body) ts6)))"
      proof (rule fine_bind)
        fix body ts5 assume t5: "valid ts5" "length ts5 < length (skip_sep ts4)" "wf_cmd body"
        have k5: "valid (skip_sep ts5)" "length (skip_sep ts5) \<le> length ts5" using valid_skip [OF t5(1)] by simp_all
        show "fine wf_item (length ts) (pbind (expect KwDone ForExpectedDone (skip_sep ts5)) (\<lambda>_ ts6. Ok (For var items body) ts6))"
          by (rule fine_bind [OF fine_expect [OF k5(1)]])
             (use s s2 t2 t3 k3 t4 k4 t5 k5 wv in \<open>auto simp: wf_item_def is_sequence_def\<close>)
      qed
    qed simp
    then show "fine wf_item (length ts) (case words_of ts2 of (items, ts3) \<Rightarrow>
      pbind (expect KwDo ForExpectedDo (skip_sep ts3)) (\<lambda>_ ts4. pbind (parse_at f GList (skip_sep ts4)) (\<lambda>body ts5.
      pbind (expect KwDone ForExpectedDone (skip_sep ts5)) (\<lambda>_ ts6. Ok (For var items body) ts6))))" by (simp add: w)
  qed simp
  with var show ?thesis by (simp add: Let_def)
next
  case False
  then show ?thesis by (cases "peek (bump ts)") (simp_all add: Let_def)
qed

lemma fuel_enough: "fuel_ok f"
proof (induction f)
  case 0
  show ?case by (auto simp: fuel_ok_def valid_def)
next
  case (Suc f)
  show ?case
    unfolding fuel_ok_def [of "Suc f"]
    using fuel_list [OF Suc] fuel_rest [OF Suc] fuel_item [OF Suc] fuel_if [OF Suc] fuel_branches [OF Suc] fuel_while [OF Suc] fuel_for [OF Suc]
    by blast
qed


lemma tok_valid: "valid (tok buf cs)"
proof (induction buf cs rule: tok.induct)
  case (1 buf)
  then show ?case by (auto simp: valid_def flush_word_def word_ok_def keyword_def split: option.splits if_splits)
next
  case (2 buf c cs)
  have w: "Word w \<in> set (flush_word buf) \<Longrightarrow> word_ok w" for w
    by (auto simp: flush_word_def word_ok_def keyword_def split: option.splits if_splits)
  obtain q rest where q: "quoted c cs = (q, rest)" by fastforce
  show ?case using 2 q w by (auto simp: valid_def)
qed

text \<open>
  C25: the shell parser returns for every input, and every tree it returns is well formed: no command or branch list is empty, sequences have at least two
  items and are not nested in one another, and no word is empty or a keyword.
\<close>

theorem parse_wellformed: "case parse input of Ok c rest \<Rightarrow> wf_cmd c \<and> rest \<noteq> [] | Err e \<Rightarrow> True | NoFuel \<Rightarrow> False"
proof -
  define ts where "ts = skip_sep (tokenize input)"
  have "valid ts" using valid_skip [OF tok_valid] by (simp add: ts_def tokenize_def)
  then have "fine wf_cmd (length ts) (parse_at (parse_fuel ts) GList ts)" using fuel_enough [of "parse_fuel ts"] by (simp add: fuel_ok_def parse_fuel_def)
  then show ?thesis by (auto simp: parse_def parse_program_def Let_def ts_def [symmetric] valid_def split: parsed.splits)
qed

section \<open>Printing and parsing\<close>

definition interleave :: "token \<Rightarrow> token list list \<Rightarrow> token list" where
  "interleave t ps = concat (case ps of [] \<Rightarrow> [] | p # qs \<Rightarrow> p # map (\<lambda>q. t # q) qs)"

definition clause :: "token list \<times> token list \<Rightarrow> token list" where
  "clause x = fst x @ [Semi, KwThen] @ snd x @ [Semi]"

primrec unparse :: "cmd \<Rightarrow> token list" where
  "unparse (Simple ws) = map Word ws"
| "unparse (Sequence cs) = interleave Semi (map unparse cs)"
| "unparse (If brs els) = KwIf # interleave KwElif (map clause (map (map_prod unparse unparse) brs))
     @ (case map_option unparse els of None \<Rightarrow> [] | Some e \<Rightarrow> KwElse # e @ [Semi]) @ [KwFi]"
| "unparse (While c b) = KwWhile # unparse c @ [Semi, KwDo] @ unparse b @ [Semi, KwDone]"
| "unparse (For v ws b) = [KwFor, Word v, KwIn] @ map Word ws @ [Semi, KwDo] @ unparse b @ [Semi, KwDone]"

text \<open>What may follow a list, and what is left when it has been read; what may follow an item.\<close>

definition stops :: "token list \<Rightarrow> token list \<Rightarrow> bool" where
  "stops R R' \<longleftrightarrow> (\<exists>t r. R = Semi # t # r \<and> ends_list t \<and> R' = t # r) \<or> (R = [Eof] \<and> R' = [Eof])"

definition follows :: "token list \<Rightarrow> bool" where
  "follows R \<longleftrightarrow> (\<exists>t r. R = Semi # t # r) \<or> R = [Eof]"

definition item_back :: "cmd \<Rightarrow> bool" where
  "item_back c \<longleftrightarrow> (\<forall>R f. follows R \<longrightarrow> 4 * length (unparse c @ R) + 2 \<le> f \<longrightarrow> parse_at f GItem (unparse c @ R) = Ok c R)"

definition list_back :: "token list \<Rightarrow> cmd \<Rightarrow> bool" where
  "list_back ts c \<longleftrightarrow> (\<forall>R R' f. stops R R' \<longrightarrow> 4 * length (ts @ R) + 3 \<le> f \<longrightarrow> parse_at f GList (ts @ R) = Ok c R')"

definition starts_cmd :: "token list \<Rightarrow> bool" where
  "starts_cmd ts \<longleftrightarrow> (\<exists>t r. ts = t # r \<and> \<not> is_sep t \<and> \<not> ends_list t)"

lemma starts_append: "starts_cmd ts \<Longrightarrow> starts_cmd (ts @ us)"
  by (auto simp: starts_cmd_def)

lemma starts_facts:
  "starts_cmd ts \<Longrightarrow> ts \<noteq> []" "starts_cmd ts \<Longrightarrow> \<not> ends_list (peek ts)" "starts_cmd ts \<Longrightarrow> skip_sep ts = ts" "starts_cmd ts \<Longrightarrow> bump (t # ts) = ts"
proof -
  assume "starts_cmd ts"
  then obtain u r where u: "ts = u # r" "\<not> is_sep u" "\<not> ends_list u" by (auto simp: starts_cmd_def)
  then show "ts \<noteq> []" "\<not> ends_list (peek ts)" "bump (t # ts) = ts" by simp_all
  show "skip_sep ts = ts" using u by (cases r) simp_all
qed

lemma interleave_simps: "interleave t [] = []" "interleave t (p # qs) = p @ concat (map (\<lambda>q. t # q) qs)"
  by (simp_all add: interleave_def)

lemma starts_unparse: "wf_cmd c \<Longrightarrow> starts_cmd (unparse c)"
proof (induction c)
  case (Simple ws)
  then show ?case by (cases ws) (auto simp: starts_cmd_def is_sep_def ends_list_def)
next
  case (Sequence cs)
  then show ?case by (cases cs) (auto simp: interleave_simps intro: starts_append)
qed (simp_all add: starts_cmd_def is_sep_def ends_list_def)

lemma follows_items: "stops R R' \<Longrightarrow> \<forall>c \<in> set cs. wf_cmd c \<Longrightarrow> follows (concat (map (\<lambda>c. Semi # unparse c) cs) @ R)"
proof (cases cs)
  case (Cons d ds)
  assume "\<forall>c \<in> set cs. wf_cmd c"
  then have "starts_cmd (unparse d @ concat (map (\<lambda>c. Semi # unparse c) ds) @ R)" using Cons starts_unparse by (auto intro!: starts_append)
  then show ?thesis using Cons by (auto simp: follows_def starts_cmd_def)
qed (auto simp: stops_def follows_def)

lemma rest_back:
  assumes "stops R R'"
  shows "\<forall>c \<in> set cs. item_back c \<and> wf_cmd c \<Longrightarrow> 4 * length (concat (map (\<lambda>c. Semi # unparse c) cs) @ R) + 1 \<le> f \<Longrightarrow>
    parse_at f (GRest acc) (concat (map (\<lambda>c. Semi # unparse c) cs) @ R) = Ok (seq_of (acc @ cs)) R'"
proof (induction cs arbitrary: acc f)
  case Nil
  then show ?case using assms by (cases f) (auto simp: stops_def is_sep_def)
next
  case (Cons c cs)
  obtain g where f: "f = Suc g" using Cons.prems(2) by (cases f) simp_all
  define X where "X = concat (map (\<lambda>c. Semi # unparse c) cs) @ R"
  have fX: "follows X" unfolding X_def using Cons.prems(1) by (intro follows_items [OF assms]) auto
  have st: "starts_cmd (unparse c @ X)" using starts_unparse Cons.prems(1) by (auto intro: starts_append)
  have len: "4 * length (unparse c @ X) + 5 \<le> f" using Cons.prems(2) by (simp add: X_def)
  then have "parse_at g GItem (unparse c @ X) = Ok c X" using Cons.prems(1) fX f by (simp add: item_back_def)
  moreover have "parse_at g (GRest (acc @ [c])) X = Ok (seq_of ((acc @ [c]) @ cs)) R'"
    unfolding X_def by (rule Cons.IH) (use Cons.prems(1) len f in \<open>auto simp: X_def\<close>)
  ultimately show ?case using starts_facts(2,4) [OF st] by (simp add: f X_def [symmetric] is_sep_def Let_def)
qed

lemma list_back_items:
  assumes "cs \<noteq> []" and "\<forall>c \<in> set cs. item_back c \<and> wf_cmd c"
  shows "list_back (interleave Semi (map unparse cs)) (seq_of cs)"
  unfolding list_back_def
proof (intro allI impI)
  fix R R' f assume st: "stops R R'" and len: "4 * length (interleave Semi (map unparse cs) @ R) + 3 \<le> f"
  obtain c ds where cs: "cs = c # ds" using assms(1) by (cases cs) auto
  obtain g where f: "f = Suc g" using len by (cases f) simp_all
  define X where "X = concat (map (\<lambda>c. Semi # unparse c) ds) @ R"
  have eq: "interleave Semi (map unparse cs) @ R = unparse c @ X" by (simp add: cs interleave_simps X_def o_def)
  have fX: "follows X" unfolding X_def using assms(2) cs by (intro follows_items [OF st]) auto
  have "parse_at g GItem (unparse c @ X) = Ok c X" using assms(2) cs len fX f unfolding eq by (simp add: item_back_def)
  moreover have "parse_at g (GRest [c]) X = Ok (seq_of ([c] @ ds)) R'"
  proof -
    have "0 < length (unparse c)" using starts_unparse [of c] assms(2) cs starts_facts(1) by auto
    then show ?thesis unfolding X_def using assms(2) cs len f unfolding eq by (intro rest_back [OF st]) (auto simp: X_def)
  qed
  ultimately show "parse_at f GList (interleave Semi (map unparse cs) @ R) = Ok (seq_of cs) R'" unfolding eq by (simp add: f cs)
qed


lemma words_back: "peek (t # r) = t \<Longrightarrow> \<forall>w. t \<noteq> Word w \<Longrightarrow> words_of (map Word ws @ t # r) = (ws, t # r)"
proof (induction ws)
  case Nil
  then show ?case by (cases t; cases r) auto
next
  case (Cons w ws)
  then show ?case by (cases ws) auto
qed

lemma simple_back:
  assumes "wf_cmd (Simple ws)"
  shows "item_back (Simple ws)"
  unfolding item_back_def
proof (intro allI impI)
  fix R f assume R: "follows R" and len: "4 * length (unparse (Simple ws) @ R) + 2 \<le> f"
  obtain t r where tr: "R = t # r" "\<forall>w. t \<noteq> Word w" using R by (auto simp: follows_def)
  obtain g where f: "f = Suc g" using len by (cases f) simp_all
  obtain w us where ws: "ws = w # us" using assms by (cases ws) auto
  have "peek (map Word ws @ R) = Word w" by (simp add: ws)
  moreover have "parse_simple (map Word ws @ R) = Ok (Simple ws) R" using words_back [of t r ws] tr ws by (simp add: parse_simple_def)
  ultimately show "parse_at f GItem (unparse (Simple ws) @ R) = Ok (Simple ws) R" by (simp add: f)
qed

lemma stops_kw: "ends_list t \<Longrightarrow> stops (Semi # t # r) (t # r)"
  by (simp add: stops_def)

lemma skip_kw: "\<not> is_sep t \<Longrightarrow> skip_sep (t # r) = t # r"
  by (cases r) simp_all

lemma follows_nonempty: "follows R \<Longrightarrow> bump (t # R) = R"
  by (auto simp: follows_def)

lemma clause_back:
  assumes "list_back (unparse c) c" and "list_back (unparse b) b" and "wf_cmd c" and "wf_cmd b" and "t \<in> {KwThen, KwDo}" and "ends_list u"
    and "4 * length (unparse c @ Semi # t # unparse b @ Semi # u # r) + 3 \<le> f"
  shows "pbind (parse_at f GList (unparse c @ Semi # t # unparse b @ Semi # u # r)) (\<lambda>c ts1. pbind (expect t e (skip_sep ts1)) (\<lambda>_ ts2.
      pbind (parse_at f GList (skip_sep ts2)) (\<lambda>b ts3. k c b ts3))) = k c b (u # r)"
proof -
  let ?b = "unparse b @ Semi # u # r"
  have st: "starts_cmd ?b" using starts_unparse [OF assms(4)] by (rule starts_append)
  have t: "ends_list t" "\<not> is_sep t" using assms(5) by (auto simp: ends_list_def is_sep_def)
  have "parse_at f GList (unparse c @ Semi # t # ?b) = Ok c (t # ?b)" using assms(1,7) stops_kw [OF t(1)] by (simp add: list_back_def)
  moreover have "parse_at f GList ?b = Ok b (u # r)" using assms(2,7) stops_kw [OF assms(6)] by (simp add: list_back_def)
  ultimately show ?thesis by (simp add: expect_def skip_kw [OF t(2)] starts_facts [OF st])
qed

lemma while_back:
  assumes "list_back (unparse c) c" and "list_back (unparse b) b" and "wf_cmd c" and "wf_cmd b"
  shows "item_back (While c b)"
  unfolding item_back_def
proof (intro allI impI)
  fix R f assume R: "follows R" and len: "4 * length (unparse (While c b) @ R) + 2 \<le> f"
  obtain g where f: "f = Suc (Suc g)" using len by (cases f; cases "f - 1") simp_all
  let ?ts = "unparse c @ Semi # KwDo # unparse b @ Semi # KwDone # R"
  have st: "starts_cmd ?ts" using starts_unparse [OF assms(3)] by (rule starts_append)
  have "parse_at (Suc g) GWhile (KwWhile # ?ts) = pbind (expect KwDone WhileExpectedDone (skip_sep (KwDone # R))) (\<lambda>_ ts4. Ok (While c b) ts4)"
    unfolding parse_at.simps goal.simps parse_while_def starts_facts(4) [OF st]
    by (rule clause_back [OF assms]) (use len f in \<open>simp_all add: ends_list_def\<close>)
  also have "\<dots> = Ok (While c b) R" using follows_nonempty [OF R] by (simp add: expect_def skip_kw is_sep_def)
  finally show "parse_at f GItem (unparse (While c b) @ R) = Ok (While c b) R" by (simp add: f)
qed

lemma for_back:
  assumes "list_back (unparse b) b" and "wf_cmd b"
  shows "item_back (For v ws b)"
  unfolding item_back_def
proof (intro allI impI)
  fix R f assume R: "follows R" and len: "4 * length (unparse (For v ws b) @ R) + 2 \<le> f"
  obtain g where f: "f = Suc (Suc g)" using len by (cases f; cases "f - 1") simp_all
  let ?b = "unparse b @ Semi # KwDone # R"
  have st: "starts_cmd ?b" using starts_unparse [OF assms(2)] by (rule starts_append)
  have w: "words_of (map Word ws @ Semi # KwDo # ?b) = (ws, Semi # KwDo # ?b)" by (rule words_back) simp_all
  have ne: "bump (KwIn # map Word ws @ Semi # KwDo # ?b) = map Word ws @ Semi # KwDo # ?b" by (cases ws) simp_all
  have "parse_at g GList ?b = Ok b (KwDone # R)" using assms(1) len f stops_kw [of KwDone R] by (simp add: list_back_def ends_list_def)
  then have "parse_at (Suc g) GFor (KwFor # Word v # KwIn # map Word ws @ Semi # KwDo # ?b) = Ok (For v ws b) R"
    by (simp add: expect_def ne w skip_kw is_sep_def starts_facts [OF st] follows_nonempty [OF R])
  then show "parse_at f GItem (unparse (For v ws b) @ R) = Ok (For v ws b) R" by (simp add: f)
qed


abbreviation clause_of :: "cmd \<times> cmd \<Rightarrow> token list" where
  "clause_of x \<equiv> clause (map_prod unparse unparse x)"

definition else_of :: "cmd option \<Rightarrow> token list" where
  "else_of els = (case map_option unparse els of None \<Rightarrow> [] | Some e \<Rightarrow> KwElse # e @ [Semi])"

definition reads_back :: "cmd \<Rightarrow> bool" where
  "reads_back c \<longleftrightarrow> wf_cmd c \<and> list_back (unparse c) c"

text \<open>What follows a clause starts with a keyword that ends a list.\<close>

lemma tail_starts: "\<exists>u r. concat (map (\<lambda>x. KwElif # clause_of x) brs) @ else_of els @ KwFi # R = u # r \<and> ends_list u"
  by (cases brs; cases els) (auto simp: ends_list_def else_of_def)

lemma else_back:
  assumes "\<forall>e. els = Some e \<longrightarrow> reads_back e" and "follows R" and "4 * length (else_of els @ KwFi # R) + 1 \<le> f"
  shows "parse_at f (GBranches brs None) (else_of els @ KwFi # R) = Ok (If brs els) R"
proof (cases els)
  case None
  then show ?thesis using assms(2,3) by (cases f) (simp_all add: else_of_def skip_kw is_sep_def follows_nonempty)
next
  case (Some e)
  obtain g where f: "f = Suc g" using assms(3) by (cases f) simp_all
  let ?e = "unparse e @ Semi # KwFi # R"
  have e: "wf_cmd e" "list_back (unparse e) e" using assms(1) Some by (simp_all add: reads_back_def)
  have st: "starts_cmd ?e" using starts_unparse [OF e(1)] by (rule starts_append)
  have "parse_at g GList ?e = Ok e (KwFi # R)"
    using e(2) stops_kw [of KwFi R] assms(3) unfolding list_back_def by (simp add: f Some else_of_def ends_list_def)
  moreover have "parse_at g (GBranches brs (Some e)) (KwFi # R) = Ok (If brs (Some e)) R"
    using follows_nonempty [OF assms(2)] assms(3) by (cases g) (simp_all add: f Some else_of_def skip_kw is_sep_def)
  ultimately show ?thesis using starts_facts [OF st] by (simp add: f Some else_of_def skip_kw is_sep_def)
qed

lemma branches_back:
  assumes "\<forall>(c, b) \<in> set brs. reads_back c \<and> reads_back b" and "\<forall>e. els = Some e \<longrightarrow> reads_back e" and "follows R"
  shows "4 * length (concat (map (\<lambda>x. KwElif # clause_of x) brs) @ else_of els @ KwFi # R) + 1 \<le> f \<Longrightarrow>
    parse_at f (GBranches acc None) (concat (map (\<lambda>x. KwElif # clause_of x) brs) @ else_of els @ KwFi # R) = Ok (If (acc @ brs) els) R"
  using assms(1)
proof (induction brs arbitrary: acc f)
  case Nil
  then show ?case using else_back [OF assms(2,3)] by simp
next
  case (Cons x brs)
  obtain c b where x: "x = (c, b)" by fastforce
  have cb: "list_back (unparse c) c" "list_back (unparse b) b" "wf_cmd c" "wf_cmd b" using Cons.prems(2) x by (auto simp: reads_back_def)
  define T where "T = concat (map (\<lambda>x. KwElif # clause_of x) brs) @ else_of els @ KwFi # R"
  obtain u r where T: "T = u # r" "ends_list u" using tail_starts [of brs els R] by (auto simp: T_def)
  let ?ts = "unparse c @ Semi # KwThen # unparse b @ Semi # u # r"
  have eq: "concat (map (\<lambda>x. KwElif # clause_of x) (x # brs)) @ else_of els @ KwFi # R = KwElif # ?ts"
    by (simp add: x clause_def T(1) [symmetric] T_def)
  obtain g where f: "f = Suc g" using Cons.prems(1) by (cases f) simp_all
  have len: "4 * length ?ts + 4 \<le> g" using Cons.prems(1) unfolding eq by (simp add: f)
  have st: "starts_cmd ?ts" using starts_unparse [OF cb(3)] by (rule starts_append)
  have "pbind (parse_at g GList ?ts) (\<lambda>cond ts1. pbind (expect KwThen ElifExpectedThen (skip_sep ts1)) (\<lambda>_ ts2.
      pbind (parse_at g GList (skip_sep ts2)) (\<lambda>body ts3. parse_at g (GBranches (acc @ [(cond, body)]) None) ts3)))
    = parse_at g (GBranches (acc @ [(c, b)]) None) (u # r)" using len T(2) by (intro clause_back [OF cb]) simp_all
  also have "\<dots> = Ok (If ((acc @ [(c, b)]) @ brs) els) R"
    using len Cons.prems(2) unfolding T(1) [symmetric] T_def by (intro Cons.IH) (auto simp: T(1) [symmetric] T_def)
  finally show ?case unfolding eq by (simp add: f x skip_kw is_sep_def starts_facts [OF st])
qed

lemma if_back:
  assumes "\<forall>(c, b) \<in> set brs. reads_back c \<and> reads_back b" and "\<forall>e. els = Some e \<longrightarrow> reads_back e" and "brs \<noteq> []"
  shows "item_back (If brs els)"
  unfolding item_back_def
proof (intro allI impI)
  fix R f assume R: "follows R" and len: "4 * length (unparse (If brs els) @ R) + 2 \<le> f"
  obtain c b bs where brs: "brs = (c, b) # bs" using assms(3) by (cases brs) auto
  have cb: "list_back (unparse c) c" "list_back (unparse b) b" "wf_cmd c" "wf_cmd b" using assms(1) brs by (auto simp: reads_back_def)
  define T where "T = concat (map (\<lambda>x. KwElif # clause_of x) bs) @ else_of els @ KwFi # R"
  obtain u r where T: "T = u # r" "ends_list u" using tail_starts [of bs els R] by (auto simp: T_def)
  let ?ts = "unparse c @ Semi # KwThen # unparse b @ Semi # u # r"
  have eq: "unparse (If brs els) @ R = KwIf # ?ts"
    by (simp add: brs interleave_simps clause_def T(1) [symmetric] T_def else_of_def o_def)
  obtain g where f: "f = Suc (Suc g)" using len by (cases f; cases "f - 1") simp_all
  have len': "4 * length ?ts + 4 \<le> g" using len unfolding eq by (simp add: f)
  have st: "starts_cmd ?ts" using starts_unparse [OF cb(3)] by (rule starts_append)
  have "pbind (parse_at g GList ?ts) (\<lambda>cond ts1. pbind (expect KwThen IfExpectedThen (skip_sep ts1)) (\<lambda>_ ts2.
      pbind (parse_at g GList (skip_sep ts2)) (\<lambda>body ts3. parse_at g (GBranches [(cond, body)] None) ts3)))
    = parse_at g (GBranches [(c, b)] None) (u # r)" using len' T(2) by (intro clause_back [OF cb]) simp_all
  also have "\<dots> = Ok (If ([(c, b)] @ bs) els) R"
    using len' assms(1,2) brs R unfolding T(1) [symmetric] T_def by (intro branches_back) (auto simp: T(1) [symmetric] T_def)
  finally show "parse_at f GItem (unparse (If brs els) @ R) = Ok (If brs els) R" unfolding eq by (simp add: f brs starts_facts [OF st])
qed

lemma seq_of_single: "seq_of [c] = c" "2 \<le> length cs \<Longrightarrow> seq_of cs = Sequence cs"
  by (simp_all add: seq_of_def)

lemma item_reads_back: "item_back c \<Longrightarrow> wf_cmd c \<Longrightarrow> list_back (unparse c) c"
  using list_back_items [of "[c]"] by (simp add: interleave_simps seq_of_single)


lemma cmd_reads_back: "wf_cmd c \<Longrightarrow> list_back (unparse c) c \<and> (\<not> is_sequence c \<longrightarrow> item_back c)"
proof (induction c)
  case (Simple ws)
  then show ?case using simple_back item_reads_back by blast
next
  case (Sequence cs)
  then have "\<forall>c \<in> set cs. item_back c \<and> wf_cmd c" by auto
  moreover have "cs \<noteq> []" "2 \<le> length cs" using Sequence.prems by auto
  ultimately have "list_back (interleave Semi (map unparse cs)) (Sequence cs)" using list_back_items seq_of_single(2) by metis
  then show ?case by (simp add: is_sequence_def)
next
  case (If brs els)
  have "reads_back c \<and> reads_back b" if "(c, b) \<in> set brs" for c b
  proof -
    have "wf_cmd c" "wf_cmd b" using If.prems that by auto
    then show ?thesis using If.IH(1) [OF that, of c] If.IH(2) [OF that, of b] by (simp add: reads_back_def)
  qed
  moreover have "reads_back e" if "els = Some e" for e using If.IH(3) [of e] If.prems that by (simp add: reads_back_def)
  ultimately have "item_back (If brs els)" using If.prems by (intro if_back) auto
  then show ?case using item_reads_back If.prems by blast
next
  case (While c b)
  then have "item_back (While c b)" by (intro while_back) simp_all
  then show ?case using item_reads_back While.prems by blast
next
  case (For v ws b)
  then have "item_back (For v ws b)" by (intro for_back) simp_all
  then show ?case using item_reads_back For.prems by blast
qed

text \<open>The text of a token: words in double quotes, so that blanks and separators in them survive.\<close>

fun token_text :: "token \<Rightarrow> string" where
  "token_text (Word w) = DQUOTE # w @ [DQUOTE]"
| "token_text Semi = '';''"
| "token_text Newline = [NL]"
| "token_text KwIf = ''if''"
| "token_text KwThen = ''then''"
| "token_text KwElif = ''elif''"
| "token_text KwElse = ''else''"
| "token_text KwFi = ''fi''"
| "token_text KwWhile = ''while''"
| "token_text KwDo = ''do''"
| "token_text KwDone = ''done''"
| "token_text KwFor = ''for''"
| "token_text KwIn = ''in''"
| "token_text Eof = ''''"

definition render :: "cmd \<Rightarrow> string" where
  "render c = concat (map (\<lambda>t. token_text t @ '' '') (unparse c))"

definition printable :: "token \<Rightarrow> bool" where
  "printable t \<longleftrightarrow> t \<noteq> Eof \<and> (\<forall>w. t = Word w \<longrightarrow> word_ok w \<and> DQUOTE \<notin> set w)"

lemma quoted_word: "DQUOTE \<notin> set w \<Longrightarrow> quoted DQUOTE (w @ DQUOTE # r) = (w, r)"
  by (induction w) (auto simp: quoted_def)

lemmas char_consts = DQUOTE_def SQUOTE_def TAB_def NL_def

lemma tok_token:
  assumes "printable t"
  shows "tok [] (token_text t @ CHR '' '' # r) = t # tok [] r"
proof (cases t)
  case (Word w)
  then have w: "word_ok w" "DQUOTE \<notin> set w" using assms by (auto simp: printable_def)
  have "tok [] (DQUOTE # w @ DQUOTE # CHR '' '' # r) = tok w (CHR '' '' # r)"
    using quoted_word [OF w(2), of "CHR '' '' # r"] by (simp add: char_consts)
  also have "\<dots> = Word w # tok [] r" using w(1) by (simp add: flush_word_def word_ok_def)
  finally show ?thesis by (simp add: Word)
qed (use assms in \<open>simp_all add: printable_def flush_word_def keyword_def char_consts\<close>)

lemma tokenize_text: "\<forall>t \<in> set ts. printable t \<Longrightarrow> tok [] (concat (map (\<lambda>t. token_text t @ '' '') ts)) = ts @ [Eof]"
proof (induction ts)
  case (Cons t ts)
  then show ?case using tok_token [of t "concat (map (\<lambda>t. token_text t @ '' '') ts)"] by simp
qed (simp add: flush_word_def)


definition token_fine :: "token \<Rightarrow> bool" where
  "token_fine t \<longleftrightarrow> t \<noteq> Eof \<and> (\<forall>w. t = Word w \<longrightarrow> word_ok w)"

lemma interleave_all: "\<forall>p \<in> set ps. \<forall>t \<in> set p. P t \<Longrightarrow> P s \<Longrightarrow> \<forall>t \<in> set (interleave s ps). P t"
  by (cases ps) (auto simp: interleave_simps)

lemma unparse_fine: "wf_cmd c \<Longrightarrow> \<forall>t \<in> set (unparse c). token_fine t"
proof (induction c)
  case (Simple ws)
  then show ?case by (auto simp: token_fine_def)
next
  case (Sequence cs)
  have "\<forall>t \<in> set (interleave Semi (map unparse cs)). token_fine t" using Sequence by (intro interleave_all) (auto simp: token_fine_def)
  then show ?case by simp
next
  case (If brs els)
  have "\<forall>t \<in> set (unparse c) \<union> set (unparse b). token_fine t" if "(c, b) \<in> set brs" for c b
  proof -
    have "wf_cmd c" "wf_cmd b" using If.prems that by auto
    then show ?thesis using If.IH(1) [OF that, of c] If.IH(2) [OF that, of b] by auto
  qed
  then have "\<forall>t \<in> set (clause_of x). token_fine t" if "x \<in> set brs" for x
    using that by (cases x) (auto simp: clause_def token_fine_def)
  then have "\<forall>t \<in> set (interleave KwElif (map clause_of brs)). token_fine t"
    by (intro interleave_all) (auto simp: token_fine_def)
  moreover have "\<forall>t \<in> set (unparse e). token_fine t" if "els = Some e" for e using If.IH(3) [of e] If.prems that by simp
  ultimately show ?case by (auto simp: token_fine_def o_def split: option.splits)
next
  case (While c b)
  then show ?case by (auto simp: token_fine_def)
next
  case (For v ws b)
  then show ?case by (auto simp: token_fine_def)
qed

text \<open>
  C20: printing and parsing are inverse: the text of any well-formed command, with its words in double quotes and its keywords and separators bare, is
  parsed back to exactly that command, with nothing left over.
\<close>

theorem parse_render:
  assumes "wf_cmd c" and "\<forall>w. Word w \<in> set (unparse c) \<longrightarrow> DQUOTE \<notin> set w"
  shows "parse (render c) = Ok c [Eof]"
proof -
  have "\<forall>t \<in> set (unparse c). printable t" using unparse_fine [OF assms(1)] assms(2) by (auto simp: printable_def token_fine_def)
  then have toks: "tokenize (render c) = unparse c @ [Eof]" using tokenize_text by (simp add: tokenize_def render_def)
  have st: "starts_cmd (unparse c @ [Eof])" using starts_unparse [OF assms(1)] by (rule starts_append)
  have "list_back (unparse c) c" using cmd_reads_back [OF assms(1)] by simp
  then have "parse_at (parse_fuel (unparse c @ [Eof])) GList (unparse c @ [Eof]) = Ok c [Eof]"
    unfolding list_back_def parse_fuel_def by (auto simp: stops_def simp del: parse_at.simps)
  then show ?thesis by (simp add: parse_def parse_program_def toks Let_def starts_facts [OF st])
qed

definition wit_cmd :: cmd where
  "wit_cmd = If [(Simple [''test'', ''a b'', ''=''], For ''x'' [''1'', ''2''] (Sequence [Simple [''echo'', ''x;y''], Simple [''true'']]))] (Some (Simple [''false'']))"

theorem parse_render_witness: "parse (render wit_cmd) = Ok wit_cmd [Eof]"
proof (rule parse_render)
  show "wf_cmd wit_cmd" by (simp add: wit_cmd_def word_ok_def keyword_def is_sequence_def)
  show "\<forall>w. Word w \<in> set (unparse wit_cmd) \<longrightarrow> DQUOTE \<notin> set w" by (auto simp: wit_cmd_def DQUOTE_def clause_def interleave_simps)
qed

text \<open>A simple command handed back to the dispatcher reads as the words it was made of, unless one of them holds a quote or a separator.\<close>

definition plain_word :: "string \<Rightarrow> bool" where
  "plain_word w \<longleftrightarrow> word_ok w \<and> set w \<inter> {DQUOTE, SQUOTE, NL, CHR '';''} = {}"

lemma tok_plain:
  "\<forall>c \<in> set w. c \<notin> {DQUOTE, SQUOTE, NL, CHR '';'', CHR '' '', TAB} \<Longrightarrow> tok buf (w @ r) = tok (buf @ w) r"
proof (induction w arbitrary: buf)
  case (Cons c w)
  then have "tok buf ((c # w) @ r) = tok (buf @ [c]) (w @ r)" by simp
  also have "\<dots> = tok ((buf @ [c]) @ w) r" using Cons by simp
  finally show ?case by simp
qed simp

lemma tok_quote_word:
  assumes "plain_word w"
  shows "tok [] (quote_word w @ r) = tok w r"
proof (cases "CHR '' '' \<in> set w \<or> TAB \<in> set w")
  case True
  have "DQUOTE \<notin> set w" using assms by (auto simp: plain_word_def)
  then show ?thesis using True quoted_word [of w r] by (simp add: quote_word_def char_consts)
next
  case False
  then show ?thesis using assms tok_plain [of w "[]" r] by (auto simp: quote_word_def plain_word_def)
qed

lemma tokenize_join_simple: "\<forall>w \<in> set ws. plain_word w \<Longrightarrow> tokenize (join_simple ws) = map Word ws @ [Eof]"
proof (induction ws)
  case Nil
  then show ?case by (simp add: join_simple_def join_char_def tokenize_def flush_word_def)
next
  case (Cons w ws)
  have w: "word_ok w" using Cons.prems by (simp add: plain_word_def)
  show ?case
  proof (cases ws)
    case Nil
    then show ?thesis using Cons.prems tok_quote_word [of w "[]"] w by (simp add: join_simple_def join_char_def tokenize_def flush_word_def word_ok_def)
  next
    case (Cons v vs)
    have "join_simple (w # ws) = quote_word w @ CHR '' '' # join_simple ws" by (simp add: Cons join_simple_def join_char_def)
    then show ?thesis using Cons.IH Cons.prems tok_quote_word [of w] w by (simp add: tokenize_def flush_word_def word_ok_def)
  qed
qed

text \<open>Where the parser is more liberal than the grammar in its own comment: a second \<open>else\<close> replaces the first, and what follows a complete command is ignored.\<close>

lemma second_else_wins:
  "parse ''if a ; then b ; else c ; else d ; fi'' = Ok (If [(Simple [''a''], Simple [''b''])] (Some (Simple [''d'']))) [Eof]"
  by code_simp

lemma trailing_tokens_ignored: "parse ''while a ; do b ; done rm x'' = Ok (While (Simple [''a'']) (Simple [''b''])) [Word ''rm'', Word ''x'', Eof]"
  by code_simp

end
