(* ===== verification/Spec2Isabelle.thy ===== *)
theory Spec2Isabelle
  imports Seccomp Flock Rlimit Sha256Vectors Users Capability TimerPreempt Vfs Epoll Slab Vmalloc Cow TcpLoop ShellGrammar
begin

text \<open>
  \<^bold>\<open>RustOS: a verification library.\<close> The theories model the kernel of the repository (Rust, under src/) as functions and records of HOL and prove the
  properties that make its components correct.

  \<^bold>\<open>The program.\<close> Processes are entries of a process manager; a scheduler per kernel and run
  queues per processor decide who runs; the timer interrupt drives both. A process owns a table of file descriptors that lead to files of the virtual
  file system, to pipes and to the terminal; poll, select and epoll wait on them. Memory comes from a bitmap of physical frames, on which page tables,
  copy-on-write, the slab allocator and vmalloc are built. Security is a user database with salted SHA-256 passwords, capabilities, resource limits,
  advisory locks and a BPF-style syscall filter. The network stack sends packets over a loopback link or a card and runs UDP, ICMP and TCP on top. A
  shell with a small grammar is the user interface.

  \<^bold>\<open>Conventions.\<close> Machine integers are words of their width; a routine that can panic or hang returns an \<open>outcome\<close> (\<open>Done\<close>, \<open>Panic\<close>, \<open>Stuck\<close>), one that can
  fail returns an option or a sum. Statics behind a mutex are explicit state; taking a lock that the same thread holds is \<open>Stuck\<close>. Strings are lists of
  bytes. What is not in src/ (processor registers, the entry type of the x86_64 crate, a network card, the clock) is an argument of the definitions.

  \<^bold>\<open>Theories.\<close> Prelude, Bytes, Text, FsTypes and Slots hold what the components share; the locales \<open>bounded_store\<close>, \<open>slot_allocator\<close>, \<open>byte_channel\<close>,
  \<open>lock_manager\<close>, \<open>set_interface\<close>, \<open>object_pool\<close>, \<open>file_store\<close> and \<open>wire_format\<close> are the interfaces, each interpreted on the model of the code.

  \<^item> Processes: KernelStacks (gdt.rs, process/context.rs), Process and ProcessProtocol (process/mod.rs), Scheduler (process/scheduler.rs), Smp (smp.rs),
    TimerPreempt (interrupts.rs). The process table stays sound under every operation; fork, exit and wait cooperate; the ready queue holds each runnable
    process once and the next one has the least virtual runtime; the handler that ends a time slice locks the scheduler twice.
  \<^item> Descriptors: Pipe (syscall/pipe.rs), FileDesc (syscall/filedesc.rs), Tty (tty.rs), Poll (syscall/poll.rs), Epoll (syscall/epoll.rs). The ring
    buffer refines a queue, the descriptor table a partial map, epoll a map of interests; poll and select return exactly what is ready.
  \<^item> Files: Ramdisk, Tmpfs, Devfs, Sysfs (fs/) and Vfs (fs/vfs.rs). A file reads as it was last written, through every layer; path resolution ends.
  \<^item> Memory: FrameAlloc (memory.rs), PageTable (memory/pagetable.rs), Cow (memory/cow.rs), Slab (slab.rs), Vmalloc (vmalloc.rs). No frame, object or
    region is handed out twice; a cloned page table translates as the original; after a fork both processes write to private copies.
  \<^item> Security: Sha256 and Sha256Vectors (sha256.rs), Users (users.rs), Capability (capability.rs), Rlimit (rlimit.rs), Flock (flock.rs), Seccomp
    (seccomp.rs). Streaming a message in pieces equals the one-shot hash; a password that was set is accepted; locks exclude; the filter machine halts
    and a compiled allow list decides membership.
  \<^item> Network: Wire (net/eth.rs, arp.rs, ip.rs, udp.rs), Tcp (net/tcp.rs), NetStack (net/mod.rs, socket.rs, icmp.rs, loopback.rs) and TcpLoop. Packets
    parse back and carry correct checksums; a stream is received in order; whole TCP sessions and datagrams over the loopback link deliver what was sent.
  \<^item> Shell: ShellGrammar (shell_parser.rs). The parser returns for every input with a well-formed tree, and printing is inverse to parsing.

  \<^bold>\<open>Bounds and fuel.\<close> The waits of poll, select and epoll may run forever and are partial functions into option; that they return when something becomes
  ready or time runs out is proved. The draining of the loopback queue re-enters itself, and its fuel is the depth of that nesting: one level is enough
  for a datagram, two for an echo or data on a connection, three for a handshake; \<open>rst_storm\<close> is the case that no depth serves. The shell parser takes
  four units of fuel per token plus three, proved enough for every input. Every other recursion is structural or has a termination proof.

  \<^bold>\<open>Not modelled.\<close> Device drivers, display, serial line, firmware tables and the entry code are hardware access or assembly. FAT32, ext2, partitions, the
  ELF loader, the syscall dispatcher, the user-memory allocator, name resolution and the services over the network (dns, dhcp, http, IPv6, Unix sockets),
  init, cron, the logs and the interactive commands of the shell are not translated; the components above do not depend on them, except that a mounted
  FAT32 volume is an argument of the VFS, any implementation of the file-system trait. The futures of task/ only carry the tick counter, which is an argument here.
\<close>

end
